(* ===== verification/Prelude.thy ===== *)
theory Prelude
  imports Main "HOL-Library.Char_ord" "HOL-Library.List_Lexorder"
begin

text \<open>
  Shared vocabulary of the development: Go strings as byte lists, the helpers of Go's
  \<^verbatim>\<open>strings\<close> package the program calls, decimal rendering, error values and
  association lists for Go's \<^verbatim>\<open>map[string]string\<close>. A Go string is a sequence of bytes, so
  it is an Isabelle \<^typ>\<open>string\<close>, whose characters are bytes; text is read rune by rune only
  where the source ranges over a string (theory Utf8).
\<close>

named_theorems go_str \<open>rewrite rules for the string helpers\<close>
named_theorems go_defs \<open>unfolding equations of thin wrappers\<close>

section \<open>Types\<close>

type_synonym strmap = "(string \<times> string) list"
type_synonym duration = int
type_synonym time = int
type_synonym rune = nat

abbreviation NL :: char where "NL \<equiv> CHR 0x0A"
abbreviation CR :: char where "CR \<equiv> CHR 0x0D"
abbreviation TAB :: char where "TAB \<equiv> CHR 0x09"
abbreviation SP :: char where "SP \<equiv> CHR 0x20"
abbreviation DQ :: char where "DQ \<equiv> CHR 0x22"

definition byte :: "char \<Rightarrow> nat" where
  "byte c = of_char c"

lemma byte_less [simp]: "byte c < 256"
  by (simp add: byte_def)

lemma byte_inj [simp]: "byte c = byte d \<longleftrightarrow> c = d"
  by (simp add: byte_def)

lemma byte_char_of [simp]: "n < 256 \<Longrightarrow> byte (char_of n) = n"
  by (simp add: byte_def)

lemma char_of_byte [simp]: "char_of (byte c) = c"
  by (simp add: byte_def)

section \<open>Go's strings package on byte strings\<close>

definition HasPrefix :: "string \<Rightarrow> string \<Rightarrow> bool" where
  "HasPrefix s p = (take (length p) s = p)"

definition HasSuffix :: "string \<Rightarrow> string \<Rightarrow> bool" where
  "HasSuffix s p = (length p \<le> length s \<and> drop (length s - length p) s = p)"

definition TrimPrefix :: "string \<Rightarrow> string \<Rightarrow> string" where
  "TrimPrefix s p = (if HasPrefix s p then drop (length p) s else s)"

definition TrimSuffix :: "string \<Rightarrow> string \<Rightarrow> string" where
  "TrimSuffix s p = (if HasSuffix s p then take (length s - length p) s else s)"

fun Index :: "string \<Rightarrow> string \<Rightarrow> nat option" where
  "Index [] p = (if p = [] then Some 0 else None)"
| "Index (c # s) p = (if HasPrefix (c # s) p then Some 0 else map_option Suc (Index s p))"

definition Contains :: "string \<Rightarrow> string \<Rightarrow> bool" where
  "Contains s p = (Index s p \<noteq> None)"

fun IndexByte :: "string \<Rightarrow> char \<Rightarrow> nat option" where
  "IndexByte [] b = None"
| "IndexByte (c # s) b = (if c = b then Some 0 else map_option Suc (IndexByte s b))"

fun split_on :: "char \<Rightarrow> string \<Rightarrow> string list" where
  "split_on b [] = [[]]"
| "split_on b (c # s) =
     (if c = b then [] # split_on b s
      else (case split_on b s of [] \<Rightarrow> [[c]] | w # ws \<Rightarrow> (c # w) # ws))"

fun Join :: "string \<Rightarrow> string list \<Rightarrow> string" where
  "Join sep [] = []"
| "Join sep [x] = x"
| "Join sep (x # y # zs) = x @ sep @ Join sep (y # zs)"

definition TrimRightBytes :: "string \<Rightarrow> string \<Rightarrow> string" where
  "TrimRightBytes s cutset = rev (dropWhile (\<lambda>c. c \<in> set cutset) (rev s))"

function ReplaceAll :: "string \<Rightarrow> string \<Rightarrow> string \<Rightarrow> string" where
  "ReplaceAll s old new =
     (if s = [] \<or> old = [] then s
      else if HasPrefix s old then new @ ReplaceAll (drop (length old) s) old new
      else hd s # ReplaceAll (tl s) old new)"
  by pat_completeness auto
termination
  by (relation "measure (\<lambda>(s, old, new). length s)") (auto simp: neq_Nil_conv)

declare ReplaceAll.simps [simp del]

lemma HasPrefix_append [go_str, simp]: "HasPrefix (p @ s) p"
  by (simp add: HasPrefix_def)

lemma HasPrefix_iff: "HasPrefix s p \<longleftrightarrow> (\<exists>t. s = p @ t)"
  by (metis HasPrefix_append HasPrefix_def append_take_drop_id)

lemma TrimPrefix_append [go_str, simp]: "TrimPrefix (p @ s) p = s"
  by (simp add: TrimPrefix_def)

lemma HasSuffix_iff: "HasSuffix s p \<longleftrightarrow> (\<exists>t. s = t @ p)"
proof
  assume "HasSuffix s p"
  then have "s = take (length s - length p) s @ p"
    by (metis HasSuffix_def append_take_drop_id)
  then show "\<exists>t. s = t @ p" ..
qed (auto simp: HasSuffix_def)

lemma HasSuffix_append [go_str, simp]: "HasSuffix (s @ p) p"
  by (auto simp: HasSuffix_iff)

lemma TrimSuffix_append [go_str, simp]: "TrimSuffix (s @ p) p = s"
  by (simp add: TrimSuffix_def)

lemma Index_Some:
  "Index s p = Some i \<Longrightarrow> i + length p \<le> length s \<and> take (length p) (drop i s) = p"
proof (induction s arbitrary: i)
  case Nil
  then show ?case by (auto split: if_splits)
next
  case (Cons c s)
  show ?case
  proof (cases "HasPrefix (c # s) p")
    case True
    then have "length p \<le> length (c # s)" by (metis HasPrefix_def length_take min_def nat_le_linear)
    with True Cons.prems show ?thesis by (simp add: HasPrefix_def)
  next
    case False
    with Cons.prems obtain j where "Index s p = Some j" "i = Suc j" by auto
    with Cons.IH [of j] show ?thesis by simp
  qed
qed

lemma Contains_iff: "Contains s p \<longleftrightarrow> (\<exists>a b. s = a @ p @ b)"
proof
  assume "Contains s p"
  then obtain i where "Index s p = Some i" by (auto simp: Contains_def)
  from Index_Some [OF this] have "drop i s = p @ drop (length p) (drop i s)"
    by (metis append_take_drop_id)
  then have "s = take i s @ p @ drop (length p) (drop i s)"
    by (metis append_take_drop_id)
  then show "\<exists>a b. s = a @ p @ b" by blast
next
  assume "\<exists>a b. s = a @ p @ b"
  then obtain a b where "s = a @ p @ b" by blast
  moreover have "Index (a @ p @ b) p \<noteq> None"
  proof (induction a)
    case Nil
    show ?case
    proof (cases "p @ b")
      case (Cons x xs)
      then have "HasPrefix (x # xs) p" by (metis HasPrefix_append)
      with Cons show ?thesis by simp
    qed simp
  qed auto
  ultimately show "Contains s p" by (simp add: Contains_def)
qed

lemma split_on_neq_Nil [simp]: "split_on b s \<noteq> []"
  by (induction s) (auto split: list.splits)

lemma Join_Cons: "xs \<noteq> [] \<Longrightarrow> Join sep (x # xs) = x @ sep @ Join sep xs"
  by (cases xs) auto

lemma Join_split_on [go_str, simp]: "Join [b] (split_on b s) = s"
proof (induction s)
  case (Cons c s)
  show ?case
  proof (cases "c = b")
    case True
    with Cons show ?thesis by (simp add: Join_Cons)
  next
    case False
    obtain w ws where "split_on b s = w # ws" by (cases "split_on b s") auto
    with Cons False show ?thesis by (cases ws) auto
  qed
qed simp

lemma split_on_notin [simp]: "b \<notin> set x \<Longrightarrow> split_on b x = [x]"
  by (induction x) auto

lemma split_on_append: "b \<notin> set x \<Longrightarrow> split_on b (x @ b # s) = x # split_on b s"
  by (induction x) auto

lemma split_on_Join [go_str]:
  "xs \<noteq> [] \<Longrightarrow> \<forall>x \<in> set xs. b \<notin> set x \<Longrightarrow> split_on b (Join [b] xs) = xs"
proof (induction xs)
  case (Cons x xs)
  then show ?case by (cases "xs = []") (auto simp: Join_Cons split_on_append)
qed simp

lemma split_on_elem: "x \<in> set (split_on b s) \<Longrightarrow> b \<notin> set x"
proof (induction s arbitrary: x)
  case (Cons c s)
  then show ?case by (auto split: if_splits list.splits)
qed simp

lemma set_split_on: "x \<in> set (split_on b s) \<Longrightarrow> set x \<subseteq> set s"
proof (induction s arbitrary: x)
  case (Cons c s)
  then show ?case by (fastforce split: if_splits list.splits)
qed simp

lemma set_Join: "set (Join sep xs) \<subseteq> (\<Union>x \<in> set xs. set x) \<union> set sep"
  by (induction sep xs rule: Join.induct) auto

lemma TrimRightBytes_set: "set (TrimRightBytes s cs) \<subseteq> set s"
  by (simp add: TrimRightBytes_def) (metis set_dropWhileD set_rev subsetI)

section \<open>Decimal rendering\<close>

fun dec :: "nat \<Rightarrow> string" where
  "dec n = (if n < 10 then [char_of (48 + n)] else dec (n div 10) @ [char_of (48 + n mod 10)])"

declare dec.simps [simp del]

definition deci :: "int \<Rightarrow> string" where
  "deci i = (if i < 0 then ''-'' @ dec (nat (- i)) else dec (nat i))"

definition is_digit :: "char \<Rightarrow> bool" where
  "is_digit c = (48 \<le> byte c \<and> byte c \<le> 57)"

definition undec :: "string \<Rightarrow> nat" where
  "undec s = foldl (\<lambda>n c. 10 * n + (byte c - 48)) 0 s"

lemma is_digit_char_of [simp]: "n < 10 \<Longrightarrow> is_digit (char_of (48 + n :: nat))"
  by (simp add: is_digit_def)

lemma dec_neq_Nil [simp]: "dec n \<noteq> []"
  by (subst dec.simps) simp

lemma dec_digits: "c \<in> set (dec n) \<Longrightarrow> is_digit c"
proof (induction n rule: dec.induct)
  case (1 n)
  show ?case
  proof (cases "n < 10")
    case True
    with "1.prems" show ?thesis by (simp add: dec.simps [of n])
  next
    case False
    with "1.prems" have "c \<in> set (dec (n div 10)) \<or> c = char_of (48 + n mod 10)"
      by (auto simp: dec.simps [of n])
    with False "1.IH" show ?thesis by auto
  qed
qed

lemma undec_snoc: "undec (s @ [c]) = 10 * undec s + (byte c - 48)"
  by (simp add: undec_def)

lemma undec_dec [simp]: "undec (dec n) = n"
proof (induction n rule: dec.induct)
  case (1 n)
  show ?case
  proof (cases "n < 10")
    case True
    then show ?thesis by (simp add: dec.simps [of n] undec_def)
  next
    case False
    with "1.IH" show ?thesis by (simp add: dec.simps [of n] undec_snoc)
  qed
qed

section \<open>Error values\<close>

text \<open>
  A Go error is what \<^verbatim>\<open>errors.Is\<close> can observe of it (the sentinels it wraps, outermost
  first) and its message. \<open>fmt.Errorf\<close> with \<^verbatim>\<open>%w\<close> keeps the wrapped sentinels and renders
  the message.
\<close>

datatype sentinel =
    ErrInvalidYAML | ErrMissingIssuer | ErrInvalidIssuer | ErrMissingClientID | ErrNoUsers
  | ErrEmptyUser | ErrEmptyGroup | ErrDuplicateUser | ErrInvalidSessionEnv | ErrInvalidScope
  | ErrInvalidClaim | ErrInvalidDuration | ErrHostname | ErrInvalidAPIBase | ErrInvalidHostID
  | ErrRelativePath | ErrNoConfigFile
  | ErrDiscovery | ErrNoDeviceFlow | ErrAccessDenied | ErrExpired | ErrTimeout | ErrNoIDToken
  | ErrInvalidToken
  | ErrUnauthorized | ErrForbidden | ErrRateLimited | ErrConflict | ErrUnavailable | ErrBadResponse
  | ErrAccount | ErrExists | ErrKeyType | ErrNotRoot | ErrInvalidEnv
  | OsErrNotExist | OsErrExist | OsErrPermission | ContextDeadlineExceeded | ContextCanceled

record go_error =
  err_is :: "sentinel list"
  err_msg :: string

definition Is :: "go_error \<Rightarrow> sentinel \<Rightarrow> bool" where
  "Is e s = (s \<in> set (err_is e))"

definition errors_New :: "string \<Rightarrow> go_error" where
  "errors_New m = \<lparr>err_is = [], err_msg = m\<rparr>"

definition sentinel_error :: "sentinel \<Rightarrow> string \<Rightarrow> go_error" where
  "sentinel_error s m = \<lparr>err_is = [s], err_msg = m\<rparr>"

definition wrapf :: "string \<Rightarrow> go_error \<Rightarrow> string \<Rightarrow> go_error" where
  "wrapf pre e post = \<lparr>err_is = err_is e, err_msg = pre @ err_msg e @ post\<rparr>"

definition wrap2 :: "go_error \<Rightarrow> string \<Rightarrow> go_error \<Rightarrow> go_error" where
  "wrap2 e sep e' = \<lparr>err_is = err_is e @ err_is e', err_msg = err_msg e @ sep @ err_msg e'\<rparr>"

lemma Is_simps [simp]:
  "Is (errors_New m) s = False"
  "Is (sentinel_error t m) s = (s = t)"
  "Is (wrapf a e b) s = Is e s"
  "Is (wrap2 e a e') s = (Is e s \<or> Is e' s)"
  by (auto simp: Is_def errors_New_def sentinel_error_def wrapf_def wrap2_def)

section \<open>Association lists for maps\<close>

definition sorted_keys :: "strmap \<Rightarrow> string list" where
  "sorted_keys m = sort (map fst m)"

lemma set_sorted_keys [simp]: "set (sorted_keys m) = fst ` set m"
  by (simp add: sorted_keys_def)

lemma map_of_perm:
  "distinct (map fst xs) \<Longrightarrow> distinct (map fst ys) \<Longrightarrow> set xs = set ys \<Longrightarrow> map_of xs = map_of ys"
  by (rule ext) (metis map_of_eq_None_iff map_of_eq_Some_iff not_None_eq)

section \<open>Reading lines\<close>

text \<open>
  \<^verbatim>\<open>bufio.Scanner\<close> with the default split function: lines end at a newline, a carriage return
  before it is dropped, and a line that does not fit the buffer of 64 KiB stops the scan with
  an error.
\<close>

definition MaxScanTokenSize :: int where
  "MaxScanTokenSize = 65536"

definition dropCR :: "string \<Rightarrow> string" where
  "dropCR s = TrimSuffix s [CR]"

definition scan_tokens :: "string \<Rightarrow> string list" where
  "scan_tokens raw = (let ps = split_on NL raw in if last ps = [] then butlast ps else ps)"

definition Scan_lines :: "string \<Rightarrow> string list \<times> bool" where
  "Scan_lines raw =
     (let ts = scan_tokens raw; ok = takeWhile (\<lambda>l. int (length l) < MaxScanTokenSize) ts
      in (map dropCR ok, length ok = length ts))"

definition unlines :: "string list \<Rightarrow> string" where
  "unlines ls = concat (map (\<lambda>l. l @ [NL]) ls)"

lemma split_on_unlines: "\<forall>l \<in> set ls. NL \<notin> set l \<Longrightarrow> split_on NL (unlines ls) = ls @ [[]]"
  by (induction ls) (auto simp: unlines_def split_on_append)

lemma scan_tokens_unlines [go_str]: "\<forall>l \<in> set ls. NL \<notin> set l \<Longrightarrow> scan_tokens (unlines ls) = ls"
  by (simp add: scan_tokens_def split_on_unlines Let_def)

definition scannable :: "string \<Rightarrow> bool" where
  "scannable l = (NL \<notin> set l \<and> int (length l) < MaxScanTokenSize \<and> \<not> HasSuffix l [CR])"

lemma Scan_lines_unlines [go_str]:
  assumes "list_all scannable ls"
  shows "Scan_lines (unlines ls) = (ls, True)"
proof -
  have tw: "takeWhile (\<lambda>l. int (length l) < MaxScanTokenSize) ls = ls"
    using assms by (auto simp: list_all_iff scannable_def)
  have "map dropCR ls = ls"
    using assms by (intro map_idI) (auto simp: list_all_iff scannable_def dropCR_def TrimSuffix_def)
  moreover have "scan_tokens (unlines ls) = ls"
    using assms by (intro scan_tokens_unlines) (simp add: list_all_iff scannable_def)
  ultimately show ?thesis by (simp add: Scan_lines_def Let_def tw)
qed

end
