(* ===== verification/Utf8.thy ===== *)
theory Utf8
  imports Prelude
begin

text \<open>
  UTF-8 as Go's \<^verbatim>\<open>unicode/utf8\<close> reads and writes it, and the rune classes of Go's
  \<^verbatim>\<open>unicode\<close> package the program tests. Ranging over a string decodes one rune at a time; a
  byte that starts no well-formed sequence yields U+FFFD and advances by one byte. \<open>chunks\<close>
  lists the runes of a string with the bytes each was read from. The Unicode tables above
  Latin-1 that decide printability are data of the Go distribution: they are the argument
  \<open>tbl\<close> of \<open>IsPrint\<close>.
\<close>

section \<open>Decoding and encoding\<close>

definition RuneError :: rune where
  "RuneError = 0xFFFD"

definition cont :: "nat \<Rightarrow> bool" where
  "cont b = (0x80 \<le> b \<and> b < 0xC0)"

definition second3 :: "nat \<Rightarrow> nat \<Rightarrow> bool" where
  "second3 b0 b1 = (cont b1 \<and> (b0 = 0xE0 \<longrightarrow> 0xA0 \<le> b1) \<and> (b0 = 0xED \<longrightarrow> b1 < 0xA0))"

definition second4 :: "nat \<Rightarrow> nat \<Rightarrow> bool" where
  "second4 b0 b1 = (cont b1 \<and> (b0 = 0xF0 \<longrightarrow> 0x90 \<le> b1) \<and> (b0 = 0xF4 \<longrightarrow> b1 < 0x90))"

text \<open>The rune and the width of the first sequence of a string (utf8.DecodeRuneInString).\<close>

fun decode_bytes :: "nat list \<Rightarrow> rune \<times> nat" where
  "decode_bytes [] = (RuneError, 0)"
| "decode_bytes (b0 # t) =
     (if b0 < 0x80 then (b0, 1)
      else if 0xC2 \<le> b0 \<and> b0 < 0xE0 then
        (case t of b1 # _ \<Rightarrow> if cont b1 then ((b0 - 0xC0) * 64 + (b1 - 0x80), 2) else (RuneError, 1)
         | _ \<Rightarrow> (RuneError, 1))
      else if 0xE0 \<le> b0 \<and> b0 < 0xF0 then
        (case t of b1 # b2 # _ \<Rightarrow>
           if second3 b0 b1 \<and> cont b2
           then ((b0 - 0xE0) * 4096 + (b1 - 0x80) * 64 + (b2 - 0x80), 3) else (RuneError, 1)
         | _ \<Rightarrow> (RuneError, 1))
      else if 0xF0 \<le> b0 \<and> b0 < 0xF5 then
        (case t of b1 # b2 # b3 # _ \<Rightarrow>
           if second4 b0 b1 \<and> cont b2 \<and> cont b3
           then ((b0 - 0xF0) * 262144 + (b1 - 0x80) * 4096 + (b2 - 0x80) * 64 + (b3 - 0x80), 4)
           else (RuneError, 1)
         | _ \<Rightarrow> (RuneError, 1))
      else (RuneError, 1))"

definition decode_rune :: "string \<Rightarrow> rune \<times> nat" where
  "decode_rune s = decode_bytes (map byte s)"

definition scalar :: "rune \<Rightarrow> bool" where
  "scalar r = (r < 0xD800 \<or> (0xE000 \<le> r \<and> r \<le> 0x10FFFF))"

definition encode_bytes :: "rune \<Rightarrow> nat list" where
  "encode_bytes r =
     (if r < 0x80 then [r]
      else if r < 0x800 then [0xC0 + r div 64, 0x80 + r mod 64]
      else if \<not> scalar r then [0xEF, 0xBF, 0xBD]
      else if r < 0x10000 then [0xE0 + r div 4096, 0x80 + r div 64 mod 64, 0x80 + r mod 64]
      else [0xF0 + r div 262144, 0x80 + r div 4096 mod 64, 0x80 + r div 64 mod 64, 0x80 + r mod 64])"

definition encode_rune :: "rune \<Rightarrow> string" where
  "encode_rune r = map char_of (encode_bytes r)"

lemma decode_bytes_width: "bs \<noteq> [] \<Longrightarrow> 0 < snd (decode_bytes bs) \<and> snd (decode_bytes bs) \<le> length bs"
  by (cases bs) (auto split: list.splits)

lemma decode_rune_width: "s \<noteq> [] \<Longrightarrow> 0 < snd (decode_rune s) \<and> snd (decode_rune s) \<le> length s"
  using decode_bytes_width [of "map byte s"] by (simp add: decode_rune_def)

text \<open>The runes of a string with the bytes they were read from.\<close>

function chunks :: "string \<Rightarrow> (rune \<times> string) list" where
  "chunks s = (if s = [] then []
     else (fst (decode_rune s), take (snd (decode_rune s)) s) # chunks (drop (snd (decode_rune s)) s))"
  by pat_completeness auto
termination
  by (relation "measure length") (auto dest: decode_rune_width)

declare chunks.simps [simp del]

definition valid_chunk :: "rune \<times> string \<Rightarrow> bool" where
  "valid_chunk p = (\<not> (fst p = RuneError \<and> length (snd p) = 1))"

definition runes :: "string \<Rightarrow> rune list" where
  "runes s = map fst (chunks s)"

definition of_runes :: "rune list \<Rightarrow> string" where
  "of_runes rs = concat (map encode_rune rs)"

definition ValidString :: "string \<Rightarrow> bool" where
  "ValidString s = list_all valid_chunk (chunks s)"

definition ToValidUTF8 :: "string \<Rightarrow> string" where
  "ToValidUTF8 s = concat (map snd (filter valid_chunk (chunks s)))"

lemma chunks_Nil [simp]: "chunks [] = []"
  by (simp add: chunks.simps)

lemma chunks_Cons:
  "s \<noteq> [] \<Longrightarrow> chunks s =
     (fst (decode_rune s), take (snd (decode_rune s)) s) # chunks (drop (snd (decode_rune s)) s)"
  by (subst chunks.simps) simp

lemma concat_chunks [simp]: "concat (map snd (chunks s)) = s"
  by (induction s rule: chunks.induct) (subst chunks.simps, auto)

subsection \<open>Encoding then decoding\<close>

lemma encode_bytes_less: "scalar r \<Longrightarrow> b \<in> set (encode_bytes r) \<Longrightarrow> b < 256"
  by (auto simp: encode_bytes_def scalar_def split: if_splits)

lemma map_byte_encode: "scalar r \<Longrightarrow> map byte (encode_rune r) = encode_bytes r"
  by (auto simp: encode_rune_def intro!: map_idI byte_char_of dest: encode_bytes_less)

text \<open>A rune as base-64 digits, the form in which the encoder writes it.\<close>

lemma split3:
  obtains a b c where "r = 4096 * a + 64 * b + c" "b < 64" "c < (64::nat)"
    "r div 4096 = a" "r div 64 mod 64 = b" "r mod 64 = c"
proof
  have "r div 64 = 64 * (r div 64 div 64) + r div 64 mod 64" by simp
  moreover have "r = 64 * (r div 64) + r mod 64" by simp
  moreover have "r div 4096 = r div 64 div 64" by (simp flip: div_mult2_eq)
  ultimately show "r = 4096 * (r div 4096) + 64 * (r div 64 mod 64) + r mod 64" by linarith
qed simp_all

lemma split4:
  obtains a b c d where "r = 262144 * a + 4096 * b + 64 * c + d" "b < 64" "c < 64" "d < (64::nat)"
    "r div 262144 = a" "r div 4096 mod 64 = b" "r div 64 mod 64 = c" "r mod 64 = d"
proof
  have "r div 4096 = 64 * (r div 4096 div 64) + r div 4096 mod 64" by simp
  moreover have "r div 262144 = r div 4096 div 64" by (simp flip: div_mult2_eq)
  moreover obtain x b c where "r = 4096 * x + 64 * b + c" "r div 4096 = x" "r div 64 mod 64 = b" "r mod 64 = c"
    by (rule split3 [of r])
  ultimately show "r = 262144 * (r div 262144) + 4096 * (r div 4096 mod 64) + 64 * (r div 64 mod 64) + r mod 64"
    by linarith
qed simp_all

lemma decode_encode_bytes:
  assumes "scalar r"
  shows "decode_bytes (encode_bytes r @ t) = (r, length (encode_bytes r))"
proof -
  consider "r < 0x80" | "0x80 \<le> r" "r < 0x800" | "0x800 \<le> r" "r < 0x10000" | "0x10000 \<le> r"
    by linarith
  then show ?thesis
  proof cases
    case 1
    then show ?thesis by (simp add: encode_bytes_def)
  next
    case 2
    then have "2 \<le> r div 64" "r div 64 < 32" by auto
    with 2 show ?thesis by (simp add: encode_bytes_def cont_def)
  next
    case 3
    obtain a b c where r: "r = 4096 * a + 64 * b + c" "b < 64" "c < 64"
      and eqs: "r div 4096 = a" "r div 64 mod 64 = b" "r mod 64 = c" by (rule split3)
    from 3 r have a: "a < 16" by linarith
    from 3 r have b0: "a = 0 \<longrightarrow> 32 \<le> b" by linarith
    from 3 r assms have b1: "a = 13 \<longrightarrow> b < 32" unfolding scalar_def by linarith
    from b0 b1 r a have "second3 (0xE0 + a) (0x80 + b)" by (auto simp: second3_def cont_def)
    moreover have "encode_bytes r = [0xE0 + a, 0x80 + b, 0x80 + c]"
      using 3 assms by (simp add: encode_bytes_def eqs)
    ultimately show ?thesis using a r by (simp add: cont_def)
  next
    case 4
    obtain a b c d where r: "r = 262144 * a + 4096 * b + 64 * c + d" "b < 64" "c < 64" "d < 64"
      and eqs: "r div 262144 = a" "r div 4096 mod 64 = b" "r div 64 mod 64 = c" "r mod 64 = d"
      by (rule split4)
    from r assms have a: "a < 5" unfolding scalar_def by linarith
    from 4 r have b0: "a = 0 \<longrightarrow> 16 \<le> b" by linarith
    from 4 r assms have b1: "a = 4 \<longrightarrow> b < 16" unfolding scalar_def by linarith
    from b0 b1 r a have "second4 (0xF0 + a) (0x80 + b)" by (auto simp: second4_def cont_def)
    moreover have "encode_bytes r = [0xF0 + a, 0x80 + b, 0x80 + c, 0x80 + d]"
      using 4 assms by (simp add: encode_bytes_def eqs)
    ultimately show ?thesis using a r by (simp add: cont_def)
  qed
qed

lemma decode_encode:
  assumes "scalar r"
  shows "decode_rune (encode_rune r @ t) = (r, length (encode_rune r))"
proof -
  have "length (encode_rune r) = length (encode_bytes r)" by (simp add: encode_rune_def)
  then show ?thesis using decode_encode_bytes [OF assms, of "map byte t"]
    by (simp add: decode_rune_def map_byte_encode [OF assms])
qed

lemma encode_rune_neq_Nil [simp]: "encode_rune r \<noteq> []"
  by (simp add: encode_rune_def encode_bytes_def)

lemma chunks_encode:
  "scalar r \<Longrightarrow> chunks (encode_rune r @ t) = (r, encode_rune r) # chunks t"
  by (subst chunks.simps) (simp add: decode_encode)

lemma chunks_of_runes:
  "\<forall>r \<in> set rs. scalar r \<Longrightarrow> chunks (of_runes rs) = map (\<lambda>r. (r, encode_rune r)) rs"
  by (induction rs) (auto simp: of_runes_def chunks_encode)

lemma runes_of_runes [go_str]: "\<forall>r \<in> set rs. scalar r \<Longrightarrow> runes (of_runes rs) = rs"
  by (simp add: runes_def chunks_of_runes comp_def)

lemma of_runes_simps [simp]:
  "of_runes [] = []" "of_runes (r # rs) = encode_rune r @ of_runes rs"
  "of_runes (rs @ ss) = of_runes rs @ of_runes ss"
  by (auto simp: of_runes_def)

subsection \<open>Decoding then encoding\<close>

lemma digits3:
  assumes "b < 64" "c < (64::nat)"
  shows "(4096 * a + 64 * b + c) div 4096 = a" "(4096 * a + 64 * b + c) div 64 mod 64 = b"
    "(4096 * a + 64 * b + c) mod 64 = c"
proof -
  have q: "(4096 * a + 64 * b + c) div 64 = 64 * a + b" using assms by simp
  have "(4096 * a + 64 * b + c) div 4096 = (4096 * a + 64 * b + c) div 64 div 64"
    by (simp flip: div_mult2_eq)
  with q assms show "(4096 * a + 64 * b + c) div 4096 = a" by simp
  from q assms show "(4096 * a + 64 * b + c) div 64 mod 64 = b" by simp
  from assms show "(4096 * a + 64 * b + c) mod 64 = c" by (simp add: mod_add_eq [symmetric] mod_mult_eq [symmetric])
qed

lemma digits4:
  assumes "b < 64" "c < 64" "d < (64::nat)"
  shows "(262144 * a + 4096 * b + 64 * c + d) div 262144 = a"
    "(262144 * a + 4096 * b + 64 * c + d) div 4096 mod 64 = b"
    "(262144 * a + 4096 * b + 64 * c + d) div 64 mod 64 = c"
    "(262144 * a + 4096 * b + 64 * c + d) mod 64 = d"
proof -
  have e: "262144 * a + 4096 * b + 64 * c + d = 4096 * (64 * a + b) + 64 * c + d" by simp
  have "(262144 * a + 4096 * b + 64 * c + d) div 262144
      = (262144 * a + 4096 * b + 64 * c + d) div 4096 div 64"
    by (simp flip: div_mult2_eq)
  moreover have q: "(262144 * a + 4096 * b + 64 * c + d) div 4096 = 64 * a + b"
    unfolding e using assms by (rule_tac digits3)
  ultimately show "(262144 * a + 4096 * b + 64 * c + d) div 262144 = a"
    using assms by simp
  from q assms show "(262144 * a + 4096 * b + 64 * c + d) div 4096 mod 64 = b" by simp
qed (use assms digits3 [of c d "64 * a + b"] in \<open>simp_all add: algebra_simps\<close>)

lemma take3_Cons: "take 3 (a # b # c # u) = [a, b, c]"
  by (simp add: numeral_3_eq_3)

lemma take4_Cons: "take 4 (a # b # c # d # u) = [a, b, c, d]"
  by (simp add: eval_nat_numeral)

lemma encode_decode3:
  assumes "0xE0 \<le> b0" "b0 < 0xF0" "second3 b0 b1" "cont b2"
    and "r = (b0 - 0xE0) * 4096 + (b1 - 0x80) * 64 + (b2 - 0x80)"
  shows "scalar r \<and> encode_bytes r = [b0, b1, b2]"
proof -
  define a b c where "a = b0 - 0xE0" "b = b1 - 0x80" "c = b2 - 0x80"
  with assms have e: "b0 = 0xE0 + a" "b1 = 0x80 + b" "b2 = 0x80 + c" "b < 64" "c < 64" "a < 16"
    and lo: "a = 0 \<longrightarrow> 32 \<le> b" and hi: "a = 13 \<longrightarrow> b < 32"
    by (auto simp: second3_def cont_def)
  from assms(5) e have r: "r = 4096 * a + 64 * b + c" by simp
  have ge: "0x800 \<le> r" using r lo e by (cases "a = 0") linarith+
  have sc: "scalar r" "r < 0x10000"
    unfolding scalar_def using r hi e by (cases "a < 13"; cases "a = 13"; linarith)+
  with ge have "encode_bytes r = [0xE0 + r div 4096, 0x80 + r div 64 mod 64, 0x80 + r mod 64]"
    by (simp add: encode_bytes_def)
  with sc e show ?thesis by (simp add: r digits3)
qed

lemma encode_decode4:
  assumes "0xF0 \<le> b0" "b0 < 0xF5" "second4 b0 b1" "cont b2" "cont b3"
    and "r = (b0 - 0xF0) * 262144 + (b1 - 0x80) * 4096 + (b2 - 0x80) * 64 + (b3 - 0x80)"
  shows "scalar r \<and> encode_bytes r = [b0, b1, b2, b3]"
proof -
  define a b c d where "a = b0 - 0xF0" "b = b1 - 0x80" "c = b2 - 0x80" "d = b3 - 0x80"
  with assms have e: "b0 = 0xF0 + a" "b1 = 0x80 + b" "b2 = 0x80 + c" "b3 = 0x80 + d"
      "b < 64" "c < 64" "d < 64" "a < 5"
    and lo: "a = 0 \<longrightarrow> 16 \<le> b" and hi: "a = 4 \<longrightarrow> b < 16"
    by (auto simp: second4_def cont_def)
  from assms(6) e have r: "r = 262144 * a + 4096 * b + 64 * c + d" by simp
  have ge: "0x10000 \<le> r" using r lo e by (cases "a = 0") linarith+
  have sc: "scalar r" unfolding scalar_def using ge r hi e by (cases "a = 4"; linarith)
  with ge have "encode_bytes r = [0xF0 + r div 262144, 0x80 + r div 4096 mod 64,
      0x80 + r div 64 mod 64, 0x80 + r mod 64]"
    by (simp add: encode_bytes_def)
  with sc e show ?thesis by (simp add: r digits4)
qed

lemma encode_decode_bytes:
  assumes "decode_bytes bs = (r, w)" "bs \<noteq> []" "\<not> (r = RuneError \<and> w = 1)"
  shows "scalar r \<and> encode_bytes r = take w bs"
proof -
  from assms(2) obtain b0 t where bs: "bs = b0 # t" by (cases bs) auto
  consider "b0 < 0x80" | "0xC2 \<le> b0" "b0 < 0xE0" | "0xE0 \<le> b0" "b0 < 0xF0"
    | "0xF0 \<le> b0" "b0 < 0xF5" | "\<not> b0 < 0x80" "\<not> (0xC2 \<le> b0 \<and> b0 < 0xE0)"
      "\<not> (0xE0 \<le> b0 \<and> b0 < 0xF0)" "\<not> (0xF0 \<le> b0 \<and> b0 < 0xF5)"
    by blast
  then show ?thesis
  proof cases
    case 1
    with assms bs show ?thesis by (auto simp: encode_bytes_def scalar_def)
  next
    case 2
    with assms bs obtain b1 u where t: "t = b1 # u" "cont b1" "w = 2"
      and r: "r = (b0 - 0xC0) * 64 + (b1 - 0x80)"
      by (auto split: list.splits if_splits)
    define a b where "a = b0 - 0xC0" "b = b1 - 0x80"
    with 2 t r have e: "b0 = 0xC0 + a" "b1 = 0x80 + b" "b < 64" "2 \<le> a" "a < 32" "r = 64 * a + b"
      by (auto simp: cont_def)
    then have "0x80 \<le> r" "r < 0x800" by linarith+
    with e bs t show ?thesis by (simp add: encode_bytes_def scalar_def)
  next
    case 3
    with assms bs obtain b1 b2 u where t: "t = b1 # b2 # u" "second3 b0 b1" "cont b2" "w = 3"
      and "r = (b0 - 0xE0) * 4096 + (b1 - 0x80) * 64 + (b2 - 0x80)"
      by (auto split: list.splits if_splits)
    with 3 bs encode_decode3 show ?thesis by (metis take3_Cons)
  next
    case 4
    with assms bs obtain b1 b2 b3 u where t: "t = b1 # b2 # b3 # u" "second4 b0 b1" "cont b2" "cont b3" "w = 4"
      and "r = (b0 - 0xF0) * 262144 + (b1 - 0x80) * 4096 + (b2 - 0x80) * 64 + (b3 - 0x80)"
      by (auto split: list.splits if_splits)
    with 4 bs encode_decode4 show ?thesis by (metis take4_Cons)
  next
    case 5
    with bs have "decode_bytes bs = (RuneError, 1)" by (simp only: decode_bytes.simps if_False)
    with assms show ?thesis by simp
  qed
qed

subsection \<open>Chunks\<close>

lemma decode_rune_valid:
  assumes "s \<noteq> []" "valid_chunk (fst (decode_rune s), take (snd (decode_rune s)) s)"
  shows "scalar (fst (decode_rune s)) \<and> encode_rune (fst (decode_rune s)) = take (snd (decode_rune s)) s"
proof -
  obtain r w where d: "decode_rune s = (r, w)" by (cases "decode_rune s")
  with decode_rune_width [OF assms(1)] have w: "w \<le> length s" by simp
  have "scalar r \<and> encode_bytes r = take w (map byte s)"
    using assms d w by (intro encode_decode_bytes) (auto simp: decode_rune_def valid_chunk_def)
  then have "scalar r" "map byte (encode_rune r) = map byte (take w s)"
    by (auto simp: map_byte_encode take_map)
  then show ?thesis using d by (simp add: inj_map_eq_map [of byte] inj_def)
qed

lemma decode_bytes_invalid:
  "decode_bytes (b # t) = (r, w) \<Longrightarrow> b < 0x80 \<Longrightarrow> r = b \<and> w = 1"
  by simp

lemma chunks_cases:
  assumes "(r, b) \<in> set (chunks s)"
  shows "(valid_chunk (r, b) \<and> scalar r \<and> b = encode_rune r) \<or>
    (r = RuneError \<and> (\<exists>c. b = [c] \<and> 0x80 \<le> byte c))"
  using assms
proof (induction s rule: chunks.induct)
  case (1 s)
  then have ne: "s \<noteq> []" by auto
  let ?c = "(fst (decode_rune s), take (snd (decode_rune s)) s)"
  from "1.prems" ne have "(r, b) = ?c \<or> (r, b) \<in> set (chunks (drop (snd (decode_rune s)) s))"
    by (simp add: chunks_Cons)
  then show ?case
  proof
    assume eq: "(r, b) = ?c"
    show ?thesis
    proof (cases "valid_chunk ?c")
      case True
      with eq decode_rune_valid [OF ne True] show ?thesis by auto
    next
      case False
      with eq have "r = RuneError" "length b = 1" by (auto simp: valid_chunk_def)
      moreover from ne obtain c t where s: "s = c # t" by (cases s) auto
      moreover have "0x80 \<le> byte c"
      proof (rule ccontr)
        assume "\<not> 0x80 \<le> byte c"
        with s have "decode_rune s = (byte c, 1)" by (simp add: decode_rune_def)
        with eq \<open>r = RuneError\<close> byte_less [of c] show False by (simp add: RuneError_def)
      qed
      moreover have "hd b = hd s" using eq decode_rune_width [OF ne] by (simp add: hd_take)
      ultimately have "b = [c]" by (cases b) auto
      with \<open>r = RuneError\<close> \<open>0x80 \<le> byte c\<close> show ?thesis by auto
    qed
  qed (use "1.IH" ne in auto)
qed

lemma scalar_RuneError [simp]: "scalar RuneError"
  by (simp add: scalar_def RuneError_def)

lemma runes_scalar: "r \<in> set (runes s) \<Longrightarrow> scalar r"
  using chunks_cases by (fastforce simp: runes_def)

lemma chunks_valid_encode:
  "p \<in> set (chunks s) \<Longrightarrow> valid_chunk p \<Longrightarrow> scalar (fst p)"
  "p \<in> set (chunks s) \<Longrightarrow> valid_chunk p \<Longrightarrow> encode_rune (fst p) = snd p"
  using chunks_cases [of "fst p" "snd p" s] by (auto simp: valid_chunk_def)

lemma valid_chunk_encode [simp]: "scalar r \<Longrightarrow> valid_chunk (r, encode_rune r)"
  by (auto simp: valid_chunk_def RuneError_def encode_rune_def encode_bytes_def scalar_def)

lemma filter_valid_chunks:
  "filter valid_chunk (chunks s) = map (\<lambda>r. (r, encode_rune r)) (map fst (filter valid_chunk (chunks s)))"
proof -
  have "map (\<lambda>p. (fst p, encode_rune (fst p))) (filter valid_chunk (chunks s)) = filter valid_chunk (chunks s)"
    by (rule map_idI) (auto dest: chunks_valid_encode(2) simp: prod_eq_iff)
  then show ?thesis by (simp add: comp_def)
qed

lemma ToValidUTF8_of_runes: "ToValidUTF8 s = of_runes (map fst (filter valid_chunk (chunks s)))"
  unfolding ToValidUTF8_def of_runes_def
  by (subst filter_valid_chunks) (simp add: comp_def)

lemma chunks_ToValidUTF8: "chunks (ToValidUTF8 s) = filter valid_chunk (chunks s)"
proof -
  have "chunks (ToValidUTF8 s) = map (\<lambda>r. (r, encode_rune r)) (map fst (filter valid_chunk (chunks s)))"
    unfolding ToValidUTF8_of_runes by (rule chunks_of_runes) (auto dest: chunks_valid_encode(1))
  then show ?thesis by (simp only: filter_valid_chunks [symmetric])
qed

lemma ValidString_ToValidUTF8 [go_str, simp]: "ValidString (ToValidUTF8 s)"
  by (auto simp: ValidString_def chunks_ToValidUTF8 list_all_iff)

lemma ToValidUTF8_id: "ValidString s \<Longrightarrow> ToValidUTF8 s = s"
  by (simp add: ValidString_def ToValidUTF8_def list_all_iff filter_True)

lemma of_runes_runes: "ValidString s \<Longrightarrow> of_runes (runes s) = s"
  by (metis ToValidUTF8_id ToValidUTF8_of_runes ValidString_def filter_True list_all_iff runes_def)

lemma ValidString_of_runes: "\<forall>r \<in> set rs. scalar r \<Longrightarrow> ValidString (of_runes rs)"
  by (auto simp: ValidString_def chunks_of_runes list_all_iff)

lemma encode_rune_ascii: "byte c < 0x80 \<Longrightarrow> c \<in> set (encode_rune r) \<longleftrightarrow> r = byte c"
  by (auto simp: encode_rune_def encode_bytes_def scalar_def split: if_splits
      dest!: arg_cong [where f = byte])

lemma of_runes_ascii: "byte c < 0x80 \<Longrightarrow> c \<in> set (of_runes rs) \<longleftrightarrow> byte c \<in> set rs"
  by (induction rs) (auto simp: encode_rune_ascii)

lemma encode_rune_byte [simp]: "byte c < 0x80 \<Longrightarrow> encode_rune (byte c) = [c]"
  by (simp add: encode_rune_def encode_bytes_def)

lemma runes_ascii: "byte c < 0x80 \<Longrightarrow> c \<in> set s \<longleftrightarrow> byte c \<in> set (runes s)"
proof -
  assume a: "byte c < 0x80"
  have "c \<in> set s \<longleftrightarrow> (\<exists>(r, b) \<in> set (chunks s). c \<in> set b)"
    by (subst concat_chunks [of s, symmetric]) (force simp del: concat_chunks)
  also have "\<dots> \<longleftrightarrow> (\<exists>(r, b) \<in> set (chunks s). r = byte c)"
  proof (intro bex_cong refl, clarify)
    fix r b assume "(r, b) \<in> set (chunks s)"
    from chunks_cases [OF this] a show "c \<in> set b \<longleftrightarrow> r = byte c"
      by (auto simp: encode_rune_ascii RuneError_def)
  qed
  finally show ?thesis by (force simp: runes_def)
qed

definition ascii :: "string \<Rightarrow> bool" where
  "ascii s = list_all (\<lambda>c. byte c < 0x80) s"

lemma chunks_ascii_Cons: "byte c < 0x80 \<Longrightarrow> chunks (c # s) = (byte c, [c]) # chunks s"
  by (simp add: chunks_Cons decode_rune_def)

lemma chunks_ascii: "ascii s \<Longrightarrow> chunks s = map (\<lambda>c. (byte c, [c])) s"
  by (induction s) (auto simp: ascii_def chunks_ascii_Cons)

lemma runes_map_byte: "ascii s \<Longrightarrow> runes s = map byte s"
  by (simp add: runes_def chunks_ascii comp_def)

lemma of_runes_map_byte: "ascii s \<Longrightarrow> of_runes (map byte s) = s"
  by (induction s) (auto simp: ascii_def)

subsection \<open>Cutting a string at rune boundaries\<close>

lemma decode_bytes_prefix:
  assumes "snd (decode_bytes (a @ b)) \<le> length a" "a \<noteq> []"
  shows "decode_bytes a = decode_bytes (a @ b)"
  using assms
  by (cases a; cases "tl a"; cases "tl (tl a)"; cases "tl (tl (tl a))")
     (auto split: list.splits if_splits)

lemma chunks_prefix:
  "chunks (a @ b) = xs @ ys \<Longrightarrow> concat (map snd xs) = a \<Longrightarrow> chunks a = xs"
proof (induction xs arbitrary: a)
  case (Cons x xs)
  let ?d = "decode_rune (a @ b)"
  have ne: "a @ b \<noteq> []" using Cons.prems(1) by auto
  from Cons.prems(1) have x: "x = (fst ?d, take (snd ?d) (a @ b))"
    and rest: "chunks (drop (snd ?d) (a @ b)) = xs @ ys"
    by (simp_all add: chunks_Cons [OF ne])
  have w: "0 < snd ?d" "snd ?d \<le> length (a @ b)" using decode_rune_width [OF ne] by auto
  have lx: "length (snd x) = snd ?d" using x w by simp
  from Cons.prems(2) have a: "a = snd x @ concat (map snd xs)" by simp
  with lx w have le: "snd ?d \<le> length a" "a \<noteq> []" by (metis le_add1 length_append, auto)
  have da: "decode_rune a = ?d"
    using decode_bytes_prefix [of "map byte a" "map byte b"] le by (simp add: decode_rune_def)
  have drop: "drop (snd ?d) a = concat (map snd xs)" using a lx by simp
  have "drop (snd ?d) (a @ b) = drop (snd ?d) a @ b" using le by simp
  with rest have "chunks (drop (snd ?d) a @ b) = xs @ ys" by simp
  from Cons.IH [OF this] drop have "chunks (drop (snd ?d) a) = xs" by simp
  moreover have "take (snd ?d) a = snd x" using a lx by simp
  ultimately show ?case using x le by (simp add: chunks_Cons da)
qed simp

lemma chunks_suffix: "chunks s = xs @ ys \<Longrightarrow> chunks (concat (map snd ys)) = ys"
proof (induction xs arbitrary: s)
  case Nil
  then show ?case by (metis append_Nil concat_chunks)
next
  case (Cons x xs)
  then have "s \<noteq> []" by auto
  with Cons.prems have "chunks (drop (snd (decode_rune s)) s) = xs @ ys" by (simp add: chunks_Cons)
  then show ?case by (rule Cons.IH)
qed

lemma chunks_infix:
  assumes "chunks s = xs @ ys @ zs"
  shows "chunks (concat (map snd ys)) = ys"
proof -
  from assms have "chunks (concat (map snd (ys @ zs))) = ys @ zs" by (rule chunks_suffix)
  then have "chunks (concat (map snd ys) @ concat (map snd zs)) = ys @ zs" by simp
  then show ?thesis by (rule chunks_prefix) (rule refl)
qed

section \<open>Rune classes\<close>

definition IsSpace :: "rune \<Rightarrow> bool" where
  "IsSpace r = (r = 0x20 \<or> (9 \<le> r \<and> r \<le> 13) \<or> r = 0x85 \<or> r = 0xA0 \<or> r = 0x1680
     \<or> (0x2000 \<le> r \<and> r \<le> 0x200A) \<or> r = 0x2028 \<or> r = 0x2029 \<or> r = 0x202F \<or> r = 0x205F \<or> r = 0x3000)"

definition IsControl :: "rune \<Rightarrow> bool" where
  "IsControl r = (r < 0x20 \<or> (0x7F \<le> r \<and> r < 0xA0))"

definition IsPrint :: "(rune \<Rightarrow> bool) \<Rightarrow> rune \<Rightarrow> bool" where
  "IsPrint tbl r =
     (if r \<le> 0xFF then (0x20 \<le> r \<and> r < 0x7F) \<or> (0xA1 \<le> r \<and> r \<noteq> 0xAD) else tbl r)"

lemma IsPrint_not_control: "IsPrint tbl r \<Longrightarrow> \<not> IsControl r"
  by (auto simp: IsPrint_def IsControl_def split: if_splits)

lemma not_IsSpace_RuneError [simp]: "\<not> IsSpace RuneError"
  by (simp add: IsSpace_def RuneError_def)

section \<open>strings.TrimSpace\<close>

text \<open>
  Go trims whole runes from both ends. Reading runes backwards (DecodeLastRuneInString)
  meets the same chunks as reading forwards: every byte that is not a continuation byte
  starts a chunk, and a continuation byte outside a well-formed sequence is a chunk of its own.
\<close>

definition trim_both :: "('a \<Rightarrow> bool) \<Rightarrow> 'a list \<Rightarrow> 'a list" where
  "trim_both P xs = rev (dropWhile P (rev (dropWhile P xs)))"

definition TrimSpace :: "string \<Rightarrow> string" where
  "TrimSpace s = concat (map snd (trim_both (\<lambda>p. IsSpace (fst p)) (chunks s)))"

lemma trim_both_infix: "\<exists>as cs. xs = as @ trim_both P xs @ cs"
proof -
  let ?d = "dropWhile P xs"
  have "xs = takeWhile P xs @ ?d" by simp
  moreover have "rev ?d = takeWhile P (rev ?d) @ dropWhile P (rev ?d)" by simp
  then have "?d = trim_both P xs @ rev (takeWhile P (rev ?d))"
    unfolding trim_both_def by (metis rev_append rev_rev_ident)
  ultimately show ?thesis by metis
qed

lemma trim_both_ends:
  "trim_both P xs \<noteq> [] \<Longrightarrow> \<not> P (hd (trim_both P xs)) \<and> \<not> P (last (trim_both P xs))"
proof
  assume ne: "trim_both P xs \<noteq> []"
  let ?d = "dropWhile P xs"
  from ne have "dropWhile P (rev ?d) \<noteq> []" by (simp add: trim_both_def)
  then have "\<not> P (hd (dropWhile P (rev ?d)))" by (rule hd_dropWhile)
  then show "\<not> P (last (trim_both P xs))" by (simp add: trim_both_def last_rev)
  from ne have "?d \<noteq> []" unfolding trim_both_def by fastforce
  then have "\<not> P (hd ?d)" by (rule hd_dropWhile)
  moreover have "?d = trim_both P xs @ rev (takeWhile P (rev ?d))"
    unfolding trim_both_def by (metis rev_append rev_rev_ident takeWhile_dropWhile_id)
  ultimately show "\<not> P (hd (trim_both P xs))" using ne by (metis hd_append2)
qed

lemma trim_both_id:
  "xs = [] \<or> (\<not> P (hd xs) \<and> \<not> P (last xs)) \<Longrightarrow> trim_both P xs = xs"
proof (cases xs rule: rev_cases)
  case (snoc ys y)
  assume "xs = [] \<or> (\<not> P (hd xs) \<and> \<not> P (last xs))"
  with snoc have "\<not> P (hd xs)" "\<not> P y" "xs \<noteq> []" by auto
  then have "dropWhile P xs = xs" by (cases xs) auto
  with snoc \<open>\<not> P y\<close> show ?thesis by (simp add: trim_both_def)
qed (simp add: trim_both_def)

lemma trim_both_eq_Nil: "trim_both P xs = [] \<longleftrightarrow> (\<forall>x \<in> set xs. P x)"
  by (auto simp: trim_both_def dropWhile_eq_Nil_conv dest: set_dropWhileD)
    (metis dropWhile_eq_Nil_conv hd_dropWhile list.set_sel(1))

lemma chunks_TrimSpace: "chunks (TrimSpace s) = trim_both (\<lambda>p. IsSpace (fst p)) (chunks s)"
proof -
  obtain as cs where "chunks s = as @ trim_both (\<lambda>p. IsSpace (fst p)) (chunks s) @ cs"
    using trim_both_infix by metis
  then show ?thesis unfolding TrimSpace_def by (rule chunks_infix)
qed

lemma TrimSpace_idem [go_str, simp]: "TrimSpace (TrimSpace s) = TrimSpace s"
proof -
  have "trim_both P (trim_both P xs) = trim_both P xs" for P and xs :: "(rune \<times> string) list"
    by (rule trim_both_id) (metis trim_both_ends)
  then show ?thesis by (simp add: TrimSpace_def [of "TrimSpace s"] chunks_TrimSpace) (simp add: TrimSpace_def)
qed

lemma TrimSpace_eq_Nil: "TrimSpace s = [] \<longleftrightarrow> (\<forall>r \<in> set (runes s). IsSpace r)"
proof -
  have "TrimSpace s = [] \<longleftrightarrow> chunks (TrimSpace s) = []"
    by (metis chunks_Nil concat_chunks concat.simps(1) list.map(1))
  then show ?thesis by (simp add: chunks_TrimSpace trim_both_eq_Nil runes_def)
qed

lemma TrimSpace_Nil [simp]: "TrimSpace [] = []"
  by (simp add: TrimSpace_eq_Nil runes_def)

lemma TrimSpace_nonblank: "c \<in> set s \<Longrightarrow> byte c < 0x80 \<Longrightarrow> \<not> IsSpace (byte c) \<Longrightarrow> TrimSpace s \<noteq> []"
  using runes_ascii [of c s] by (auto simp: TrimSpace_eq_Nil)

lemma TrimSpace_plain:
  assumes "list_all (\<lambda>c. 32 < byte c \<and> byte c < 0x80) s"
  shows "TrimSpace s = s"
proof -
  have "\<not> IsSpace (byte c)" if "c \<in> set s" for c
    using assms that by (auto simp: list_all_iff IsSpace_def)
  moreover have "chunks s = map (\<lambda>c. (byte c, [c])) s"
    using assms by (intro chunks_ascii) (auto simp: ascii_def list_all_iff)
  ultimately show ?thesis
    by (cases "s = []")
      (auto simp: TrimSpace_def trim_both_id last_map hd_map comp_def)
qed

section \<open>Quoted strings\<close>

text \<open>
  Go's \<^verbatim>\<open>%q\<close> verb (strconv.Quote): printable runes stand for themselves, quotes and
  backslashes are escaped, and everything else becomes an escape sequence.
\<close>

definition hex_digit :: "nat \<Rightarrow> char" where
  "hex_digit n = (if n < 10 then char_of (48 + n) else char_of (87 + n))"

fun hex_of :: "nat \<Rightarrow> nat \<Rightarrow> string" where
  "hex_of 0 n = []"
| "hex_of (Suc k) n = hex_of k (n div 16) @ [hex_digit (n mod 16)]"

definition quote_rune :: "(rune \<Rightarrow> bool) \<Rightarrow> rune \<times> string \<Rightarrow> string" where
  "quote_rune tbl c =
     (let r = fst c in
      if \<not> valid_chunk c then [CHR 0x5C, CHR ''x''] @ hex_of 2 (byte (hd (snd c)))
      else if r = byte DQ \<or> r = 92 then [CHR 0x5C] @ encode_rune r
      else if IsPrint tbl r then encode_rune r
      else if r = 7 then [CHR 0x5C, CHR ''a''] else if r = 8 then [CHR 0x5C, CHR ''b''] else if r = 12 then [CHR 0x5C, CHR ''f'']
      else if r = 10 then [CHR 0x5C, CHR ''n''] else if r = 13 then [CHR 0x5C, CHR ''r''] else if r = 9 then [CHR 0x5C, CHR ''t'']
      else if r = 11 then [CHR 0x5C, CHR ''v'']
      else if r < 32 \<or> r = 127 then [CHR 0x5C, CHR ''x''] @ hex_of 2 r
      else if r < 65536 then [CHR 0x5C, CHR ''u''] @ hex_of 4 r
      else [CHR 0x5C, CHR ''U''] @ hex_of 8 r)"

definition Quote :: "(rune \<Rightarrow> bool) \<Rightarrow> string \<Rightarrow> string" where
  "Quote tbl s = [DQ] @ concat (map (quote_rune tbl) (chunks s)) @ [DQ]"

section \<open>Tables of the standard library\<close>

text \<open>
  What the development takes from the standard library without spelling it out: whether a rune
  above Latin-1 is printable, the lower-case form of a rune above ASCII, the value of a
  fraction in a duration, what time.Parse makes of a time that is not strict RFC 3339, what
  url.Parse makes of a host with an IP literal in brackets, and the media type that
  mime.ParseMediaType reads from a header.
\<close>

record golib =
  lib_print :: "rune \<Rightarrow> bool"
  lib_lower :: "rune \<Rightarrow> rune"
  lib_frac :: "string \<Rightarrow> nat \<Rightarrow> nat"
  lib_time :: "string \<Rightarrow> time option"
  lib_ip :: "string \<Rightarrow> string + string"
  lib_media :: "string \<Rightarrow> string option"

abbreviation quoted :: "golib \<Rightarrow> string \<Rightarrow> string" where
  "quoted L \<equiv> Quote (lib_print L)"

text \<open>A library for concrete runs.\<close>

definition plain_lib :: golib where
  "plain_lib = \<lparr>lib_print = (\<lambda>r. True), lib_lower = id, lib_frac = (\<lambda>s n. 0), lib_time = (\<lambda>s. None),
     lib_ip = Inr, lib_media = Some\<rparr>"

end
