(* ===== verification/Pamlog.thy ===== *)
theory Pamlog
  imports Utf8
begin

text \<open>
  Package pamlog (internal/pamlog/pamlog.go): the sanitisers and the audit line. The loop of
  \<open>Sanitize\<close> is modelled as written and proved equal to a reference that joins the clean
  words of the text with underscores; from that follow the guarantees the package documents:
  an audit line always splits into the same eight fields, values never carry white space or
  control characters, and their length is bounded.
\<close>

section \<open>Levels and results\<close>

definition MaxValueLen :: int where "MaxValueLen = 200"
definition MaxErrLen :: int where "MaxErrLen = 300"

definition ResultSuccess :: string where "ResultSuccess = ''success''"
definition ResultDenied :: string where "ResultDenied = ''denied''"
definition ResultIgnore :: string where "ResultIgnore = ''ignore''"
definition ResultError :: string where "ResultError = ''error''"

datatype Level = LevelDebug | LevelInfo | LevelNotice | LevelErr

fun Level_String :: "Level \<Rightarrow> string" where
  "Level_String LevelDebug = ''debug''"
| "Level_String LevelInfo = ''info''"
| "Level_String LevelNotice = ''notice''"
| "Level_String LevelErr = ''err''"

definition LevelFor :: "string \<Rightarrow> Level" where
  "LevelFor result =
     (if result = ResultSuccess then LevelInfo
      else if result = ResultDenied then LevelNotice
      else if result = ResultIgnore then LevelDebug
      else LevelErr)"

section \<open>Sanitize\<close>

definition sep_rune :: "rune \<Rightarrow> bool" where
  "sep_rune r = (IsSpace r \<or> IsControl r \<or> r = RuneError)"

text \<open>The loop of Sanitize: the builder, the pending separator, the runes still to read.\<close>

fun sanitize_loop :: "string \<Rightarrow> bool \<Rightarrow> rune list \<Rightarrow> string" where
  "sanitize_loop b pendingSep [] = b"
| "sanitize_loop b pendingSep (r # rs) =
     (if sep_rune r then sanitize_loop b (0 < length b) rs
      else if pendingSep then sanitize_loop (b @ ''_'' @ encode_rune r) False rs
      else sanitize_loop (b @ encode_rune r) False rs)"

definition Sanitize :: "string \<Rightarrow> int \<Rightarrow> string" where
  "Sanitize s limit =
     (let out = sanitize_loop [] False (runes (ToValidUTF8 s)) in
      if 0 < limit then
        (let rs = runes out in
         if limit < int (length rs) then of_runes (take (nat limit) rs) @ ''...'' else out)
      else out)"

text \<open>The reference: maximal runs of clean runes, joined by underscores.\<close>

function words_by :: "('a \<Rightarrow> bool) \<Rightarrow> 'a list \<Rightarrow> 'a list list" where
  "words_by P [] = []"
| "words_by P (x # xs) =
     (if P x then words_by P xs
      else (x # takeWhile (\<lambda>y. \<not> P y) xs) # words_by P (dropWhile (\<lambda>y. \<not> P y) xs))"
  by pat_completeness auto
termination
  by (relation "measure (\<lambda>(P, xs). length xs)") (auto simp: le_imp_less_Suc length_dropWhile_le)

definition clean_words :: "string \<Rightarrow> string" where
  "clean_words s = Join ''_'' (map of_runes (words_by sep_rune (runes (ToValidUTF8 s))))"

section \<open>Environment values and prompts\<close>

definition ValidEnvValue :: "string \<Rightarrow> bool" where
  "ValidEnvValue s = (ValidString s \<and> list_all (\<lambda>r. \<not> IsControl r) (runes s))"

definition SanitizePrompt :: "string \<Rightarrow> string" where
  "SanitizePrompt s =
     of_runes (filter (\<lambda>r. r = 10 \<or> r = 9 \<or> \<not> IsControl r) (runes (ToValidUTF8 s)))"

section \<open>The audit line\<close>

record Attempt =
  at_User :: string
  at_Subject :: string
  at_LocalUser :: string
  at_RHost :: string
  at_Host :: string
  at_Result :: string
  at_Reason :: string
  at_Err :: "go_error option"

definition line_fields :: "Attempt \<Rightarrow> (string \<times> string) list" where
  "line_fields a =
     [(''user'', Sanitize (at_User a) MaxValueLen),
      (''sub'', Sanitize (at_Subject a) MaxValueLen),
      (''local_user'', Sanitize (at_LocalUser a) MaxValueLen),
      (''rhost'', Sanitize (at_RHost a) MaxValueLen),
      (''host'', Sanitize (at_Host a) MaxValueLen),
      (''result'', Sanitize (at_Result a) MaxValueLen),
      (''reason'', Sanitize (at_Reason a) MaxValueLen),
      (''err'', Sanitize (case at_Err a of None \<Rightarrow> [] | Some e \<Rightarrow> err_msg e) MaxErrLen)]"

fun write_fields :: "nat \<Rightarrow> (string \<times> string) list \<Rightarrow> string \<Rightarrow> string" where
  "write_fields i [] b = b"
| "write_fields i ((k, v) # fs) b =
     write_fields (Suc i) fs
       ((if 0 < i then b @ '' '' else b) @ k @ ''='' @ (if v = [] then ''-'' else v))"

definition Line :: "Attempt \<Rightarrow> string" where
  "Line a = write_fields 0 (line_fields a) []"

section \<open>Lemmas\<close>

lemma sanitize_loop_run:
  assumes "b \<noteq> []"
  shows "sanitize_loop b True rs = b @ concat (map (\<lambda>w. ''_'' @ of_runes w) (words_by sep_rune rs))"
    and "sanitize_loop b False rs = b @ of_runes (takeWhile (\<lambda>r. \<not> sep_rune r) rs) @
      concat (map (\<lambda>w. ''_'' @ of_runes w) (words_by sep_rune (dropWhile (\<lambda>r. \<not> sep_rune r) rs)))"
  using assms by (induction rs arbitrary: b) auto

lemma Join_sep_concat: "Join sep (x # xs) = x @ concat (map (\<lambda>y. sep @ y) xs)"
  by (induction xs arbitrary: x) auto

lemma sanitize_loop_words:
  "sanitize_loop [] False rs = Join ''_'' (map of_runes (words_by sep_rune rs))"
  by (induction rs) (auto simp: sanitize_loop_run Join_sep_concat comp_def)

lemma Sanitize_no_limit: "limit \<le> 0 \<Longrightarrow> Sanitize s limit = clean_words s"
  by (simp add: Sanitize_def clean_words_def sanitize_loop_words)

lemma words_by_clean: "w \<in> set (words_by P xs) \<Longrightarrow> x \<in> set w \<Longrightarrow> \<not> P x \<and> x \<in> set xs"
proof (induction P xs rule: words_by.induct)
  case (2 P y ys)
  then show ?case by (auto split: if_splits dest: set_takeWhileD set_dropWhileD)
qed simp

lemma words_by_neq_Nil: "w \<in> set (words_by P xs) \<Longrightarrow> w \<noteq> []"
  by (induction P xs rule: words_by.induct) (auto split: if_splits)

lemma Join_of_runes:
  "Join ''_'' (map of_runes ws) = of_runes (case ws of [] \<Rightarrow> [] | w # us \<Rightarrow> w @ concat (map (\<lambda>u. 0x5F # u) us))"
proof -
  have us: "encode_rune 0x5F = ''_''" using encode_rune_byte [of "CHR ''_''"] by (simp add: byte_def)
  have "concat (map (\<lambda>y. ''_'' @ y) (map of_runes us)) = of_runes (concat (map (\<lambda>u. 0x5F # u) us))" for us
    by (induction us) (auto simp: us)
  then show ?thesis by (cases ws) (auto simp: Join_sep_concat)
qed

text \<open>Every sanitised text is the encoding of clean scalar runes.\<close>

lemma clean_words_runes:
  obtains rs where "clean_words s = of_runes rs" "\<forall>r \<in> set rs. scalar r \<and> \<not> sep_rune r"
proof -
  let ?ws = "words_by sep_rune (runes (ToValidUTF8 s))"
  let ?rs = "case ?ws of [] \<Rightarrow> [] | w # us \<Rightarrow> w @ concat (map (\<lambda>u. 0x5F # u) us)"
  have "\<forall>w \<in> set ?ws. \<forall>r \<in> set w. scalar r \<and> \<not> sep_rune r"
  proof (intro ballI)
    fix w r assume "w \<in> set ?ws" "r \<in> set w"
    from words_by_clean [OF this] show "scalar r \<and> \<not> sep_rune r" using runes_scalar by blast
  qed
  moreover have "scalar 0x5F \<and> \<not> sep_rune 0x5F"
    by (simp add: scalar_def sep_rune_def IsSpace_def IsControl_def RuneError_def)
  ultimately have "\<forall>r \<in> set ?rs. scalar r \<and> \<not> sep_rune r"
    by (cases ?ws) auto
  with that show ?thesis by (simp add: clean_words_def Join_of_runes)
qed

lemma dots_runes: "''...'' = of_runes (replicate 3 0x2E)"
proof -
  have "encode_rune 0x2E = ''.''" using encode_rune_byte [of "CHR ''.''"] by (simp add: byte_def)
  then show ?thesis by (simp add: numeral_3_eq_3)
qed

lemma Sanitize_runes:
  obtains rs where "Sanitize s limit = of_runes rs" "\<forall>r \<in> set rs. scalar r \<and> \<not> sep_rune r"
    "0 < limit \<longrightarrow> int (length rs) \<le> limit + 3"
proof -
  obtain rs where rs: "clean_words s = of_runes rs" "\<forall>r \<in> set rs. scalar r \<and> \<not> sep_rune r"
    by (rule clean_words_runes)
  then have out: "sanitize_loop [] False (runes (ToValidUTF8 s)) = of_runes rs"
    by (simp add: clean_words_def sanitize_loop_words)
  have run: "runes (of_runes rs) = rs" using rs by (simp add: runes_of_runes)
  have dot: "scalar 0x2E \<and> \<not> sep_rune 0x2E"
    by (simp add: scalar_def sep_rune_def IsSpace_def IsControl_def RuneError_def)
  show ?thesis
  proof (cases "0 < limit \<and> limit < int (length rs)")
    case True
    then have "Sanitize s limit = of_runes (take (nat limit) rs @ replicate 3 0x2E)"
      by (simp add: Sanitize_def out run dots_runes)
    moreover have "\<forall>r \<in> set (take (nat limit) rs @ replicate 3 0x2E). scalar r \<and> \<not> sep_rune r"
      using rs dot by (auto dest: in_set_takeD)
    ultimately show ?thesis using True by (intro that [of "take (nat limit) rs @ replicate 3 0x2E"]) auto
  next
    case False
    then have "Sanitize s limit = of_runes rs" by (auto simp: Sanitize_def out run Let_def)
    with rs False show ?thesis by (intro that) auto
  qed
qed

lemma sep_rune_SP: "sep_rune (byte SP)"
  by (simp add: sep_rune_def IsSpace_def byte_def)

lemma Sanitize_no_space: "SP \<notin> set (Sanitize s limit)"
proof -
  obtain rs where "Sanitize s limit = of_runes rs" "\<forall>r \<in> set rs. scalar r \<and> \<not> sep_rune r"
    by (rule Sanitize_runes)
  then show ?thesis using sep_rune_SP by (auto simp: of_runes_ascii byte_def)
qed

lemma write_fields_Suc:
  "write_fields (Suc i) fs b = b @ concat (map (\<lambda>(k, v). '' '' @ k @ ''='' @ (if v = [] then ''-'' else v)) fs)"
  by (induction fs arbitrary: i b) auto

lemma write_fields_Join:
  "write_fields 0 fs [] = Join '' '' (map (\<lambda>(k, v). k @ ''='' @ (if v = [] then ''-'' else v)) fs)"
  by (cases fs) (auto simp: write_fields_Suc Join_sep_concat comp_def case_prod_unfold)

definition shown :: "string \<times> string \<Rightarrow> string" where
  "shown f = fst f @ ''='' @ (if snd f = [] then ''-'' else snd f)"

lemma Line_Join: "Line a = Join '' '' (map shown (line_fields a))"
  by (simp add: Line_def write_fields_Join shown_def [abs_def] case_prod_unfold)

lemma shown_no_space: "f \<in> set (line_fields a) \<Longrightarrow> SP \<notin> set (shown f)"
  by (auto simp: line_fields_def shown_def Sanitize_no_space)

lemma runes_of_runes_list: "list_all scalar rs \<Longrightarrow> runes (of_runes rs) = rs"
  by (simp add: runes_of_runes list_all_iff)

text \<open>A byte string is printable text when it is the encoding of runes none of which is a control.\<close>

definition control_free :: "string \<Rightarrow> bool" where
  "control_free s = (ValidString s \<and> list_all (\<lambda>r. \<not> IsControl r) (runes s))"

lemma control_freeI:
  "\<forall>r \<in> set rs. scalar r \<and> \<not> IsControl r \<Longrightarrow> control_free (of_runes rs)"
  by (auto simp: control_free_def runes_of_runes ValidString_of_runes list_all_iff)

lemma control_freeE:
  assumes "control_free s"
  obtains rs where "s = of_runes rs" "\<forall>r \<in> set rs. scalar r \<and> \<not> IsControl r"
  using assms that [of "runes s"] runes_scalar
  by (fastforce simp: control_free_def of_runes_runes list_all_iff)

lemma control_free_append:
  assumes "control_free s" "control_free t"
  shows "control_free (s @ t)"
proof -
  obtain rs us where "s = of_runes rs" "t = of_runes us"
    "\<forall>r \<in> set (rs @ us). scalar r \<and> \<not> IsControl r"
    by (rule control_freeE [OF assms(1)], rule control_freeE [OF assms(2)]) auto
  then show ?thesis using control_freeI [of "rs @ us"] by simp
qed

lemma control_free_ascii:
  "list_all (\<lambda>c. 0x20 \<le> byte c \<and> byte c < 0x7F) s \<Longrightarrow> control_free s"
proof -
  assume a: "list_all (\<lambda>c. 0x20 \<le> byte c \<and> byte c < 0x7F) s"
  then have "ascii s" by (auto simp: ascii_def list_all_iff)
  moreover have "\<forall>r \<in> set (map byte s). scalar r \<and> \<not> IsControl r"
    using a by (fastforce simp: list_all_iff scalar_def IsControl_def)
  ultimately show ?thesis using control_freeI [of "map byte s"] by (simp add: of_runes_map_byte)
qed

lemma control_free_Sanitize: "control_free (Sanitize s limit)"
proof -
  obtain rs where "Sanitize s limit = of_runes rs" "\<forall>r \<in> set rs. scalar r \<and> \<not> sep_rune r"
    by (rule Sanitize_runes)
  then show ?thesis using control_freeI [of rs] by (auto simp: sep_rune_def)
qed

lemma control_free_shown: "f \<in> set (line_fields a) \<Longrightarrow> control_free (shown f)"
proof -
  assume "f \<in> set (line_fields a)"
  then have "control_free (fst f)" "control_free (snd f)"
    by (auto simp: line_fields_def control_free_Sanitize byte_def intro: control_free_ascii)
  moreover have "control_free ''=''" "control_free ''-''"
    by (auto intro!: control_free_ascii simp: byte_def)
  ultimately show ?thesis unfolding shown_def
    by (intro control_free_append) (simp_all split: if_split)
qed

lemma control_free_Nil [simp]: "control_free []"
  using control_freeI [of "[]"] by simp

lemma control_free_Join:
  "control_free sep \<Longrightarrow> \<forall>x \<in> set xs. control_free x \<Longrightarrow> control_free (Join sep xs)"
  by (induction sep xs rule: Join.induct) (auto intro!: control_free_append)

section \<open>Properties\<close>

text \<open>C25: no value can forge a field of the audit line: split at blanks, the line is always the
  eight fields user, sub, local_user, rhost, host, result, reason, err in that order, each
  key=value with an empty value shown as a dash, and the whole line is valid UTF-8 without any
  control character, newlines included.\<close>

theorem Line_unforgeable:
  "split_on SP (Line a) = map shown (line_fields a) \<and>
   map fst (line_fields a) =
     [''user'', ''sub'', ''local_user'', ''rhost'', ''host'', ''result'', ''reason'', ''err''] \<and>
   control_free (Line a)"
proof (intro conjI)
  have "line_fields a \<noteq> []" by (simp add: line_fields_def)
  then show "split_on SP (Line a) = map shown (line_fields a)"
    by (auto simp: Line_Join shown_no_space intro!: split_on_Join)
  show "map fst (line_fields a) =
     [''user'', ''sub'', ''local_user'', ''rhost'', ''host'', ''result'', ''reason'', ''err'']"
    by (simp add: line_fields_def)
  show "control_free (Line a)"
    unfolding Line_Join
    by (rule control_free_Join) (auto simp: control_free_shown byte_def intro!: control_free_ascii)
qed

text \<open>C26: the loop of Sanitize computes the reference: the maximal runs of runes that are neither
  white space, control nor U+FFFD, joined by single underscores (so none leads, trails or is
  doubled by white space), cut to the limit with a marker when a positive limit is exceeded.\<close>

theorem Sanitize_refines_words:
  "Sanitize s limit =
     (if 0 < limit \<and> limit < int (length (runes (clean_words s)))
      then of_runes (take (nat limit) (runes (clean_words s))) @ ''...'' else clean_words s)"
  by (simp add: Sanitize_def clean_words_def sanitize_loop_words Let_def)

text \<open>C27: a sanitised value is valid UTF-8 with no white space, control or replacement rune, and a
  positive limit bounds it to limit runes plus the three of the truncation marker.\<close>

theorem Sanitize_bounds:
  assumes "0 < limit"
  shows "ValidString (Sanitize s limit) \<and> list_all (\<lambda>r. \<not> sep_rune r) (runes (Sanitize s limit)) \<and>
    int (length (runes (Sanitize s limit))) \<le> limit + 3"
proof -
  obtain rs where "Sanitize s limit = of_runes rs" "\<forall>r \<in> set rs. scalar r \<and> \<not> sep_rune r"
    "0 < limit \<longrightarrow> int (length rs) \<le> limit + 3"
    by (rule Sanitize_runes)
  with assms show ?thesis
    by (auto simp: runes_of_runes ValidString_of_runes list_all_iff)
qed

theorem Sanitize_bounds_witness:
  "ValidString (Sanitize ''a b'' 200) \<and> int (length (runes (Sanitize ''a b'' 200))) \<le> 203"
  using Sanitize_bounds [of 200 "''a b''"] by simp

text \<open>C28: what reaches the PAM conversation is valid UTF-8 whose only control characters are
  newline and tab, and a text that is already printable is shown unchanged.\<close>

theorem SanitizePrompt_safe:
  "ValidString (SanitizePrompt s) \<and>
   list_all (\<lambda>r. IsControl r \<longrightarrow> r = 10 \<or> r = 9) (runes (SanitizePrompt s)) \<and>
   (ValidEnvValue s \<longrightarrow> SanitizePrompt s = s)"
proof (intro conjI impI)
  let ?rs = "filter (\<lambda>r. r = 10 \<or> r = 9 \<or> \<not> IsControl r) (runes (ToValidUTF8 s))"
  have sc: "\<forall>r \<in> set ?rs. scalar r" by (auto dest: runes_scalar)
  then show "ValidString (SanitizePrompt s)"
    unfolding SanitizePrompt_def by (rule ValidString_of_runes)
  from sc show "list_all (\<lambda>r. IsControl r \<longrightarrow> r = 10 \<or> r = 9) (runes (SanitizePrompt s))"
    unfolding SanitizePrompt_def by (auto simp: runes_of_runes list_all_iff)
  assume "ValidEnvValue s"
  then show "SanitizePrompt s = s"
    by (auto simp: SanitizePrompt_def ValidEnvValue_def ToValidUTF8_id list_all_iff filter_True of_runes_runes)
qed

theorem SanitizePrompt_safe_witness:
  "ValidEnvValue ''Code: AB'' \<and> SanitizePrompt ''Code: AB'' = ''Code: AB''"
proof -
  have a: "ascii ''Code: AB''" by (simp add: ascii_def byte_def)
  then have "ValidEnvValue ''Code: AB''"
    by (simp add: ValidEnvValue_def ValidString_def runes_map_byte chunks_ascii valid_chunk_def
        RuneError_def IsControl_def byte_def)
  with SanitizePrompt_safe [of "''Code: AB''"] show ?thesis by blast
qed

end
