(* ===== verification/GoTime.thy ===== *)
theory GoTime
  imports Prelude
begin

text \<open>
  The parts of Go's \<^verbatim>\<open>time\<close> package the program uses: instants as nanoseconds since the Unix
  epoch, durations as nanoseconds, the RFC 3339 rendering of a UTC instant and its parser
  (the strict reader of the standard library; what the lenient fallback of \<^verbatim>\<open>time.Parse\<close>
  makes of other texts is the argument \<open>lenient\<close>), and the printed form of a duration. The
  calendar splits days into 400-, 100-, 4- and 1-year periods the way the library does, and
  formatting followed by parsing is proved to cut an instant to whole seconds.
\<close>

section \<open>Units\<close>

abbreviation Nanosecond :: duration where "Nanosecond \<equiv> 1"
abbreviation Second :: duration where "Second \<equiv> 1000000000"
abbreviation Minute :: duration where "Minute \<equiv> 60000000000"
abbreviation Hour :: duration where "Hour \<equiv> 3600000000000"

definition truncate_second :: "time \<Rightarrow> time" where
  "truncate_second t = t div Second * Second"

text \<open>Duration.Round to the second: half a second and more rounds away from zero.\<close>

definition round_second :: "duration \<Rightarrow> duration" where
  "round_second d = (if d < 0 then - ((- d + 500000000) div Second * Second)
     else (d + 500000000) div Second * Second)"

text \<open>Time.Sub saturates.\<close>

definition time_Sub :: "time \<Rightarrow> time \<Rightarrow> duration" where
  "time_Sub t u = max (- (2 ^ 63)) (min (2 ^ 63 - 1) (t - u))"

section \<open>The calendar\<close>

definition is_leap :: "int \<Rightarrow> bool" where
  "is_leap y = (y mod 4 = 0 \<and> (y mod 100 \<noteq> 0 \<or> y mod 400 = 0))"

definition month_lengths :: "int \<Rightarrow> int list" where
  "month_lengths y = [31, if is_leap y then 29 else 28, 31, 30, 31, 30, 31, 31, 30, 31, 30, 31]"

text \<open>Days from 0001-01-01 to 1970-01-01.\<close>

definition epoch_days :: int where
  "epoch_days = 719162"

definition year_yday :: "int \<Rightarrow> int \<times> int" where
  "year_yday d =
     (let n = d + epoch_days; a = n div 146097; r = n mod 146097;
          b = min 3 (r div 36524); r = r - 36524 * b;
          c = r div 1461; r = r - 1461 * c;
          e = min 3 (r div 365); r = r - 365 * e
      in (1 + 400 * a + 100 * b + 4 * c + e, r))"

definition days_of_year :: "int \<Rightarrow> int" where
  "days_of_year year =
     (let y = year - 1; a = y div 400; y = y mod 400; b = y div 100; y = y mod 100;
          c = y div 4; e = y mod 4
      in 146097 * a + 36524 * b + 1461 * c + 365 * e - epoch_days)"

fun month_of :: "int list \<Rightarrow> int \<Rightarrow> int \<times> int" where
  "month_of [] d = (0, d)"
| "month_of (l # ls) d = (if d < l then (0, d) else (let (m, x) = month_of ls (d - l) in (m + 1, x)))"

lemma div_mod_block: "0 \<le> x \<Longrightarrow> x < k \<Longrightarrow> (k * q + x) div k = q \<and> (k * q + x) mod k = (x::int)"
  by simp

lemma year_yday_parts:
  assumes "year_yday d = (y, r)"
  obtains a b c e where "y = 1 + 400 * a + 100 * b + 4 * c + e"
    "d + epoch_days = 146097 * a + 36524 * b + 1461 * c + 365 * e + r"
    "0 \<le> b" "b \<le> 3" "0 \<le> c" "c \<le> 24" "0 \<le> e" "e \<le> 3" "0 \<le> r"
    "r < 365 \<or> (r = 365 \<and> e = 3 \<and> (c < 24 \<or> b = 3))"
proof -
  define n where "n = d + epoch_days"
  define a where "a = n div 146097"
  define r1 where "r1 = n mod 146097"
  define b where "b = min 3 (r1 div 36524)"
  define r2 where "r2 = r1 - 36524 * b"
  define c where "c = r2 div 1461"
  define r3 where "r3 = r2 - 1461 * c"
  define e where "e = min 3 (r3 div 365)"
  have "year_yday d = (1 + 400 * a + 100 * b + 4 * c + e, r3 - 365 * e)"
    by (simp only: year_yday_def Let_def n_def a_def r1_def b_def r2_def c_def r3_def e_def)
  with assms have y: "y = 1 + 400 * a + 100 * b + 4 * c + e" and r: "r = r3 - 365 * e" by simp_all
  have n: "n = 146097 * a + r1" by (simp add: a_def r1_def)
  have r1: "0 \<le> r1" "r1 < 146097" by (simp_all add: r1_def)
  have b: "0 \<le> b" "b \<le> 3" using r1 by (auto simp: b_def)
  have r2: "0 \<le> r2" "r2 \<le> 36524" "b < 3 \<longrightarrow> r2 < 36524" using r1 by (auto simp: r2_def b_def min_def)
  have c: "0 \<le> c" "c \<le> 24" using r2 by (auto simp: c_def)
  have r3: "0 \<le> r3" "r3 < 1461" by (auto simp: r3_def c_def minus_mult_div_eq_mod)
  have e: "0 \<le> e" "e \<le> 3" using r3 by (auto simp: e_def)
  have r4: "0 \<le> r" "r \<le> 365" "e < 3 \<longrightarrow> r < 365" using r3 by (auto simp: r e_def min_def)
  have "r < 365 \<or> (r = 365 \<and> e = 3 \<and> (c < 24 \<or> b = 3))"
    using r4 e r2 c b r r3_def by linarith
  moreover have "d + epoch_days = 146097 * a + 36524 * b + 1461 * c + 365 * e + r"
    using n r by (simp add: n_def r2_def r3_def)
  ultimately show ?thesis using that y b c e r4 by blast
qed

lemma year_yday_back:
  assumes "year_yday d = (y, r)"
  shows "days_of_year y + r = d"
proof -
  obtain a b c e where p: "y = 1 + 400 * a + 100 * b + 4 * c + e"
    "d + epoch_days = 146097 * a + 36524 * b + 1461 * c + 365 * e + r"
    "0 \<le> b" "b \<le> 3" "0 \<le> c" "c \<le> 24" "0 \<le> e" "e \<le> 3"
    by (rule year_yday_parts [OF assms])
  have "(y - 1) div 400 = a \<and> (y - 1) mod 400 = 100 * b + (4 * c + e)"
    using div_mod_block [of "100 * b + (4 * c + e)" 400 a] p by simp
  moreover have "(100 * b + (4 * c + e)) div 100 = b \<and> (100 * b + (4 * c + e)) mod 100 = 4 * c + e"
    using p by (intro div_mod_block) auto
  moreover have "(4 * c + e) div 4 = c \<and> (4 * c + e) mod 4 = e"
    using p by (intro div_mod_block) auto
  ultimately have "days_of_year y = 146097 * a + 36524 * b + 1461 * c + 365 * e - epoch_days"
    unfolding days_of_year_def Let_def by simp
  then show ?thesis using p by simp
qed

lemma year_yday_range:
  assumes "year_yday d = (y, r)"
  shows "0 \<le> r \<and> r < sum_list (month_lengths y)"
proof -
  obtain a b c e where p: "y = 1 + 400 * a + 100 * b + 4 * c + e" "0 \<le> r"
    "0 \<le> b" "b \<le> 3" "0 \<le> c" "c \<le> 24" "0 \<le> e" "e \<le> 3"
    and r: "r < 365 \<or> (r = 365 \<and> e = 3 \<and> (c < 24 \<or> b = 3))"
    by (rule year_yday_parts [OF assms])
  show ?thesis
  proof (cases "r < 365")
    case True
    with p show ?thesis by (simp add: month_lengths_def)
  next
    case False
    with r p have r: "r = 365" "e = 3" "c < 24 \<or> b = 3" by auto
    have "y mod 4 = 0" using p r by presburger
    moreover have "y mod 100 \<noteq> 0 \<or> y mod 400 = 0"
    proof (cases "c < 24")
      case True
      have "y = 100 * (4 * a + b) + (4 * c + 4)" using p r by simp
      with div_mod_block [of "4 * c + 4" 100 "4 * a + b"] True p have "y mod 100 = 4 * c + 4" by simp
      with p show ?thesis by simp
    next
      case False
      with r p have "y = 400 * (a + 1)" by simp
      then show ?thesis by simp
    qed
    ultimately have "is_leap y" by (simp add: is_leap_def)
    with r p show ?thesis by (simp add: month_lengths_def)
  qed
qed

lemma month_of_spec:
  "month_of ls d = (m, x) \<Longrightarrow> 0 \<le> d \<Longrightarrow> d < sum_list ls \<Longrightarrow>
   0 \<le> m \<and> m < int (length ls) \<and> 0 \<le> x \<and> x < ls ! nat m \<and> sum_list (take (nat m) ls) + x = d"
proof (induction ls arbitrary: d m)
  case (Cons l ls)
  show ?case
  proof (cases "d < l")
    case True
    with Cons.prems show ?thesis by auto
  next
    case False
    with Cons.prems obtain m' where m: "month_of ls (d - l) = (m', x)" "m = m' + 1"
      by (auto split: prod.splits)
    from Cons.IH [OF m(1)] False Cons.prems have
      "0 \<le> m' \<and> m' < int (length ls) \<and> 0 \<le> x \<and> x < ls ! nat m' \<and> sum_list (take (nat m') ls) + x = d - l"
      by auto
    with m show ?thesis by (simp add: nat_add_distrib)
  qed
qed simp

section \<open>RFC 3339\<close>

text \<open>Fields are padded with zeros; a wider or negative number keeps all its digits.\<close>

definition pad :: "nat \<Rightarrow> int \<Rightarrow> string" where
  "pad k n = (let d = dec (nat \<bar>n\<bar>) in (if n < 0 then ''-'' else []) @ replicate (k - length d) (CHR ''0'') @ d)"

definition Format_RFC3339 :: "time \<Rightarrow> string" where
  "Format_RFC3339 t =
     (let u = t div Second; s = u mod 86400; (y, yd) = year_yday (u div 86400);
          (m, x) = month_of (month_lengths y) yd
      in pad 4 y @ ''-'' @ pad 2 (m + 1) @ ''-'' @ pad 2 (x + 1) @ ''T'' @ pad 2 (s div 3600) @ '':''
         @ pad 2 (s mod 3600 div 60) @ '':'' @ pad 2 (s mod 60) @ ''Z'')"

definition parseUint :: "string \<Rightarrow> int \<Rightarrow> int \<Rightarrow> int option" where
  "parseUint s lo hi =
     (if list_all is_digit s then
        (let x = int (undec s) in if x < lo \<or> hi < x then None else Some x)
      else None)"

text \<open>A fraction of a second: at most nine digits count.\<close>

definition parse_fraction :: "string \<Rightarrow> duration \<times> string" where
  "parse_fraction s =
     (case s of c0 # c1 # t \<Rightarrow>
        if c0 = CHR ''.'' \<and> is_digit c1 then
          (let ds = takeWhile is_digit (c1 # t); k = take 9 ds
           in (int (undec k) * 10 ^ (9 - length k), dropWhile is_digit (c1 # t)))
        else (0, s)
      | _ \<Rightarrow> (0, s))"

definition parse_zone :: "string \<Rightarrow> int option" where
  "parse_zone s =
     (if s = ''Z'' then Some 0
      else if length s \<noteq> 6 then None
      else (case (parseUint (take 2 (drop 1 s)) 0 23, parseUint (take 2 (drop 4 s)) 0 59) of
              (Some hr, Some mm) \<Rightarrow>
                if (s ! 0 = CHR ''-'' \<or> s ! 0 = CHR ''+'') \<and> s ! 3 = CHR '':'' then
                  Some ((if s ! 0 = CHR ''-'' then - 1 else 1) * ((hr * 60 + mm) * 60))
                else None
            | _ \<Rightarrow> None))"

definition days_in_month :: "int \<Rightarrow> int \<Rightarrow> int" where
  "days_in_month m y = month_lengths y ! nat (m - 1)"

definition parseRFC3339 :: "string \<Rightarrow> time option" where
  "parseRFC3339 s =
     (if length s < 19 then None
      else (case (parseUint (take 4 s) 0 9999, parseUint (take 2 (drop 5 s)) 1 12) of
        (Some year, Some month) \<Rightarrow>
          (case (parseUint (take 2 (drop 8 s)) 1 (days_in_month month year),
                 parseUint (take 2 (drop 11 s)) 0 23, parseUint (take 2 (drop 14 s)) 0 59,
                 parseUint (take 2 (drop 17 s)) 0 59) of
            (Some day, Some hour, Some mi, Some sec) \<Rightarrow>
              if s ! 4 = CHR ''-'' \<and> s ! 7 = CHR ''-'' \<and> s ! 10 = CHR ''T'' \<and> s ! 13 = CHR '':''
                 \<and> s ! 16 = CHR '':'' then
                (let (frac, z) = parse_fraction (drop 19 s);
                     days = days_of_year year + sum_list (take (nat (month - 1)) (month_lengths year)) + day - 1
                 in map_option (\<lambda>off. (days * 86400 + hour * 3600 + mi * 60 + sec - off) * Second + frac)
                      (parse_zone z))
              else None
          | _ \<Rightarrow> None)
      | _ \<Rightarrow> None))"

definition Parse_RFC3339 :: "(string \<Rightarrow> time option) \<Rightarrow> string \<Rightarrow> time option" where
  "Parse_RFC3339 lenient s = (case parseRFC3339 s of Some t \<Rightarrow> Some t | None \<Rightarrow> lenient s)"

text \<open>Instants whose year has four digits: from 0000-01-01 up to 10000-01-01.\<close>

definition four_digit_year :: "time \<Rightarrow> bool" where
  "four_digit_year t = (- 62167219200 * Second \<le> t \<and> t < 253402300800 * Second)"

subsection \<open>Parsing what was formatted\<close>

lemma length_dec: "n < 10 ^ k \<Longrightarrow> 0 < k \<Longrightarrow> length (dec n) \<le> k"
proof (induction k arbitrary: n)
  case (Suc k)
  show ?case
  proof (cases "n < 10")
    case True
    then show ?thesis by (simp add: dec.simps [of n])
  next
    case False
    with Suc.prems have "n div 10 < 10 ^ k" "0 < k" by (auto simp: less_mult_imp_div_less mult.commute intro!: Nat.gr0I)
    from Suc.IH [OF this] False show ?thesis by (simp add: dec.simps [of n])
  qed
qed simp

lemma undec_zeros: "undec (replicate k (CHR ''0'') @ s) = undec s"
  by (induction k) (simp_all add: undec_def byte_def)

lemma pad_spec:
  assumes "0 \<le> n" "n < 10 ^ k" "0 < k"
  shows "length (pad k n) = k" "lo \<le> n \<Longrightarrow> n \<le> hi \<Longrightarrow> parseUint (pad k n) lo hi = Some n"
proof -
  let ?d = "dec (nat n)"
  have "nat n < 10 ^ k" using assms by (simp add: nat_less_iff)
  then have "length ?d \<le> k" using assms by (intro length_dec) auto
  moreover have p: "pad k n = replicate (k - length ?d) (CHR ''0'') @ ?d"
    using assms by (simp add: pad_def Let_def)
  moreover have "list_all is_digit (pad k n)"
    unfolding p list_all_iff by (auto dest: dec_digits simp: is_digit_def byte_def)
  ultimately show "length (pad k n) = k" "lo \<le> n \<Longrightarrow> n \<le> hi \<Longrightarrow> parseUint (pad k n) lo hi = Some n"
    using assms by (simp_all add: parseUint_def undec_zeros)
qed

lemma year_range:
  assumes "year_yday d = (y, r)" "-719528 \<le> d" "d < 2932897"
  shows "0 \<le> y \<and> y \<le> 9999"
proof -
  obtain a b c e where p: "y = 1 + 400 * a + 100 * b + 4 * c + e"
    "d + epoch_days = 146097 * a + 36524 * b + 1461 * c + 365 * e + r"
    "0 \<le> b" "b \<le> 3" "0 \<le> c" "c \<le> 24" "0 \<le> e" "e \<le> 3" "0 \<le> r"
    "r < 365 \<or> (r = 365 \<and> e = 3 \<and> (c < 24 \<or> b = 3))"
    by (rule year_yday_parts [OF assms(1)])
  with assms have n: "-366 \<le> 146097 * a + 36524 * b + 1461 * c + 365 * e + r"
    "146097 * a + 36524 * b + 1461 * c + 365 * e + r < 3652059" by (simp_all add: epoch_days_def)
  have r: "r \<le> 365" "e < 3 \<Longrightarrow> r < 365" using p(10) by auto
  note b = p(3-9)
  have a: "-1 \<le> a" "a \<le> 24" using n b r(1) by linarith+
  have lo: "0 \<le> y" if "a = -1"
  proof -
    have "b = 3" using n(1) b r(1) that by linarith
    moreover from this have "c = 24" using n(1) b r(1) that by linarith
    moreover from calculation have "e = 3" using n(1) b r that by linarith
    ultimately show ?thesis using p(1) that by simp
  qed
  have hi: "y \<le> 9999" if "a = 24"
  proof (rule ccontr)
    assume "\<not> y \<le> 9999"
    with p(1) b that have "b = 3" "c = 24" "e = 3" by linarith+
    with n(2) b that show False by linarith
  qed
  show ?thesis
  proof
    show "0 \<le> y" using lo a(1) p(1) b by (cases "a = -1") linarith+
    show "y \<le> 9999" using hi a(2) p(1) b by (cases "a = 24") linarith+
  qed
qed

lemma nth_append_hd: "length x = n \<Longrightarrow> (x @ c # y) ! n = c"
  by (simp add: nth_append)

lemma parseRFC3339_format:
  assumes "length ys = 4" "length ms = 2" "length ds = 2" "length hs = 2" "length ns = 2" "length ss = 2"
    and "parseUint ys 0 9999 = Some year" "parseUint ms 1 12 = Some month"
    and "parseUint ds 1 (days_in_month month year) = Some day"
    and "parseUint hs 0 23 = Some hour" "parseUint ns 0 59 = Some mi" "parseUint ss 0 59 = Some sec"
  shows "parseRFC3339 (ys @ ''-'' @ ms @ ''-'' @ ds @ ''T'' @ hs @ '':'' @ ns @ '':'' @ ss @ ''Z'') =
    Some ((((days_of_year year + sum_list (take (nat (month - 1)) (month_lengths year)) + day - 1) * 86400
      + hour * 3600 + mi * 60 + sec)) * Second)"
proof -
  let ?s = "ys @ ''-'' @ ms @ ''-'' @ ds @ ''T'' @ hs @ '':'' @ ns @ '':'' @ ss @ ''Z''"
  have t: "take 4 ?s = ys" "take 2 (drop 5 ?s) = ms" "take 2 (drop 8 ?s) = ds"
    "take 2 (drop 11 ?s) = hs" "take 2 (drop 14 ?s) = ns" "take 2 (drop 17 ?s) = ss"
    "drop 19 ?s = ''Z''" "length ?s = 20"
    using assms(1-6) by simp_all
  have c: "?s ! 4 = CHR ''-''" "?s ! 7 = CHR ''-''" "?s ! 10 = CHR ''T''" "?s ! 13 = CHR '':''"
    "?s ! 16 = CHR '':''"
    using assms(1-6) by (simp_all add: nth_append)
  show ?thesis unfolding parseRFC3339_def t c
    using assms(7-12) by (simp add: parse_fraction_def parse_zone_def Let_def)
qed

lemma format_fields:
  assumes "four_digit_year t"
  obtains y m x s where
    "Format_RFC3339 t = pad 4 y @ ''-'' @ pad 2 (m + 1) @ ''-'' @ pad 2 (x + 1) @ ''T'' @ pad 2 (s div 3600)
      @ '':'' @ pad 2 (s mod 3600 div 60) @ '':'' @ pad 2 (s mod 60) @ ''Z''"
    "0 \<le> y" "y \<le> 9999" "0 \<le> m" "m < 12" "0 \<le> x" "x < month_lengths y ! nat m" "x < 31" "0 \<le> s" "s < 86400"
    "(days_of_year y + sum_list (take (nat m) (month_lengths y)) + x) * 86400 + s = t div Second"
proof -
  define u s where "u = t div Second" "s = u mod 86400"
  obtain y yd where y: "year_yday (u div 86400) = (y, yd)" by (cases "year_yday (u div 86400)")
  obtain m x where m: "month_of (month_lengths y) yd = (m, x)" by (cases "month_of (month_lengths y) yd")
  have "-62167219200 \<le> u" "u < 253402300800" using assms unfolding u_s_def four_digit_year_def by linarith+
  then have "-719528 \<le> u div 86400" "u div 86400 < 2932897" by auto
  with y have yr: "0 \<le> y" "y \<le> 9999" using year_range by blast+
  from month_of_spec [OF m] year_yday_range [OF y]
  have mx: "0 \<le> m" "m < 12" "0 \<le> x" "x < month_lengths y ! nat m"
    "sum_list (take (nat m) (month_lengths y)) + x = yd"
    by (simp_all add: month_lengths_def)
  have "\<forall>l \<in> set (month_lengths y). l \<le> 31" by (simp add: month_lengths_def)
  moreover have "month_lengths y ! nat m \<in> set (month_lengths y)"
    using mx(1,2) by (intro nth_mem) (simp add: month_lengths_def)
  ultimately have "x < 31" using mx(4) by fastforce
  moreover have "0 \<le> s" "s < 86400" by (simp_all add: u_s_def)
  moreover have "Format_RFC3339 t = pad 4 y @ ''-'' @ pad 2 (m + 1) @ ''-'' @ pad 2 (x + 1) @ ''T'' @ pad 2 (s div 3600)
      @ '':'' @ pad 2 (s mod 3600 div 60) @ '':'' @ pad 2 (s mod 60) @ ''Z''"
    by (simp add: Format_RFC3339_def Let_def y m flip: u_s_def)
  moreover have "days_of_year y + sum_list (take (nat m) (month_lengths y)) + x = u div 86400"
    using mx(5) year_yday_back [OF y] by simp
  then have "(days_of_year y + sum_list (take (nat m) (month_lengths y)) + x) * 86400 + s = t div Second"
    unfolding u_s_def by simp
  ultimately show ?thesis using that yr mx(1-4) by blast
qed

lemma parse_format:
  assumes "four_digit_year t"
  shows "parseRFC3339 (Format_RFC3339 t) = Some (truncate_second t)"
proof -
  obtain y m x s where F: "Format_RFC3339 t = pad 4 y @ ''-'' @ pad 2 (m + 1) @ ''-'' @ pad 2 (x + 1) @ ''T'' @ pad 2 (s div 3600)
      @ '':'' @ pad 2 (s mod 3600 div 60) @ '':'' @ pad 2 (s mod 60) @ ''Z''"
    and r: "0 \<le> y" "y \<le> 9999" "0 \<le> m" "m < 12" "0 \<le> x" "x < month_lengths y ! nat m" "x < 31" "0 \<le> s" "s < 86400"
    and u: "(days_of_year y + sum_list (take (nat m) (month_lengths y)) + x) * 86400 + s = t div Second"
    by (rule format_fields [OF assms])
  have "parseRFC3339 (Format_RFC3339 t) = Some (((days_of_year y
      + sum_list (take (nat (m + 1 - 1)) (month_lengths y)) + (x + 1) - 1) * 86400
      + s div 3600 * 3600 + s mod 3600 div 60 * 60 + s mod 60) * Second)"
    unfolding F
  proof (rule parseRFC3339_format)
    have "m + 1 < 10 ^ 2" "x + 1 < 10 ^ 2" "s div 3600 < 24" "s mod 3600 div 60 < 60" "s mod 60 < 60"
      using r by auto
    then show "length (pad 2 (m + 1)) = 2" "length (pad 2 (x + 1)) = 2" "length (pad 2 (s div 3600)) = 2"
      "length (pad 2 (s mod 3600 div 60)) = 2" "length (pad 2 (s mod 60)) = 2"
      "parseUint (pad 2 (m + 1)) 1 12 = Some (m + 1)"
      "parseUint (pad 2 (x + 1)) 1 (days_in_month (m + 1) y) = Some (x + 1)"
      "parseUint (pad 2 (s div 3600)) 0 23 = Some (s div 3600)"
      "parseUint (pad 2 (s mod 3600 div 60)) 0 59 = Some (s mod 3600 div 60)"
      "parseUint (pad 2 (s mod 60)) 0 59 = Some (s mod 60)"
      using r by (simp_all add: pad_spec days_in_month_def pos_imp_zdiv_nonneg_iff)
    show "length (pad 4 y) = 4" "parseUint (pad 4 y) 0 9999 = Some y"
      using r by (simp_all add: pad_spec)
  qed
  also have "(days_of_year y + sum_list (take (nat (m + 1 - 1)) (month_lengths y)) + (x + 1) - 1) * 86400
      + s div 3600 * 3600 + s mod 3600 div 60 * 60 + s mod 60 = t div Second"
  proof -
    have "s mod 3600 div 60 * 60 + s mod 60 = s mod 3600"
      using div_mult_mod_eq [of "s mod 3600" 60] by (simp add: mod_mod_cancel)
    moreover have "s div 3600 * 3600 + s mod 3600 = s" by (rule div_mult_mod_eq)
    moreover have "(n + (x + 1) - 1) * 86400 + a + b + c = (n + x) * 86400 + (a + (b + c))" for n a b c by simp
    ultimately show ?thesis by (simp only: add_diff_cancel_right' u)
  qed
  finally show ?thesis by (simp only: truncate_second_def)
qed

lemma Format_length: "four_digit_year t \<Longrightarrow> length (Format_RFC3339 t) = 20"
  by (erule format_fields) (simp add: pad_spec pos_imp_zdiv_nonneg_iff div_less_iff_less_mult)

lemma Format_last: "last (Format_RFC3339 t) = CHR ''Z''"
  by (simp add: Format_RFC3339_def Let_def split: prod.split)

lemma Format_no_newline: "NL \<notin> set (Format_RFC3339 t)"
proof -
  have "NL \<notin> set (dec n)" for n using dec_digits [of NL n] by (auto simp: is_digit_def byte_def)
  then have "NL \<notin> set (pad k n)" for k n by (auto simp: pad_def Let_def)
  then show ?thesis by (auto simp: Format_RFC3339_def Let_def split: prod.splits)
qed

section \<open>Durations as text\<close>

definition frac_str :: "nat \<Rightarrow> nat \<Rightarrow> string" where
  "frac_str v prec =
     (let d = dec (v mod 10 ^ prec); z = replicate (prec - length d) (CHR ''0'') @ d;
          f = rev (dropWhile (\<lambda>c. c = CHR ''0'') (rev z))
      in if f = [] then [] else ''.'' @ f)"

definition Duration_String :: "duration \<Rightarrow> string" where
  "Duration_String d =
     (let u = nat \<bar>d\<bar>;
          body =
            (if u = 0 then ''0s''
             else if u < 1000 then dec u @ ''ns''
             else if u < 1000000 then dec (u div 1000) @ frac_str u 3 @ [CHR 0xC2, CHR 0xB5] @ ''s''
             else if u < 1000000000 then dec (u div 1000000) @ frac_str u 6 @ ''ms''
             else (let secs = u div 1000000000; mins = secs div 60; hours = mins div 60;
                       s = dec (secs mod 60) @ frac_str u 9 @ ''s'';
                       m = dec (mins mod 60) @ ''m'' @ s
                   in if mins = 0 then s else if hours = 0 then m else dec hours @ ''h'' @ m))
      in (if d < 0 then ''-'' else []) @ body)"

definition unit_of :: "string \<Rightarrow> nat option" where
  "unit_of u =
     (if u = ''ns'' then Some 1
      else if u = ''us'' \<or> u = [CHR 0xC2, CHR 0xB5] @ ''s'' \<or> u = [CHR 0xCE, CHR 0xBC] @ ''s'' then Some 1000
      else if u = ''ms'' then Some 1000000
      else if u = ''s'' then Some 1000000000
      else if u = ''m'' then Some 60000000000
      else if u = ''h'' then Some 3600000000000
      else None)"

definition num_char :: "char \<Rightarrow> bool" where
  "num_char c = (c = CHR ''.'' \<or> is_digit c)"

text \<open>
  One pass of the loop of time.ParseDuration: a number with its unit, the nanoseconds it adds
  and what is left. The value of a fraction is computed in floating point by the library:
  \<open>frac digits unit\<close> stands for it.
\<close>

definition dur_step :: "(string \<Rightarrow> nat \<Rightarrow> nat) \<Rightarrow> string \<Rightarrow> (nat \<times> string) option" where
  "dur_step frac s =
     (let ds = takeWhile is_digit s; s1 = dropWhile is_digit s;
          (fds, s2) = (case s1 of c # t \<Rightarrow>
             if c = CHR ''.'' then (takeWhile is_digit t, dropWhile is_digit t) else ([], s1)
             | [] \<Rightarrow> ([], s1));
          u = takeWhile (\<lambda>c. \<not> num_char c) s2; v = undec ds
      in if 2 ^ 63 < v \<or> (ds = [] \<and> fds = []) then None
         else (case unit_of u of None \<Rightarrow> None
           | Some un \<Rightarrow>
               if 2 ^ 63 div un < v then None
               else (let w = v * un + (if 0 < undec fds then frac fds un else 0)
                     in if 2 ^ 63 < w then None else Some (w, dropWhile (\<lambda>c. \<not> num_char c) s2))))"

lemma dur_step_shrinks: "dur_step frac s = Some (w, s') \<Longrightarrow> length s' < length s"
proof -
  assume a: "dur_step frac s = Some (w, s')"
  obtain fds s2 where s2: "(case dropWhile is_digit s of c # t \<Rightarrow>
      if c = CHR ''.'' then (takeWhile is_digit t, dropWhile is_digit t) else ([], dropWhile is_digit s)
      | [] \<Rightarrow> ([], dropWhile is_digit s)) = (fds, s2)" by fastforce
  with a have s': "s' = dropWhile (\<lambda>c. \<not> num_char c) s2"
    and ne: "takeWhile is_digit s \<noteq> [] \<or> fds \<noteq> []"
    by (auto simp: dur_step_def Let_def split: if_splits option.splits)
  have le: "length s2 \<le> length (dropWhile is_digit s)"
  proof (cases "dropWhile is_digit s")
    case (Cons c t)
    show ?thesis using s2 length_dropWhile_le [of is_digit t] by (auto simp: Cons split: if_splits)
  next
    case Nil
    from s2 [unfolded Nil] show ?thesis by simp
  qed
  have lt: "length s2 < length s"
  proof (cases "takeWhile is_digit s = []")
    case True
    with ne have f: "fds \<noteq> []" by simp
    have "length s2 < length (dropWhile is_digit s)"
    proof (cases "dropWhile is_digit s")
      case (Cons c t)
      show ?thesis using f s2 length_dropWhile_le [of is_digit t] by (auto simp: Cons split: if_splits)
    next
      case Nil
      from s2 [unfolded Nil] f show ?thesis by simp
    qed
    then show ?thesis using length_dropWhile_le [of is_digit s] by linarith
  next
    case False
    have "length s = length (takeWhile is_digit s) + length (dropWhile is_digit s)"
      by (metis length_append takeWhile_dropWhile_id)
    with False le show ?thesis by (cases "takeWhile is_digit s") auto
  qed
  show ?thesis using s' lt length_dropWhile_le [of "\<lambda>c. \<not> num_char c" s2] by simp
qed

function dur_loop :: "(string \<Rightarrow> nat \<Rightarrow> nat) \<Rightarrow> nat \<Rightarrow> string \<Rightarrow> nat option" where
  "dur_loop frac d s =
     (if s = [] then Some d
      else if \<not> num_char (hd s) then None
      else (case dur_step frac s of None \<Rightarrow> None
        | Some (w, s') \<Rightarrow>
            (let d' = (d + w) mod 2 ^ 64 in if 2 ^ 63 < d' then None else dur_loop frac d' s')))"
  by pat_completeness auto
termination
  by (relation "measure (\<lambda>(frac, d, s). length s)") (auto dest: dur_step_shrinks)

declare dur_loop.simps [simp del]

definition ParseDuration :: "(string \<Rightarrow> nat \<Rightarrow> nat) \<Rightarrow> string \<Rightarrow> duration option" where
  "ParseDuration frac s =
     (let neg = HasPrefix s ''-''; t = (if HasPrefix s ''-'' \<or> HasPrefix s ''+'' then tl s else s)
      in if t = ''0'' then Some 0
         else if t = [] then None
         else (case dur_loop frac 0 t of None \<Rightarrow> None
           | Some d \<Rightarrow> if neg then Some (- int d) else if 2 ^ 63 - 1 < d then None else Some (int d)))"

lemma ParseDuration_seconds:
  assumes "n \<le> 9223372036"
  shows "ParseDuration frac (dec n @ ''s'') = Some (int n * Second)"
proof -
  have dig: "list_all is_digit (dec n)" by (simp add: list_all_iff dec_digits)
  have sd: "\<not> is_digit (CHR ''s'')" by (simp add: is_digit_def byte_def)
  then have tw: "takeWhile is_digit (dec n @ ''s'') = dec n" "dropWhile is_digit (dec n @ ''s'') = ''s''"
    using dig by (simp_all add: list_all_iff takeWhile_append2 dropWhile_append2)
  have nc: "\<not> num_char (CHR ''s'')" using sd by (simp add: num_char_def)
  have un: "unit_of ''s'' = Some 1000000000" by (simp add: unit_of_def)
  have step: "dur_step frac (dec n @ ''s'') = Some (n * 1000000000, [])"
    using assms nc un by (simp add: dur_step_def tw Let_def undec_def [of "[]"])
  obtain c t where c: "dec n = c # t" "is_digit c"
    using dec_neq_Nil [of n] dec_digits [of _ n] by (cases "dec n") auto
  then have hd: "hd (dec n @ ''s'') = c" "num_char c" by (simp_all add: num_char_def)
  have "dur_loop frac 0 (dec n @ ''s'') = Some (n * 1000000000)"
    using assms hd step by (subst dur_loop.simps) (simp add: Let_def, subst dur_loop.simps, simp)
  moreover have "\<not> HasPrefix (dec n @ ''s'') ''-''" "\<not> HasPrefix (dec n @ ''s'') ''+''" "dec n @ ''s'' \<noteq> ''0''"
    using c by (auto simp: HasPrefix_def is_digit_def byte_def)
  ultimately show ?thesis using assms by (simp add: ParseDuration_def)
qed

end
