(* ===== verification/Fs.thy ===== *)
theory Fs
  imports Prelude
begin

text \<open>
  The file system the program works on: directory entries point to inodes, an open file is a
  handle on an inode with an offset, and every system call is one step that a schedule may make
  fail. The disk after every step is recorded, so that a statement about all of them covers a
  crash (or a reader) between any two system calls, a partial write included. Symbolic links,
  hard links and permission checks are left out: a call that is refused is a scheduled fault.
\<close>

section \<open>Path names\<close>

definition clean_step :: "bool \<Rightarrow> string list \<Rightarrow> string \<Rightarrow> string list" where
  "clean_step rooted acc c =
     (if c = [] \<or> c = ''.'' then acc
      else if c = ''..'' then
        (if acc \<noteq> [] \<and> last acc \<noteq> ''..'' then butlast acc
         else if rooted then acc else acc @ [''..''])
      else acc @ [c])"

definition filepath_IsAbs :: "string \<Rightarrow> bool" where
  "filepath_IsAbs p = HasPrefix p ''/''"

definition filepath_Clean :: "string \<Rightarrow> string" where
  "filepath_Clean p =
     (let rooted = filepath_IsAbs p; cs = foldl (clean_step rooted) [] (split_on (CHR ''/'') p)
      in if rooted then ''/'' @ Join ''/'' cs else if cs = [] then ''.'' else Join ''/'' cs)"

definition filepath_Join :: "string list \<Rightarrow> string" where
  "filepath_Join xs =
     (let ys = dropWhile (\<lambda>x. x = []) xs in if ys = [] then [] else filepath_Clean (Join ''/'' ys))"

definition filepath_Dir :: "string \<Rightarrow> string" where
  "filepath_Dir p = filepath_Clean (rev (dropWhile (\<lambda>c. c \<noteq> CHR ''/'') (rev p)))"

text \<open>A path as a user of the library holds it: absolute and already clean.\<close>

definition clean_abs :: "string \<Rightarrow> bool" where
  "clean_abs p = (filepath_IsAbs p \<and> filepath_Clean p = p)"

definition good_component :: "string \<Rightarrow> bool" where
  "good_component c = (c \<noteq> [] \<and> c \<noteq> ''.'' \<and> c \<noteq> ''..'' \<and> CHR ''/'' \<notin> set c)"

lemma clean_step_good [simp]: "good_component c \<Longrightarrow> clean_step rooted acc c = acc @ [c]"
  by (simp add: clean_step_def good_component_def)

lemma split_on_sep: "split_on b (x @ b # y) = split_on b x @ split_on b y"
proof (induction x)
  case (Cons c x)
  then show ?case by (cases "split_on b x") (auto simp: neq_Nil_conv)
qed simp

lemma clean_step_nonempty: "\<forall>c \<in> set acc. c \<noteq> [] \<Longrightarrow> \<forall>c \<in> set (foldl (clean_step r) acc cs). c \<noteq> []"
proof (induction cs arbitrary: acc)
  case (Cons c cs)
  have "\<forall>x \<in> set (clean_step r acc c). x \<noteq> []"
    using Cons.prems by (auto simp: clean_step_def dest: in_set_butlastD)
  then show ?case using Cons.IH by simp
qed simp

lemma Join_snoc: "xs \<noteq> [] \<Longrightarrow> Join sep (xs @ [x]) = Join sep xs @ sep @ x"
proof (induction xs)
  case (Cons a xs)
  then show ?case by (cases "xs = []") (simp_all add: Join_Cons)
qed simp

lemma Join_eq_Nil: "\<forall>c \<in> set xs. c \<noteq> [] \<Longrightarrow> Join sep xs = [] \<longleftrightarrow> xs = []"
  by (induction sep xs rule: Join.induct) auto

definition dir_prefix :: "string \<Rightarrow> string" where
  "dir_prefix p = (if p = ''/'' then p else p @ ''/'')"

lemma Clean_snoc:
  assumes "filepath_IsAbs dir" "good_component c"
  shows "filepath_Clean (dir @ ''/'' @ c) = dir_prefix (filepath_Clean dir) @ c"
proof -
  define cs where "cs = foldl (clean_step True) [] (split_on (CHR ''/'') dir)"
  have abs: "filepath_IsAbs (dir @ x)" for x
    using assms(1) by (auto simp: filepath_IsAbs_def HasPrefix_iff)
  have ne: "\<forall>x \<in> set cs. x \<noteq> []" unfolding cs_def by (rule clean_step_nonempty) simp
  have "split_on (CHR ''/'') (dir @ CHR ''/'' # c) = split_on (CHR ''/'') dir @ [c]"
    using assms(2) by (simp add: split_on_sep good_component_def)
  then have 1: "filepath_Clean (dir @ ''/'' @ c) = ''/'' @ Join ''/'' (cs @ [c])"
    using abs [of "CHR ''/'' # c"] assms(2) by (simp add: filepath_Clean_def Let_def cs_def)
  have 2: "filepath_Clean dir = ''/'' @ Join ''/'' cs"
    using abs [of "[]"] by (simp add: filepath_Clean_def Let_def cs_def)
  show ?thesis
  proof (cases "cs = []")
    case True
    then show ?thesis using 1 2 by (simp add: dir_prefix_def)
  next
    case False
    then show ?thesis using 1 2 ne by (simp add: dir_prefix_def Join_snoc Join_eq_Nil)
  qed
qed

lemma filepath_Clean_abs: "filepath_IsAbs p \<Longrightarrow> filepath_IsAbs (filepath_Clean p)"
  by (simp add: filepath_Clean_def Let_def filepath_IsAbs_def HasPrefix_def)

lemma dir_prefix_abs: "filepath_IsAbs p \<Longrightarrow> filepath_IsAbs (dir_prefix p @ x)"
  by (auto simp: filepath_IsAbs_def HasPrefix_iff dir_prefix_def)

section \<open>Disks\<close>

datatype dirent = DirEnt nat | FileEnt nat

record inode =
  i_mode :: nat
  i_owner :: "nat \<times> nat"
  i_data :: string

record disk =
  ents :: "(string \<times> dirent) list"
  inodes :: "inode list"

record os =
  dsk :: disk
  tick :: nat
  sched :: "nat \<Rightarrow> go_error option \<times> nat"
  hist :: "disk list"
  umasked :: "nat \<Rightarrow> nat"
  euser :: "nat \<times> nat"

record ofile =
  f_ino :: nat
  f_off :: nat

definition ent :: "disk \<Rightarrow> string \<Rightarrow> dirent option" where
  "ent d p = map_of (ents d) p"

definition set_ent :: "string \<Rightarrow> dirent \<Rightarrow> disk \<Rightarrow> disk" where
  "set_ent p e d = d\<lparr>ents := (p, e) # filter (\<lambda>x. fst x \<noteq> p) (ents d)\<rparr>"

definition del_ent :: "string \<Rightarrow> disk \<Rightarrow> disk" where
  "del_ent p d = d\<lparr>ents := filter (\<lambda>x. fst x \<noteq> p) (ents d)\<rparr>"

definition upd_ino :: "nat \<Rightarrow> (inode \<Rightarrow> inode) \<Rightarrow> disk \<Rightarrow> disk" where
  "upd_ino i f d = (if i < length (inodes d) then d\<lparr>inodes := (inodes d)[i := f (inodes d ! i)]\<rparr> else d)"

definition file_at :: "disk \<Rightarrow> string \<Rightarrow> inode option" where
  "file_at d p = (case ent d p of
     Some (FileEnt i) \<Rightarrow> if i < length (inodes d) then Some (inodes d ! i) else None | _ \<Rightarrow> None)"

definition is_dir :: "disk \<Rightarrow> string \<Rightarrow> bool" where
  "is_dir d p = (p = ''/'' \<or> p = ''.'' \<or> (case ent d p of Some (DirEnt m) \<Rightarrow> True | _ \<Rightarrow> False))"

definition read_file :: "disk \<Rightarrow> string \<Rightarrow> string option" where
  "read_file d p = map_option i_data (file_at d p)"

definition file_inos :: "disk \<Rightarrow> nat list" where
  "file_inos d = concat (map (\<lambda>(p, e). case e of FileEnt i \<Rightarrow> [i] | DirEnt m \<Rightarrow> []) (ents d))"

text \<open>A disk without dangling entries and without hard links.\<close>

definition wf_disk :: "disk \<Rightarrow> bool" where
  "wf_disk d = (distinct (map fst (ents d)) \<and> distinct (file_inos d)
     \<and> list_all (\<lambda>i. i < length (inodes d)) (file_inos d))"

section \<open>System calls\<close>

definition advance :: "disk \<Rightarrow> os \<Rightarrow> os" where
  "advance d w = w\<lparr>dsk := d, tick := Suc (tick w), hist := hist w @ [d]\<rparr>"

definition fault :: "os \<Rightarrow> go_error option" where
  "fault w = fst (sched w (tick w))"

definition partial :: "os \<Rightarrow> nat" where
  "partial w = snd (sched w (tick w))"

definition path_error :: "string \<Rightarrow> string \<Rightarrow> sentinel list \<Rightarrow> string \<Rightarrow> go_error" where
  "path_error opn p ss m = \<lparr>err_is = ss, err_msg = opn @ '' '' @ p @ '': '' @ m\<rparr>"

definition enoent :: "string \<Rightarrow> string \<Rightarrow> go_error" where
  "enoent opn p = path_error opn p [OsErrNotExist] ''no such file or directory''"

text \<open>A call that only looks at the disk.\<close>

definition observe :: "(disk \<Rightarrow> go_error + 'a) \<Rightarrow> os \<Rightarrow> (go_error + 'a) \<times> os" where
  "observe f w = ((case fault w of Some e \<Rightarrow> Inl e | None \<Rightarrow> f (dsk w)), advance (dsk w) w)"

text \<open>A call that changes the disk in one atomic step or not at all.\<close>

definition commit :: "(disk \<Rightarrow> go_error + 'a \<times> disk) \<Rightarrow> os \<Rightarrow> (go_error + 'a) \<times> os" where
  "commit f w = (case fault w of
       Some e \<Rightarrow> (Inl e, advance (dsk w) w)
     | None \<Rightarrow> (case f (dsk w) of
         Inl e \<Rightarrow> (Inl e, advance (dsk w) w) | Inr (x, d) \<Rightarrow> (Inr x, advance d w)))"

definition os_ReadFile :: "string \<Rightarrow> os \<Rightarrow> (go_error + string) \<times> os" where
  "os_ReadFile p = observe (\<lambda>d. case file_at d p of Some n \<Rightarrow> Inr (i_data n)
     | None \<Rightarrow> if is_dir d p then Inl (path_error ''read'' p [] ''is a directory'') else Inl (enoent ''open'' p))"

datatype file_info = FileInfo (info_dir: bool) (info_mode: nat) (info_owner: "nat \<times> nat")

definition os_Stat :: "string \<Rightarrow> os \<Rightarrow> (go_error + file_info) \<times> os" where
  "os_Stat p = observe (\<lambda>d. case file_at d p of Some n \<Rightarrow> Inr (FileInfo False (i_mode n) (i_owner n))
     | None \<Rightarrow> if is_dir d p
         then Inr (FileInfo True (case ent d p of Some (DirEnt m) \<Rightarrow> m | _ \<Rightarrow> 493) (0, 0))
         else Inl (enoent ''stat'' p))"

text \<open>The names below a directory; the entries \<^verbatim>\<open>.\<close> and \<^verbatim>\<open>..\<close> are not among them.\<close>

definition children :: "disk \<Rightarrow> string \<Rightarrow> string list" where
  "children d p = sort (filter good_component
     (map (\<lambda>x. TrimPrefix (fst x) (dir_prefix p))
       (filter (\<lambda>x. HasPrefix (fst x) (dir_prefix p)) (ents d))))"

definition os_ReadDir :: "string \<Rightarrow> os \<Rightarrow> (go_error + string list) \<times> os" where
  "os_ReadDir p = observe (\<lambda>d. if is_dir d p then Inr (children d p)
     else if file_at d p \<noteq> None then Inl (path_error ''readdirent'' p [] ''not a directory'')
     else Inl (enoent ''open'' p))"

fun ancestors :: "string list \<Rightarrow> string \<Rightarrow> string list" where
  "ancestors [] p = []"
| "ancestors (c # cs) p = (p @ c) # ancestors cs (p @ c @ ''/'')"

definition mkdir_chain :: "string \<Rightarrow> string list" where
  "mkdir_chain p = filter (\<lambda>q. q \<noteq> []) (ancestors (split_on (CHR ''/'') p) [])"

fun mkdirs :: "nat \<Rightarrow> string list \<Rightarrow> disk \<Rightarrow> go_error option \<times> disk" where
  "mkdirs m [] d = (None, d)"
| "mkdirs m (p # ps) d =
     (if is_dir d p then mkdirs m ps d
      else case ent d p of Some e \<Rightarrow> (Some (path_error ''mkdir'' p [] ''not a directory''), d)
        | None \<Rightarrow> mkdirs m ps (set_ent p (DirEnt m) d))"

text \<open>A failing MkdirAll may have made the first few directories of the chain.\<close>

definition os_MkdirAll :: "string \<Rightarrow> nat \<Rightarrow> os \<Rightarrow> go_error option \<times> os" where
  "os_MkdirAll p m w = (case fault w of
       Some e \<Rightarrow> (Some e, advance (snd (mkdirs (umasked w m) (take (partial w) (mkdir_chain p)) (dsk w))) w)
     | None \<Rightarrow> (let (r, d) = mkdirs (umasked w m) (mkdir_chain p) (dsk w) in (r, advance d w)))"

definition new_file :: "string \<Rightarrow> nat \<Rightarrow> nat \<times> nat \<Rightarrow> disk \<Rightarrow> ofile \<times> disk" where
  "new_file p m own d =
     (\<lparr>f_ino = length (inodes d), f_off = 0\<rparr>,
      set_ent p (FileEnt (length (inodes d)))
        (d\<lparr>inodes := inodes d @ [\<lparr>i_mode = m, i_owner = own, i_data = []\<rparr>]\<rparr>))"

text \<open>OpenFile with O_WRONLY, O_CREATE and O_TRUNC: an existing file keeps its inode.\<close>

definition os_OpenTrunc :: "string \<Rightarrow> nat \<Rightarrow> os \<Rightarrow> (go_error + ofile) \<times> os" where
  "os_OpenTrunc p m w = commit (\<lambda>d. case ent d p of
       Some (FileEnt i) \<Rightarrow> Inr (\<lparr>f_ino = i, f_off = 0\<rparr>, upd_ino i (\<lambda>n. n\<lparr>i_data := []\<rparr>) d)
     | Some (DirEnt x) \<Rightarrow> Inl (path_error ''open'' p [] ''is a directory'')
     | None \<Rightarrow> if is_dir d (filepath_Dir p) then Inr (new_file p (umasked w m) (euser w) d)
               else Inl (enoent ''open'' p)) w"

text \<open>OpenFile with O_WRONLY, O_CREATE and O_EXCL: an existing entry is an error.\<close>

definition os_OpenExcl :: "string \<Rightarrow> nat \<Rightarrow> os \<Rightarrow> (go_error + ofile) \<times> os" where
  "os_OpenExcl p m w = commit (\<lambda>d. case ent d p of
       Some e \<Rightarrow> Inl (path_error ''open'' p [OsErrExist] ''file exists'')
     | None \<Rightarrow> if is_dir d (filepath_Dir p) then Inr (new_file p (umasked w m) (euser w) d)
               else Inl (enoent ''open'' p)) w"

definition unit_result :: "(go_error + unit) \<times> os \<Rightarrow> go_error option \<times> os" where
  "unit_result r = ((case fst r of Inl e \<Rightarrow> Some e | Inr u \<Rightarrow> None), snd r)"

definition f_Chmod :: "ofile \<Rightarrow> nat \<Rightarrow> os \<Rightarrow> go_error option \<times> os" where
  "f_Chmod f m w = unit_result (commit (\<lambda>d. Inr ((), upd_ino (f_ino f) (\<lambda>n. n\<lparr>i_mode := m\<rparr>) d)) w)"

definition write_at :: "nat \<Rightarrow> string \<Rightarrow> string \<Rightarrow> string" where
  "write_at off new old = take off old @ replicate (off - length old) (CHR 0x00) @ new @ drop (off + length new) old"

text \<open>A write reaches the disk piecewise: a part of the data first, all of it when it succeeds.\<close>

definition f_Write :: "ofile \<Rightarrow> string \<Rightarrow> os \<Rightarrow> (go_error option \<times> ofile) \<times> os" where
  "f_Write f bs w =
     (let put = (\<lambda>xs. upd_ino (f_ino f) (\<lambda>n. n\<lparr>i_data := write_at (f_off f) xs (i_data n)\<rparr>));
          part = take (partial w) bs; w' = w\<lparr>dsk := put part (dsk w), hist := hist w @ [put part (dsk w)]\<rparr>
      in case fault w of
           Some e \<Rightarrow> ((Some e, f\<lparr>f_off := f_off f + length part\<rparr>), w'\<lparr>tick := Suc (tick w)\<rparr>)
         | None \<Rightarrow> ((None, f\<lparr>f_off := f_off f + length bs\<rparr>), advance (put bs (dsk w)) w'))"

definition f_Sync :: "ofile \<Rightarrow> os \<Rightarrow> go_error option \<times> os" where
  "f_Sync f w = unit_result (observe (\<lambda>d. Inr ()) w)"

definition f_Close :: "ofile \<Rightarrow> os \<Rightarrow> go_error option \<times> os" where
  "f_Close f w = unit_result (observe (\<lambda>d. Inr ()) w)"

definition os_Remove :: "string \<Rightarrow> os \<Rightarrow> go_error option \<times> os" where
  "os_Remove p w = unit_result (commit (\<lambda>d. case ent d p of
       Some (FileEnt i) \<Rightarrow> Inr ((), del_ent p d)
     | Some (DirEnt m) \<Rightarrow> if children d p = [] then Inr ((), del_ent p d)
                        else Inl (path_error ''remove'' p [] ''directory not empty'')
     | None \<Rightarrow> Inl (enoent ''remove'' p)) w)"

definition os_Rename :: "string \<Rightarrow> string \<Rightarrow> os \<Rightarrow> go_error option \<times> os" where
  "os_Rename p q w = unit_result (commit (\<lambda>d. case (ent d p, ent d q) of
       (Some (FileEnt i), Some (DirEnt m)) \<Rightarrow> Inl (path_error ''rename'' p [OsErrExist] ''file exists'')
     | (Some (FileEnt i), _) \<Rightarrow> Inr ((), set_ent q (FileEnt i) (del_ent p d))
     | _ \<Rightarrow> Inl (enoent ''rename'' p)) w)"

definition os_Chown :: "string \<Rightarrow> nat \<times> nat \<Rightarrow> os \<Rightarrow> go_error option \<times> os" where
  "os_Chown p own w = unit_result (commit (\<lambda>d. case ent d p of
       Some (FileEnt i) \<Rightarrow> Inr ((), upd_ino i (\<lambda>n. n\<lparr>i_owner := own\<rparr>) d)
     | Some (DirEnt m) \<Rightarrow> Inr ((), d)
     | None \<Rightarrow> Inl (enoent ''chown'' p)) w)"

text \<open>RemoveAll takes an entry and everything below it; a failing one may have taken part of it.\<close>

definition under :: "string \<Rightarrow> string \<Rightarrow> bool" where
  "under p q = (q = p \<or> HasPrefix q (dir_prefix p))"

definition keep_ents :: "(string \<Rightarrow> bool) \<Rightarrow> disk \<Rightarrow> disk" where
  "keep_ents P d = d\<lparr>ents := filter (\<lambda>x. P (fst x)) (ents d)\<rparr>"

definition os_RemoveAll :: "string \<Rightarrow> os \<Rightarrow> go_error option \<times> os" where
  "os_RemoveAll p w = (case fault w of
       Some e \<Rightarrow> (Some e, advance (keep_ents (\<lambda>q. \<not> under p q \<or>
           q \<notin> set (take (partial w) (filter (under p) (map fst (ents (dsk w)))))) (dsk w)) w)
     | None \<Rightarrow> (None, advance (keep_ents (\<lambda>q. \<not> under p q) (dsk w)) w))"

lemmas os_call_defs = os_ReadFile_def os_Stat_def os_ReadDir_def os_OpenTrunc_def os_OpenExcl_def
  f_Chmod_def f_Sync_def f_Close_def os_Remove_def os_Rename_def os_Chown_def
  observe_def commit_def unit_result_def

section \<open>Entries and inodes\<close>

lemma ent_set_ent [simp]: "ent (set_ent p e d) q = (if q = p then Some e else ent d q)"
proof -
  have "map_of (filter (\<lambda>x. fst x \<noteq> p) xs) q = (if q = p then None else map_of xs q)" for xs :: "(string \<times> dirent) list"
    by (induction xs) auto
  then show ?thesis by (simp add: ent_def set_ent_def)
qed

lemma ent_del_ent [simp]: "ent (del_ent p d) q = (if q = p then None else ent d q)"
proof -
  have "map_of (filter (\<lambda>x. fst x \<noteq> p) xs) q = (if q = p then None else map_of xs q)" for xs :: "(string \<times> dirent) list"
    by (induction xs) auto
  then show ?thesis by (simp add: ent_def del_ent_def)
qed

lemma ent_upd_ino [simp]: "ent (upd_ino i f d) q = ent d q"
  by (simp add: ent_def upd_ino_def)

lemma ent_inodes [simp]: "ent (d\<lparr>inodes := x\<rparr>) q = ent d q"
  by (simp add: ent_def)

lemma inodes_simps [simp]:
  "inodes (set_ent p e d) = inodes d" "inodes (del_ent p d) = inodes d"
  "inodes (upd_ino i f d) = (if i < length (inodes d) then (inodes d)[i := f (inodes d ! i)] else inodes d)"
  by (simp_all add: set_ent_def del_ent_def upd_ino_def)

lemma is_dir_upd_ino [simp]: "is_dir (upd_ino i f d) p = is_dir d p"
  by (simp add: is_dir_def)

lemma file_inos_iff: "distinct (map fst (ents d)) \<Longrightarrow> i \<in> set (file_inos d) \<longleftrightarrow> (\<exists>p. ent d p = Some (FileEnt i))"
  by (force simp: file_inos_def ent_def split: dirent.splits)

lemma file_inos_filter:
  "\<exists>as. file_inos (d\<lparr>ents := filter P (ents d)\<rparr>) = as \<and> set as \<subseteq> set (file_inos d) \<and> (distinct (file_inos d) \<longrightarrow> distinct as)"
proof -
  define g :: "string \<times> dirent \<Rightarrow> nat list"
    where "g = (\<lambda>(p, e). case e of FileEnt i \<Rightarrow> [i] | DirEnt m \<Rightarrow> [])"
  have sub: "set (concat (map g (filter P xs))) \<subseteq> set (concat (map g xs))" for xs by auto
  have "distinct (concat (map g xs)) \<longrightarrow> distinct (concat (map g (filter P xs)))" for xs
  proof (induction xs)
    case (Cons x xs)
    then show ?case using sub [of xs] by auto
  qed simp
  with sub show ?thesis by (auto simp: file_inos_def g_def)
qed

lemma wf_diskI:
  assumes "distinct (map fst (ents d))" "distinct (file_inos d)"
    "\<And>p i. ent d p = Some (FileEnt i) \<Longrightarrow> i < length (inodes d)"
  shows "wf_disk d"
  using assms by (auto simp: wf_disk_def list_all_iff file_inos_iff)

lemma wf_disk_ent_less: "wf_disk d \<Longrightarrow> ent d p = Some (FileEnt i) \<Longrightarrow> i < length (inodes d)"
  by (auto simp: wf_disk_def list_all_iff file_inos_iff)

text \<open>Without hard links an inode has one name.\<close>

lemma wf_disk_inj:
  assumes "wf_disk d" "ent d p = Some (FileEnt i)" "ent d q = Some (FileEnt i)"
  shows "p = q"
proof (rule ccontr)
  assume ne: "p \<noteq> q"
  have "distinct (concat (map (\<lambda>(p, e). case e of FileEnt i \<Rightarrow> [i] | DirEnt m \<Rightarrow> []) xs)) \<Longrightarrow>
    (p, FileEnt i) \<in> set xs \<Longrightarrow> (q, FileEnt i) \<in> set xs \<Longrightarrow> False" for xs
    using ne by (induction xs) (force split: dirent.splits)+
  with assms show False
    by (auto simp: wf_disk_def file_inos_def ent_def dest: map_of_SomeD)
qed

lemma wf_filter: "wf_disk d \<Longrightarrow> wf_disk (d\<lparr>ents := filter P (ents d)\<rparr>)"
  using file_inos_filter [of P d]
  by (auto simp: wf_disk_def list_all_iff distinct_map_filter dest: subsetD)

lemma wf_del_ent [simp]: "wf_disk d \<Longrightarrow> wf_disk (del_ent p d)"
  unfolding del_ent_def by (rule wf_filter)

lemma wf_set_dir [simp]:
  assumes "wf_disk d" shows "wf_disk (set_ent p (DirEnt m) d)"
proof -
  have "wf_disk (del_ent p d)" using assms by simp
  then show ?thesis
    by (auto simp: wf_disk_def set_ent_def del_ent_def file_inos_def)
qed

lemma wf_set_file:
  assumes "wf_disk d" "i < length (inodes d)" "\<And>q. q \<noteq> p \<Longrightarrow> ent d q \<noteq> Some (FileEnt i)"
  shows "wf_disk (set_ent p (FileEnt i) d)"
proof -
  have wf: "wf_disk (del_ent p d)" using assms(1) by simp
  then have "i \<notin> set (file_inos (del_ent p d))"
    using assms(3) by (auto simp: wf_disk_def file_inos_iff split: if_splits)
  with wf assms(2) show ?thesis
    by (auto simp: wf_disk_def set_ent_def del_ent_def file_inos_def)
qed

lemma wf_upd_ino [simp]: "wf_disk d \<Longrightarrow> wf_disk (upd_ino i f d)"
  by (simp add: wf_disk_def upd_ino_def file_inos_def)

lemma wf_more_inodes: "wf_disk d \<Longrightarrow> wf_disk (d\<lparr>inodes := inodes d @ xs\<rparr>)"
  by (auto simp: wf_disk_def file_inos_def list_all_iff)

lemma wf_new_file: "wf_disk d \<Longrightarrow> wf_disk (snd (new_file p m own d))"
  unfolding new_file_def snd_conv
  by (rule wf_set_file) (auto simp: wf_more_inodes dest: wf_disk_ent_less)

lemma wf_rename:
  assumes "wf_disk d" "ent d p = Some (FileEnt i)"
  shows "wf_disk (set_ent q (FileEnt i) (del_ent p d))"
proof (rule wf_set_file)
  show "i < length (inodes (del_ent p d))" using wf_disk_ent_less [OF assms] by simp
  show "ent (del_ent p d) r \<noteq> Some (FileEnt i)" for r
    using wf_disk_inj [OF assms, of r] by (cases "r = p") auto
qed (use assms in simp)

lemma wf_mkdirs: "wf_disk d \<Longrightarrow> wf_disk (snd (mkdirs m ps d))"
  by (induction m ps d rule: mkdirs.induct) (auto split: option.splits)

section \<open>Which files a call touches\<close>

lemma file_at_del_ent [simp]: "file_at (del_ent p d) q = (if q = p then None else file_at d q)"
  by (simp add: file_at_def split: option.split dirent.split)

lemma file_at_upd_ino_other:
  "wf_disk d \<Longrightarrow> ent d p = Some (FileEnt i) \<Longrightarrow> q \<noteq> p \<Longrightarrow> file_at (upd_ino i f d) q = file_at d q"
  using wf_disk_inj [of d p i q] by (fastforce simp: file_at_def split: option.split dirent.split)

lemma file_at_upd_ino:
  "wf_disk d \<Longrightarrow> ent d p = Some (FileEnt i) \<Longrightarrow> file_at (upd_ino i f d) p = Some (f (inodes d ! i))"
  using wf_disk_ent_less [of d p i] by (simp add: file_at_def)

lemma file_at_ent: "wf_disk d \<Longrightarrow> ent d p = Some (FileEnt i) \<Longrightarrow> file_at d p = Some (inodes d ! i)"
  using wf_disk_ent_less [of d p i] by (simp add: file_at_def)

lemma file_at_new_file_other:
  "wf_disk d \<Longrightarrow> q \<noteq> p \<Longrightarrow> file_at (snd (new_file p m own d)) q = file_at d q"
  using wf_disk_ent_less [of d q]
  by (auto simp: file_at_def new_file_def nth_append split: option.splits dirent.splits)

lemma file_at_rename:
  assumes "wf_disk d" "ent d p = Some (FileEnt i)" "p \<noteq> q"
  shows "file_at (set_ent q (FileEnt i) (del_ent p d)) r =
    (if r = q then file_at d p else if r = p then None else file_at d r)"
  using assms file_at_ent [OF assms(1,2)] wf_disk_ent_less [OF assms(1,2)]
  by (simp add: file_at_def split: option.split dirent.split)

lemma file_at_set_dir:
  "ent d p = None \<Longrightarrow> file_at (set_ent p (DirEnt m) d) q = file_at d q"
  by (simp add: file_at_def split: option.split dirent.split)

lemma file_at_mkdirs: "file_at (snd (mkdirs m ps d)) q = file_at d q"
  by (induction m ps d rule: mkdirs.induct) (auto simp: file_at_set_dir split: option.splits)

lemma write_at_0 [simp]: "write_at 0 xs [] = xs"
  by (simp add: write_at_def)

section \<open>Predicates on every recorded disk\<close>

text \<open>The disk and everything recorded since \<open>h\<close> satisfy a predicate.\<close>

definition stable :: "disk list \<Rightarrow> (disk \<Rightarrow> bool) \<Rightarrow> os \<Rightarrow> bool" where
  "stable h P w = (P (dsk w) \<and> (\<exists>hs. hist w = h @ hs \<and> list_all P hs))"

lemma stable_start: "P (dsk w) \<Longrightarrow> stable (hist w) P w"
  by (simp add: stable_def)

lemma stable_advance [simp]: "stable h P w \<Longrightarrow> P d \<Longrightarrow> stable h P (advance d w)"
  by (auto simp: stable_def advance_def)

lemma stable_mono: "stable h P w \<Longrightarrow> (\<And>d. P d \<Longrightarrow> Q d) \<Longrightarrow> stable h Q w"
  by (auto simp: stable_def list_all_iff)

lemma dsk_advance [simp]: "dsk (advance d w) = d"
  by (simp add: advance_def)

lemma stable_dsk: "stable h P w \<Longrightarrow> P (dsk w)"
  by (simp add: stable_def)

lemma stable_observe [simp]: "stable h P w \<Longrightarrow> stable h P (snd (observe f w))"
  by (simp add: observe_def stable_dsk)

lemma dsk_observe [simp]: "dsk (snd (observe f w)) = dsk w"
  by (simp add: observe_def)

lemma stable_commit:
  "stable h P w \<Longrightarrow> (\<And>x d'. f (dsk w) = Inr (x, d') \<Longrightarrow> P d') \<Longrightarrow> stable h P (snd (commit f w))"
  by (auto simp: commit_def stable_dsk split: option.splits sum.splits)

lemma snd_unit_result [simp]: "snd (unit_result r) = snd r"
  by (simp add: unit_result_def)

lemma stable_sync_close [simp]:
  "stable h P w \<Longrightarrow> stable h P (snd (f_Sync f w))" "stable h P w \<Longrightarrow> stable h P (snd (f_Close f w))"
  "dsk (snd (f_Sync f w)) = dsk w" "dsk (snd (f_Close f w)) = dsk w"
  by (simp_all add: f_Sync_def f_Close_def)

text \<open>The disks on which the file at one path is what it was.\<close>

definition holds_at :: "string \<Rightarrow> inode option \<Rightarrow> disk \<Rightarrow> bool" where
  "holds_at q x d = (wf_disk d \<and> file_at d q = x)"

lemma stable_Remove:
  assumes "stable h (holds_at q x) w" "p \<noteq> q"
  shows "stable h (holds_at q x) (snd (os_Remove p w))"
  unfolding os_Remove_def snd_unit_result
  using stable_dsk [OF assms(1)] assms(2)
  by (intro stable_commit [OF assms(1)])
    (auto simp: holds_at_def split: option.splits dirent.splits if_splits)

lemma stable_MkdirAll:
  assumes "stable h (holds_at q x) w"
  shows "stable h (holds_at q x) (snd (os_MkdirAll p m w))"
proof -
  have "holds_at q x (snd (mkdirs n ps (dsk w)))" for n ps
    using stable_dsk [OF assms] by (simp add: holds_at_def wf_mkdirs file_at_mkdirs)
  then show ?thesis using assms by (simp add: os_MkdirAll_def case_prod_beta split: option.split)
qed

text \<open>A handle on the file at a path and what is known of the file.\<close>

definition opened :: "string \<Rightarrow> ofile \<Rightarrow> (inode \<Rightarrow> bool) \<Rightarrow> os \<Rightarrow> bool" where
  "opened p f G w = (ent (dsk w) p = Some (FileEnt (f_ino f)) \<and> G (inodes (dsk w) ! f_ino f))"

lemma OpenTrunc_spec:
  assumes "stable h (holds_at q x) w" "p \<noteq> q" "os_OpenTrunc p m w = (r, w')"
  shows "stable h (holds_at q x) w'"
    and "r = Inr f \<Longrightarrow> f_off f = 0 \<and> opened p f (\<lambda>n. i_data n = []) w'"
proof -
  have d: "wf_disk (dsk w)" "file_at (dsk w) q = x" using assms(1) by (auto simp: stable_def holds_at_def)
  have nf: "holds_at q x d" if "new_file p (umasked w m) (euser w) (dsk w) = (g, d)" for g d
    using wf_new_file [OF d(1), of p "umasked w m" "euser w"] that d(2) assms(2)
      file_at_new_file_other [OF d(1), of q p "umasked w m" "euser w"]
    by (simp add: holds_at_def)
  have "stable h (holds_at q x) (snd (os_OpenTrunc p m w))"
    unfolding os_OpenTrunc_def using assms(2) d
    by (intro stable_commit [OF assms(1)])
      (auto simp: holds_at_def file_at_upd_ino_other nf split: option.splits dirent.splits if_splits
        dest: nf [unfolded holds_at_def])
  with assms(3) show "stable h (holds_at q x) w'" by simp
  show "r = Inr f \<Longrightarrow> f_off f = 0 \<and> opened p f (\<lambda>n. i_data n = []) w'"
    using assms(3) d wf_disk_ent_less [OF d(1), of p]
    by (auto simp: os_OpenTrunc_def commit_def opened_def new_file_def split: option.splits dirent.splits if_splits)
qed

lemma stable_handle_upd:
  assumes "stable h (holds_at q x) w" "p \<noteq> q" "opened p f G w"
  shows "holds_at q x (upd_ino (f_ino f) g (dsk w))"
  using assms(2,3) stable_dsk [OF assms(1)] by (auto simp: holds_at_def opened_def file_at_upd_ino_other)

lemma Chmod_spec:
  assumes "stable h (holds_at q x) w" "p \<noteq> q" "opened p f G w" "f_Chmod f m w = (r, w')"
  shows "stable h (holds_at q x) w'"
    and "r = None \<Longrightarrow> (\<And>n. G n \<Longrightarrow> H (n\<lparr>i_mode := m\<rparr>)) \<Longrightarrow> opened p f H w'"
proof -
  have "stable h (holds_at q x) (snd (f_Chmod f m w))"
    unfolding f_Chmod_def snd_unit_result
    by (rule stable_commit [OF assms(1)]) (auto simp: stable_handle_upd [OF assms(1-3)])
  with assms(4) show "stable h (holds_at q x) w'" by simp
  have "f_ino f < length (inodes (dsk w))"
    using assms(3) wf_disk_ent_less stable_dsk [OF assms(1)] by (auto simp: opened_def holds_at_def)
  then show "r = None \<Longrightarrow> (\<And>n. G n \<Longrightarrow> H (n\<lparr>i_mode := m\<rparr>)) \<Longrightarrow> opened p f H w'"
    using assms(3,4)
    by (auto simp: f_Chmod_def unit_result_def commit_def opened_def split: option.splits)
qed

lemma Write_spec:
  assumes "stable h (holds_at q x) w" "p \<noteq> q" "opened p f G w" "f_Write f bs w = ((r, f'), w')"
  shows "stable h (holds_at q x) w'"
    and "r = None \<Longrightarrow> f_off f = 0 \<Longrightarrow> (\<And>n. G n \<Longrightarrow> i_data n = []) \<Longrightarrow> (\<And>n. G n \<Longrightarrow> H (n\<lparr>i_data := bs\<rparr>)) \<Longrightarrow> opened p f H w'"
    and "r = None \<Longrightarrow> f_ino f' = f_ino f"
proof -
  note up = stable_handle_upd [OF assms(1-3)]
  obtain hs where hist: "hist w = h @ hs" "list_all (holds_at q x) hs" using assms(1) by (auto simp: stable_def)
  show "stable h (holds_at q x) w'"
    using assms(4) up hist
    by (auto simp: f_Write_def Let_def stable_def advance_def split: option.splits)
  have "f_ino f < length (inodes (dsk w))"
    using assms(3) wf_disk_ent_less stable_dsk [OF assms(1)] by (auto simp: opened_def holds_at_def)
  then show "r = None \<Longrightarrow> f_off f = 0 \<Longrightarrow> (\<And>n. G n \<Longrightarrow> i_data n = []) \<Longrightarrow> (\<And>n. G n \<Longrightarrow> H (n\<lparr>i_data := bs\<rparr>)) \<Longrightarrow> opened p f H w'"
    using assms(3,4)
    by (auto simp: f_Write_def Let_def opened_def split: option.splits)
  show "r = None \<Longrightarrow> f_ino f' = f_ino f"
    using assms(4) by (auto simp: f_Write_def Let_def split: option.splits)
qed

lemma opened_file_at:
  "wf_disk (dsk w) \<Longrightarrow> opened p f G w \<Longrightarrow> \<exists>n. file_at (dsk w) p = Some n \<and> G n"
  by (auto simp: opened_def file_at_ent)

lemma opened_dsk: "dsk w' = dsk w \<Longrightarrow> opened p f G w' = opened p f G w"
  by (simp add: opened_def)

lemma Rename_spec:
  assumes "stable h (holds_at q x) w" "p \<noteq> q" "file_at (dsk w) p = Some n" "os_Rename p q w = (r, w')"
  shows "r = None \<Longrightarrow> file_at (dsk w') q = Some n \<and> ent (dsk w') p = None \<and> wf_disk (dsk w')"
    and "r = None \<Longrightarrow> hist w' = hist w @ [dsk w']"
    and "r \<noteq> None \<Longrightarrow> stable h (holds_at q x) w'"
proof -
  have wf: "wf_disk (dsk w)" using stable_dsk [OF assms(1)] by (simp add: holds_at_def)
  obtain i where i: "ent (dsk w) p = Some (FileEnt i)"
    using assms(3) by (auto simp: file_at_def split: option.splits dirent.splits)
  note fr = file_at_rename [OF wf i assms(2)]
  show "r = None \<Longrightarrow> file_at (dsk w') q = Some n \<and> ent (dsk w') p = None \<and> wf_disk (dsk w')"
    using assms(2-4) i wf_rename [OF wf i] fr
    by (auto simp: os_Rename_def commit_def unit_result_def split: option.splits dirent.splits)
  show "r = None \<Longrightarrow> hist w' = hist w @ [dsk w']"
    using assms(4) i
    by (auto simp: os_Rename_def commit_def unit_result_def advance_def split: option.splits dirent.splits)
  show "r \<noteq> None \<Longrightarrow> stable h (holds_at q x) w'"
    using assms(1,4) i stable_dsk [OF assms(1)]
    by (auto simp: os_Rename_def commit_def unit_result_def split: option.splits dirent.splits)
qed

lemma Rename_fails: "os_Rename p q w = (Some e, w') \<Longrightarrow> stable h P w \<Longrightarrow> stable h P w'"
  by (auto simp: os_Rename_def commit_def unit_result_def stable_dsk split: option.splits dirent.splits sum.splits)

lemma Rename_frame:
  assumes "os_Rename p q w = (r, w')" "stable h (holds_at s x) w" "s \<noteq> p" "s \<noteq> q" "p \<noteq> q"
  shows "stable h (holds_at s x) w'"
proof -
  have "wf_disk (dsk w)" "file_at (dsk w) s = x" using stable_dsk [OF assms(2)] by (simp_all add: holds_at_def)
  with assms(3-5) have "stable h (holds_at s x) (snd (os_Rename p q w))"
    unfolding os_Rename_def snd_unit_result
    by (intro stable_commit [OF assms(2)])
      (auto simp: holds_at_def wf_rename file_at_rename split: option.splits dirent.splits)
  with assms(1) show ?thesis by simp
qed

section \<open>Trees\<close>

text \<open>Every entry has its directory.\<close>

definition tree_closed :: "disk \<Rightarrow> bool" where
  "tree_closed d = list_all (\<lambda>x. is_dir d (filepath_Dir (fst x))) (ents d)"

lemma Clean_trailing: "filepath_IsAbs p \<Longrightarrow> filepath_Clean (p @ ''/'') = filepath_Clean p"
proof -
  have "split_on (CHR ''/'') (p @ [CHR ''/'']) = split_on (CHR ''/'') p @ [[]]"
    using split_on_sep [of "CHR ''/''" p "[]"] by simp
  moreover assume "filepath_IsAbs p"
  moreover from this have "filepath_IsAbs (p @ ''/'')" by (auto simp: filepath_IsAbs_def HasPrefix_iff)
  ultimately show ?thesis by (simp add: filepath_Clean_def Let_def clean_step_def)
qed

lemma Clean_dir_prefix: "clean_abs p \<Longrightarrow> filepath_Clean (dir_prefix p) = p"
  using Clean_trailing [of p] by (cases "p = ''/''") (auto simp: clean_abs_def dir_prefix_def)

lemma clean_child:
  assumes "clean_abs p" "good_component c"
  shows "clean_abs (dir_prefix p @ c)"
proof -
  have "filepath_Clean (p @ ''/'' @ c) = dir_prefix p @ c"
    using Clean_snoc [of p c] assms by (simp add: clean_abs_def)
  moreover have "filepath_Clean (''/'' @ c) = ''/'' @ c"
    using assms(2) by (simp add: filepath_Clean_def Let_def filepath_IsAbs_def HasPrefix_def good_component_def clean_step_def)
  ultimately show ?thesis
    using assms dir_prefix_abs [of p c] by (auto simp: clean_abs_def dir_prefix_def split: if_splits)
qed

lemma Dir_child:
  assumes "clean_abs p" "good_component c"
  shows "filepath_Dir (dir_prefix p @ c) = p"
proof -
  obtain x where x: "dir_prefix p = x @ ''/''" by (cases "p = ''/''") (auto simp: dir_prefix_def)
  have "CHR ''/'' \<notin> set (rev c)" using assms(2) by (simp add: good_component_def)
  then have "dropWhile (\<lambda>c. c \<noteq> CHR ''/'') (rev c @ rev (x @ ''/'')) = rev (x @ ''/'')"
    by (subst dropWhile_append2) auto
  then show ?thesis using Clean_dir_prefix [OF assms(1)] by (simp add: filepath_Dir_def x)
qed

lemma is_dir_ent: "is_dir d p \<Longrightarrow> p \<noteq> ''/'' \<Longrightarrow> p \<noteq> ''.'' \<Longrightarrow> \<exists>m. (p, DirEnt m) \<in> set (ents d)"
  by (auto simp: is_dir_def ent_def split: option.splits dirent.splits dest: map_of_SomeD)

lemma ent_mem: "ent d p = Some e \<Longrightarrow> (p, e) \<in> set (ents d)"
  by (simp add: ent_def map_of_SomeD)

lemma children_mem:
  assumes "(dir_prefix p @ c, e) \<in> set (ents d)" "good_component c"
  shows "c \<in> set (children d p)"
  using assms by (force simp: children_def)

lemma children_good: "c \<in> set (children d p) \<Longrightarrow> good_component c"
  by (simp add: children_def)

lemma ent_keep_ents: "ent (keep_ents P d) q = (if P q then ent d q else None)"
proof -
  have "map_of (filter (\<lambda>x. P (fst x)) xs) q = (if P q then map_of xs q else None)" for xs :: "(string \<times> dirent) list"
    by (induction xs) auto
  then show ?thesis by (simp add: ent_def keep_ents_def)
qed

lemma file_at_keep_ents: "file_at (keep_ents P d) q = (if P q then file_at d q else None)"
proof -
  have "inodes (keep_ents P d) = inodes d" by (simp add: keep_ents_def)
  then show ?thesis by (simp add: file_at_def ent_keep_ents split: option.split dirent.split)
qed

lemma wf_keep_ents: "wf_disk d \<Longrightarrow> wf_disk (keep_ents P d)"
  unfolding keep_ents_def by (rule wf_filter)

lemma keep_ents_keep_ents: "keep_ents P (keep_ents Q d) = keep_ents (\<lambda>q. P q \<and> Q q) d"
  by (simp add: keep_ents_def conj_commute)

lemma RemoveAll_keeps: "\<exists>P. dsk (snd (os_RemoveAll p w)) = keep_ents P (dsk w)"
  by (auto simp: os_RemoveAll_def split: option.splits)

lemma RemoveAll_ok: "os_RemoveAll p w = (None, w') \<Longrightarrow> dsk w' = keep_ents (\<lambda>q. \<not> under p q) (dsk w)"
  by (auto simp: os_RemoveAll_def split: option.splits)

end
