(* ===== verification/Keycache.thy ===== *)
theory Keycache
  imports Utf8 GoTime Fs
begin

text \<open>
  Package keycache (\<^verbatim>\<open>src/internal/keycache/cache.go\<close>): the last-known-good answers of the
  provider, one file per account and fingerprint below the cache directory. The model has the
  file format, the path of an entry, the atomic writer call by call, and Put, Get and Purge on
  the disk of theory Fs; what c.now() returns is the argument \<open>now\<close> of the operation. The
  lemmas show that entries stay inside the directory, that at every moment an entry is the old
  or the new one, and that the cache refines a map from paths to answers with their time.
\<close>

section \<open>The package\<close>

definition headerPrefix :: string where "headerPrefix = ''# oidc-ssh cache v1 ''"
definition allKeysName :: string where "allKeysName = ''_all''"
definition tmpSuffix :: string where "tmpSuffix = ''.tmp''"
definition dirMode :: nat where "dirMode = 448"
definition fileMode :: nat where "fileMode = 384"

definition is_lower :: "char \<Rightarrow> bool" where
  "is_lower c = (97 \<le> byte c \<and> byte c \<le> 122)"

definition is_upper :: "char \<Rightarrow> bool" where
  "is_upper c = (65 \<le> byte c \<and> byte c \<le> 90)"

text \<open>The regular expression \<^verbatim>\<open>^[a-z_][a-z0-9_-]{0,31}$\<close>.\<close>

fun accountRE :: "string \<Rightarrow> bool" where
  "accountRE [] = False"
| "accountRE (c # s) =
     ((is_lower c \<or> c = CHR ''_'') \<and> length s \<le> 31
      \<and> list_all (\<lambda>d. is_lower d \<or> is_digit d \<or> d = CHR ''_'' \<or> d = CHR ''-'') s)"

record Cache =
  c_dir :: string
  c_ttl :: duration

definition enabled :: "Cache \<Rightarrow> bool" where
  "enabled c = (0 < c_ttl c)"

definition keep_rune :: "rune \<Rightarrow> string" where
  "keep_rune r =
     (if (65 \<le> r \<and> r \<le> 90) \<or> (97 \<le> r \<and> r \<le> 122) \<or> (48 \<le> r \<and> r \<le> 57) then encode_rune r
      else if r = byte (CHR ''/'') then ''_''
      else if r = byte (CHR ''+'') then ''-''
      else [])"

definition sanitizeFingerprint :: "string \<Rightarrow> string" where
  "sanitizeFingerprint fp = concat (map keep_rune (runes fp))"

definition entry_name :: "string \<Rightarrow> string" where
  "entry_name fingerprint =
     (if fingerprint \<noteq> [] then
        (let name = sanitizeFingerprint fingerprint in if name = [] then allKeysName else name)
      else allKeysName)"

definition path :: "golib \<Rightarrow> Cache \<Rightarrow> string \<Rightarrow> string \<Rightarrow> go_error + string" where
  "path L c account fingerprint =
     (if \<not> accountRE account then
        Inl (wrapf [] (sentinel_error ErrAccount ''keycache: invalid account name'') ('': '' @ quoted L account))
      else Inr (filepath_Join [c_dir c, account, entry_name fingerprint]))"

text \<open>What every failing step after the open does: remove the temporary file and report.\<close>

definition abandon :: "string \<Rightarrow> string \<Rightarrow> go_error \<Rightarrow> os \<Rightarrow> go_error option \<times> os" where
  "abandon tmp what e w = (Some (wrapf (''keycache: '' @ what @ '': '') e []), snd (os_Remove tmp w))"

definition sync_and_rename :: "string \<Rightarrow> string \<Rightarrow> ofile \<Rightarrow> os \<Rightarrow> go_error option \<times> os" where
  "sync_and_rename tmp p f w =
     (case f_Sync f w of
        (Some e, w1) \<Rightarrow> abandon tmp ''sync temp file'' e (snd (f_Close f w1))
      | (None, w1) \<Rightarrow> (case f_Close f w1 of
        (Some e, w2) \<Rightarrow> abandon tmp ''close temp file'' e w2
      | (None, w2) \<Rightarrow> (case os_Rename tmp p w2 of
        (Some e, w3) \<Rightarrow> abandon tmp ''rename into place'' e w3
      | (None, w3) \<Rightarrow> (None, w3))))"

definition writeAtomic :: "string \<Rightarrow> string \<Rightarrow> os \<Rightarrow> go_error option \<times> os" where
  "writeAtomic p data w =
     (let tmp = p @ tmpSuffix
      in case os_OpenTrunc tmp fileMode w of
        (Inl e, w1) \<Rightarrow> (Some (wrapf ''keycache: create temp file: '' e []), w1)
      | (Inr f, w1) \<Rightarrow> (case f_Chmod f fileMode w1 of
        (Some e, w2) \<Rightarrow> abandon tmp ''chmod temp file'' e (snd (f_Close f w2))
      | (None, w2) \<Rightarrow> (case f_Write f data w2 of
        ((Some e, f'), w3) \<Rightarrow> abandon tmp ''write temp file'' e (snd (f_Close f' w3))
      | ((None, f'), w3) \<Rightarrow> sync_and_rename tmp p f' w3)))"

definition encode_entry :: "time \<Rightarrow> string list \<Rightarrow> string" where
  "encode_entry now ls = unlines ((headerPrefix @ Format_RFC3339 now) # ls)"

definition Put :: "golib \<Rightarrow> Cache \<Rightarrow> time \<Rightarrow> string \<Rightarrow> string \<Rightarrow> string list \<Rightarrow> os \<Rightarrow> go_error option \<times> os" where
  "Put L c now account fingerprint ls w =
     (if \<not> enabled c \<or> ls = [] then (None, w)
      else case path L c account fingerprint of
        Inl e \<Rightarrow> (Some e, w)
      | Inr p \<Rightarrow> (case os_MkdirAll (filepath_Dir p) dirMode w of
          (Some e, w') \<Rightarrow> (Some (wrapf ''keycache: create dir: '' e []), w')
        | (None, w') \<Rightarrow> writeAtomic p (encode_entry now ls) w'))"

definition parse :: "golib \<Rightarrow> string \<Rightarrow> go_error + (string list \<times> time)" where
  "parse L raw =
     (case Scan_lines raw of
        ([], ok) \<Rightarrow> Inl (errors_New ''keycache: empty file'')
      | (first # rest, ok) \<Rightarrow>
          if \<not> HasPrefix first headerPrefix then Inl (errors_New ''keycache: missing header'')
          else (case Parse_RFC3339 (lib_time L) (TrimPrefix first headerPrefix) of
            None \<Rightarrow> Inl (errors_New ''keycache: bad header timestamp'')
          | Some written \<Rightarrow>
              (let ls = filter (\<lambda>l. l \<noteq> []) rest in
               if \<not> ok then Inl (errors_New ''keycache: read: bufio.Scanner: token too long'')
               else if ls = [] then Inl (errors_New ''keycache: no lines'')
               else Inr (ls, written))))"

definition Get :: "golib \<Rightarrow> Cache \<Rightarrow> time \<Rightarrow> string \<Rightarrow> string \<Rightarrow> os \<Rightarrow> (string list \<times> duration) option \<times> os" where
  "Get L c now account fingerprint w =
     (if \<not> enabled c then (None, w)
      else case path L c account fingerprint of
        Inl e \<Rightarrow> (None, w)
      | Inr p \<Rightarrow> (case os_ReadFile p w of
          (Inl e, w1) \<Rightarrow> (None, w1)
        | (Inr raw, w1) \<Rightarrow> (case parse L raw of
            Inl e \<Rightarrow> (None, snd (os_Remove p w1))
          | Inr (ls, written) \<Rightarrow>
              (let age = time_Sub now written in
               if age < 0 \<or> c_ttl c < age then (None, snd (os_Remove p w1))
               else (Some (ls, age), w1)))))"

fun purge_loop :: "string \<Rightarrow> string list \<Rightarrow> os \<Rightarrow> go_error option \<times> os" where
  "purge_loop dir [] w = (None, w)"
| "purge_loop dir (e # es) w =
     (case os_RemoveAll (filepath_Join [dir, e]) w of
        (Some err, w') \<Rightarrow> (Some (wrapf ''keycache: purge: '' err []), w')
      | (None, w') \<Rightarrow> purge_loop dir es w')"

definition Purge :: "Cache \<Rightarrow> os \<Rightarrow> go_error option \<times> os" where
  "Purge c w =
     (if \<not> enabled c then (None, w)
      else case os_ReadDir (c_dir c) w of
        (Inl e, w') \<Rightarrow> if Is e OsErrNotExist then (None, w')
                      else (Some (wrapf ''keycache: read dir: '' e []), w')
      | (Inr es, w') \<Rightarrow> purge_loop (c_dir c) es w')"

section \<open>Where an entry lives\<close>

definition name_char :: "char \<Rightarrow> bool" where
  "name_char c = (is_lower c \<or> is_upper c \<or> is_digit c \<or> c = CHR ''_'' \<or> c = CHR ''-'')"

lemma name_char_no_special: "name_char c \<Longrightarrow> c \<noteq> CHR ''/'' \<and> c \<noteq> CHR ''.''"
  by (auto simp: name_char_def is_lower_def is_upper_def is_digit_def byte_def)

lemma keep_rune_chars: "scalar r \<Longrightarrow> list_all name_char (keep_rune r)"
proof -
  have "list_all name_char (encode_rune r)" if "(65 \<le> r \<and> r \<le> 90) \<or> (97 \<le> r \<and> r \<le> 122) \<or> (48 \<le> r \<and> r \<le> 57)"
  proof -
    have e: "encode_rune r = [char_of r]" using that by (auto simp: encode_rune_def encode_bytes_def)
    from that show ?thesis by (auto simp: e name_char_def is_lower_def is_upper_def is_digit_def)
  qed
  then show ?thesis by (auto simp: keep_rune_def name_char_def)
qed

lemma entry_name_chars: "list_all name_char (entry_name fp) \<and> entry_name fp \<noteq> []"
proof -
  have "list_all name_char (sanitizeFingerprint fp)"
    using keep_rune_chars runes_scalar by (fastforce simp: sanitizeFingerprint_def list_all_iff)
  moreover have "list_all name_char allKeysName"
    by (simp add: allKeysName_def name_char_def is_lower_def byte_def)
  ultimately show ?thesis by (simp add: entry_name_def Let_def allKeysName_def)
qed

lemma accountRE_chars: "accountRE a \<Longrightarrow> list_all name_char a \<and> a \<noteq> []"
  by (cases a) (auto simp: name_char_def list_all_iff)

lemma name_good: "list_all name_char n \<Longrightarrow> n \<noteq> [] \<Longrightarrow> good_component n"
  using name_char_no_special by (fastforce simp: good_component_def list_all_iff)

definition cache_prefix :: "Cache \<Rightarrow> string" where
  "cache_prefix c = dir_prefix (filepath_Clean (c_dir c))"

lemma filepath_Join3:
  assumes "filepath_IsAbs dir" "good_component a" "good_component b"
  shows "filepath_Join [dir, a, b] = dir_prefix (filepath_Clean dir) @ a @ ''/'' @ b"
proof -
  have ne: "dir \<noteq> []" using assms(1) by (auto simp: filepath_IsAbs_def HasPrefix_def)
  have abs: "filepath_IsAbs (dir @ ''/'' @ a)"
    using assms(1) by (auto simp: filepath_IsAbs_def HasPrefix_iff)
  have c: "filepath_Clean (dir @ ''/'' @ a) = dir_prefix (filepath_Clean dir) @ a"
    by (rule Clean_snoc) (use assms in auto)
  have "filepath_Clean (dir @ ''/'' @ a) \<noteq> ''/''"
    using assms(2) c by (cases "filepath_Clean dir") (auto simp: dir_prefix_def good_component_def)
  with Clean_snoc [OF abs assms(3)] c ne show ?thesis
    by (simp add: filepath_Join_def dir_prefix_def)
qed

lemma path_shape:
  assumes "filepath_IsAbs (c_dir c)" "path L c a fp = Inr p"
  shows "p = cache_prefix c @ a @ ''/'' @ entry_name fp" "list_all name_char a" "a \<noteq> []"
  using assms accountRE_chars [of a] entry_name_chars [of fp] name_good
  by (auto simp: path_def cache_prefix_def filepath_Join3 split: if_splits)

lemma tmp_not_entry:
  assumes "filepath_IsAbs (c_dir c)" "path L c a fp = Inr p" "path L c a' fp' = Inr p'"
  shows "p @ tmpSuffix \<noteq> p'"
proof
  assume "p @ tmpSuffix = p'"
  then have "a @ ''/'' @ entry_name fp @ tmpSuffix = a' @ ''/'' @ entry_name fp'"
    using path_shape [OF assms(1,2)] path_shape [OF assms(1,3)] by simp
  then have "CHR ''.'' \<in> set (a' @ ''/'' @ entry_name fp')" by (metis Un_iff list.set_intros(1) set_append tmpSuffix_def)
  then show False
    using path_shape(2) [OF assms(1,3)] entry_name_chars [of fp'] name_char_no_special
    by (auto simp: list_all_iff)
qed

section \<open>The atomic writer\<close>

text \<open>
  How a write to \<open>p\<close> ends: with an error and \<open>q\<close> untouched on every disk so far, or with a
  rename that is the last call, from a temporary file that holds all the data.
\<close>

definition ends_well :: "disk list \<Rightarrow> string \<Rightarrow> inode option \<Rightarrow> string \<Rightarrow> string \<Rightarrow> (inode \<Rightarrow> bool) \<Rightarrow> go_error option \<Rightarrow> os \<Rightarrow> bool" where
  "ends_well h q x tmp p G r w' =
     ((r \<noteq> None \<and> stable h (holds_at q x) w') \<or>
      (r = None \<and> (\<exists>w5 n. stable h (holds_at q x) w5 \<and> file_at (dsk w5) tmp = Some n \<and> G n
         \<and> os_Rename tmp p w5 = (None, w'))))"

lemma ends_well_abandon:
  "tmp \<noteq> q \<Longrightarrow> abandon tmp what e w = (r, w') \<Longrightarrow> stable h (holds_at q x) w \<Longrightarrow> ends_well h q x tmp p G r w'"
  by (auto simp: ends_well_def abandon_def stable_Remove)

lemma sync_and_rename_run:
  assumes "stable h (holds_at q x) w" "tmp \<noteq> q" "opened tmp g G w" "sync_and_rename tmp p f w = (r, w')"
  shows "ends_well h q x tmp p G r w'"
proof -
  note ab = ends_well_abandon [OF assms(2)]
  obtain o1 w1 where 1: "f_Sync f w = (o1, w1)" by fastforce
  then have s1: "stable h (holds_at q x) w1" "dsk w1 = dsk w"
    using stable_sync_close(1) [OF assms(1), of f] stable_sync_close(3) [of f w] by simp_all
  obtain o2 w2 where 2: "f_Close f w1 = (o2, w2)" by fastforce
  then have s2: "stable h (holds_at q x) w2" "dsk w2 = dsk w"
    using stable_sync_close(2) [OF s1(1), of f] stable_sync_close(4) [of f w1] s1 by simp_all
  show ?thesis
  proof (cases "o1 = None \<and> o2 = None")
    case False
    with assms(4) 1 2 s2 show ?thesis
      by (auto simp: sync_and_rename_def split: option.splits intro: ab)
  next
    case True
    from s2 assms(3) obtain n where n: "file_at (dsk w2) tmp = Some n" "G n"
      using opened_file_at [of w2 tmp g G] opened_dsk [of w2 w] stable_dsk [OF s2(1)]
      by (auto simp: holds_at_def)
    obtain o3 w3 where 3: "os_Rename tmp p w2 = (o3, w3)" by fastforce
    show ?thesis
    proof (cases o3)
      case (Some e)
      then have "stable h (holds_at q x) w3" using Rename_fails 3 s2(1) by blast
      with assms(4) 1 2 3 True Some show ?thesis by (auto simp: sync_and_rename_def intro: ab)
    next
      case None
      with assms(4) 1 2 3 True n s2(1) show ?thesis by (auto simp: sync_and_rename_def ends_well_def)
    qed
  qed
qed

lemma writeAtomic_run:
  assumes "stable h (holds_at q x) w" "q \<noteq> p @ tmpSuffix" "writeAtomic p data w = (r, w')"
  shows "ends_well h q x (p @ tmpSuffix) p (\<lambda>n. i_data n = data \<and> i_mode n = fileMode) r w'"
proof -
  define tmp where "tmp = p @ tmpSuffix"
  have q: "tmp \<noteq> q" using assms(2) tmp_def by simp
  note ab = ends_well_abandon [OF q]
  note run = assms(3) [unfolded writeAtomic_def Let_def, folded tmp_def]
  obtain o1 w1 where 1: "os_OpenTrunc tmp fileMode w = (o1, w1)" by fastforce
  note s1 = OpenTrunc_spec [OF assms(1) q 1]
  have "ends_well h q x tmp p (\<lambda>n. i_data n = data \<and> i_mode n = fileMode) r w'"
  proof (cases o1)
    case (Inl e)
    with run 1 s1(1) show ?thesis by (auto simp: ends_well_def)
  next
    case (Inr f)
    then have f: "f_off f = 0" "opened tmp f (\<lambda>n. i_data n = []) w1" using s1(2) [OF Inr] by auto
    obtain o2 w2 where 2: "f_Chmod f fileMode w1 = (o2, w2)" by fastforce
    note s2 = Chmod_spec [OF s1(1) q f(2) 2]
    show ?thesis
    proof (cases o2)
      case (Some e)
      with run 1 2 Inr s2(1) show ?thesis by (auto intro: ab)
    next
      case None
      have o2: "opened tmp f (\<lambda>n. i_data n = [] \<and> i_mode n = fileMode) w2"
        by (rule s2(2) [OF None]) simp
      obtain o3 f' w3 where 3: "f_Write f data w2 = ((o3, f'), w3)" by (metis prod.exhaust)
      note s3 = Write_spec [OF s2(1) q o2 3]
      have "opened tmp f (\<lambda>n. i_data n = data \<and> i_mode n = fileMode) w3" if "o3 = None"
        by (rule s3(2) [OF that f(1)]) simp_all
      with run 1 2 3 Inr None s3(1) show ?thesis
        by (cases o3) (auto intro: ab sync_and_rename_run [OF _ q])
    qed
  qed
  then show ?thesis by (simp add: tmp_def)
qed

lemma tmp_neq: "p @ tmpSuffix \<noteq> p" "p \<noteq> p @ tmpSuffix"
  by (simp_all add: tmpSuffix_def)

definition old_or_new :: "string \<Rightarrow> inode option \<Rightarrow> string \<Rightarrow> disk \<Rightarrow> bool" where
  "old_or_new p x data d = (file_at d p = x \<or> (\<exists>n. file_at d p = Some n \<and> i_data n = data \<and> i_mode n = fileMode))"

lemma writeAtomic_old_or_new:
  assumes "stable h (holds_at p x) w" "writeAtomic p data w = (r, w')"
  shows "\<exists>hs. hist w' = h @ hs \<and> list_all (old_or_new p x data) hs"
    and "r \<noteq> None \<Longrightarrow> file_at (dsk w') p = x"
    and "r = None \<Longrightarrow> \<exists>n. file_at (dsk w') p = Some n \<and> i_data n = data \<and> i_mode n = fileMode"
    and "wf_disk (dsk w')"
proof -
  have h: "\<exists>hs. hist v = h @ hs \<and> list_all (old_or_new p x data) hs" if "stable h (holds_at p x) v" for v
    using that by (auto simp: stable_def holds_at_def old_or_new_def list_all_iff)
  consider (err) "r \<noteq> None" "stable h (holds_at p x) w'"
    | (ok) w5 n where "r = None" "stable h (holds_at p x) w5" "file_at (dsk w5) (p @ tmpSuffix) = Some n"
      "i_data n = data" "i_mode n = fileMode" "os_Rename (p @ tmpSuffix) p w5 = (None, w')"
    using writeAtomic_run [OF assms(1) tmp_neq(2) assms(2)] unfolding ends_well_def by blast
  then have "(\<exists>hs. hist w' = h @ hs \<and> list_all (old_or_new p x data) hs) \<and> (r \<noteq> None \<longrightarrow> file_at (dsk w') p = x)
    \<and> (r = None \<longrightarrow> (\<exists>n. file_at (dsk w') p = Some n \<and> i_data n = data \<and> i_mode n = fileMode)) \<and> wf_disk (dsk w')"
  proof cases
    case err
    then show ?thesis using h [of w'] by (auto simp: stable_def holds_at_def)
  next
    case ok
    note rn = Rename_spec [OF ok(2) tmp_neq(1) ok(3,6)]
    show ?thesis using rn(1,2) h [OF ok(2)] ok(1,4,5) by (auto simp: old_or_new_def)
  qed
  then show "\<exists>hs. hist w' = h @ hs \<and> list_all (old_or_new p x data) hs"
    "r \<noteq> None \<Longrightarrow> file_at (dsk w') p = x"
    "r = None \<Longrightarrow> \<exists>n. file_at (dsk w') p = Some n \<and> i_data n = data \<and> i_mode n = fileMode"
    "wf_disk (dsk w')" by auto
qed

lemma writeAtomic_frame:
  assumes "stable h (holds_at q x) w" "q \<noteq> p" "q \<noteq> p @ tmpSuffix" "writeAtomic p data w = (r, w')"
  shows "stable h (holds_at q x) w'"
  using writeAtomic_run [OF assms(1,3,4)] Rename_frame [OF _ _ assms(3,2) tmp_neq(1)]
  unfolding ends_well_def by blast

section \<open>The cache as a map\<close>

type_synonym cache_key = "string \<times> string"
type_synonym answer = "string list \<times> time"

definition wf_key :: "cache_key \<Rightarrow> bool" where
  "wf_key k = (accountRE (fst k) \<and> list_all name_char (snd k) \<and> snd k \<noteq> [])"

definition key_path :: "Cache \<Rightarrow> cache_key \<Rightarrow> string" where
  "key_path c k = filepath_Join [c_dir c, fst k, snd k]"

definition view :: "golib \<Rightarrow> Cache \<Rightarrow> disk \<Rightarrow> cache_key \<Rightarrow> answer option" where
  "view L c d k =
     (if wf_key k then
        (case read_file d (key_path c k) of None \<Rightarrow> None
         | Some raw \<Rightarrow> (case parse L raw of Inl e \<Rightarrow> None | Inr x \<Rightarrow> Some x))
      else None)"

text \<open>What a client may rely on: the entry of a key, while it is young enough.\<close>

definition lookup_fresh :: "duration \<Rightarrow> time \<Rightarrow> answer option \<Rightarrow> (string list \<times> duration) option" where
  "lookup_fresh ttl now x =
     (case x of None \<Rightarrow> None
      | Some (ls, t) \<Rightarrow> if 0 \<le> time_Sub now t \<and> time_Sub now t \<le> ttl then Some (ls, time_Sub now t) else None)"

definition storable :: "string list \<Rightarrow> bool" where
  "storable ls = (ls \<noteq> [] \<and> list_all (\<lambda>l. scannable l \<and> l \<noteq> []) ls)"

lemma path_key: "path L c a fp = (if accountRE a then Inr (key_path c (a, entry_name fp)) else
    Inl (wrapf [] (sentinel_error ErrAccount ''keycache: invalid account name'') ('': '' @ quoted L a)))"
  by (simp add: path_def key_path_def)

lemma wf_key_entry: "accountRE a \<Longrightarrow> wf_key (a, entry_name fp)"
  using entry_name_chars [of fp] by (simp add: wf_key_def)

lemma key_path_shape:
  assumes "filepath_IsAbs (c_dir c)" "wf_key k"
  shows "key_path c k = cache_prefix c @ fst k @ ''/'' @ snd k"
  using assms accountRE_chars [of "fst k"] name_good [of "fst k"] name_good [of "snd k"]
  by (simp add: key_path_def wf_key_def cache_prefix_def filepath_Join3)

lemma key_chars: "wf_key k \<Longrightarrow> list_all name_char (fst k) \<and> list_all name_char (snd k)"
  using accountRE_chars by (auto simp: wf_key_def)

lemma key_path_inj:
  assumes "filepath_IsAbs (c_dir c)" "wf_key k" "wf_key k'" "key_path c k = key_path c k'"
  shows "k = k'"
proof -
  have no: "CHR ''/'' \<notin> set (fst k)" "CHR ''/'' \<notin> set (fst k')" "CHR ''/'' \<notin> set (snd k)" "CHR ''/'' \<notin> set (snd k')"
    using key_chars [OF assms(2)] key_chars [OF assms(3)] name_char_no_special [of "CHR ''/''"]
    by (auto simp: list_all_iff)
  have "fst k @ CHR ''/'' # snd k = fst k' @ CHR ''/'' # snd k'"
    using assms(4) key_path_shape [OF assms(1,2)] key_path_shape [OF assms(1,3)] by simp
  then have "split_on (CHR ''/'') (fst k @ CHR ''/'' # snd k) = split_on (CHR ''/'') (fst k' @ CHR ''/'' # snd k')" by simp
  with no show ?thesis by (simp add: split_on_append prod_eq_iff)
qed

lemma key_path_tmp:
  assumes "filepath_IsAbs (c_dir c)" "wf_key k" "wf_key k'"
  shows "key_path c k \<noteq> key_path c k' @ tmpSuffix"
proof
  assume "key_path c k = key_path c k' @ tmpSuffix"
  then have "fst k @ ''/'' @ snd k = fst k' @ ''/'' @ snd k' @ tmpSuffix"
    using key_path_shape [OF assms(1,2)] key_path_shape [OF assms(1,3)] by simp
  then have "CHR ''.'' \<in> set (fst k @ ''/'' @ snd k)" by (metis Un_iff list.set_intros(1) set_append tmpSuffix_def)
  then show False
    using key_chars [OF assms(2)] name_char_no_special by (auto simp: list_all_iff)
qed

lemma header_scannable:
  assumes "four_digit_year t" shows "scannable (headerPrefix @ Format_RFC3339 t)"
proof -
  have "last (headerPrefix @ Format_RFC3339 t) = CHR ''Z''"
    using Format_last [of t] Format_length [OF assms] by (auto simp: last_append)
  then have "\<not> HasSuffix (headerPrefix @ Format_RFC3339 t) [CR]" by (auto simp: HasSuffix_iff)
  then show ?thesis
    using Format_no_newline [of t] Format_length [OF assms]
    by (simp add: scannable_def headerPrefix_def MaxScanTokenSize_def)
qed

lemma parse_encode:
  assumes "storable ls" "four_digit_year now"
  shows "parse L (encode_entry now ls) = Inr (ls, truncate_second now)"
proof -
  have "Scan_lines (encode_entry now ls) = ((headerPrefix @ Format_RFC3339 now) # ls, True)"
    unfolding encode_entry_def using assms header_scannable
    by (intro Scan_lines_unlines) (auto simp: storable_def list_all_iff)
  moreover have "Parse_RFC3339 (lib_time L) (Format_RFC3339 now) = Some (truncate_second now)"
    using parse_format [OF assms(2)] by (simp add: Parse_RFC3339_def)
  moreover have "filter (\<lambda>l. l \<noteq> []) ls = ls" using assms(1) by (auto simp: storable_def list_all_iff)
  ultimately show ?thesis using assms(1) by (simp add: parse_def storable_def)
qed

text \<open>Lines of which some may be too long to be read back.\<close>

definition plain_lines :: "string list \<Rightarrow> bool" where
  "plain_lines ls = list_all (\<lambda>l. NL \<notin> set l \<and> \<not> HasSuffix l [CR] \<and> l \<noteq> []) ls"

lemma storable_plain: "storable ls \<Longrightarrow> plain_lines ls"
  by (auto simp: storable_def plain_lines_def scannable_def list_all_iff)

lemma Scan_lines_ok:
  "list_all (\<lambda>l. NL \<notin> set l) ls \<Longrightarrow> snd (Scan_lines (unlines ls)) = list_all (\<lambda>l. int (length l) < MaxScanTokenSize) ls"
proof -
  assume "list_all (\<lambda>l. NL \<notin> set l) ls"
  then have "scan_tokens (unlines ls) = ls" by (intro scan_tokens_unlines) (simp add: list_all_iff)
  moreover have "length (takeWhile P ls) = length ls \<longleftrightarrow> list_all P ls" for P :: "string \<Rightarrow> bool"
    by (induction ls) auto
  ultimately show ?thesis by (simp add: Scan_lines_def Let_def)
qed

lemma parse_needs_ok: "parse L raw = Inr x \<Longrightarrow> snd (Scan_lines raw)"
  by (auto simp: parse_def Let_def split: prod.splits list.splits if_splits option.splits)

lemma parse_encode_plain:
  assumes "plain_lines ls" "four_digit_year now" "parse L (encode_entry now ls) = Inr x" "ls \<noteq> []"
  shows "x = (ls, truncate_second now)"
proof -
  have "list_all (\<lambda>l. NL \<notin> set l) ((headerPrefix @ Format_RFC3339 now) # ls)"
    using assms(1) header_scannable [OF assms(2)] by (auto simp: plain_lines_def list_all_iff scannable_def)
  from Scan_lines_ok [OF this] parse_needs_ok [OF assms(3)]
  have "list_all (\<lambda>l. int (length l) < MaxScanTokenSize) ls" by (simp add: encode_entry_def)
  with assms(1,4) have "storable ls" by (auto simp: storable_def plain_lines_def scannable_def list_all_iff)
  with parse_encode [OF this assms(2), of L] assms(3) show ?thesis by simp
qed

lemma view_cong: "file_at d (key_path c k) = file_at d' (key_path c k) \<Longrightarrow> view L c d k = view L c d' k"
  by (simp add: view_def read_file_def)

lemma Put_enabled:
  assumes "enabled c" "ls \<noteq> []" "accountRE a"
  shows "Put L c now a fp ls w =
    (case os_MkdirAll (filepath_Dir (key_path c (a, entry_name fp))) dirMode w of
       (Some e, w') \<Rightarrow> (Some (wrapf ''keycache: create dir: '' e []), w')
     | (None, w') \<Rightarrow> writeAtomic (key_path c (a, entry_name fp)) (encode_entry now ls) w')"
  using assms by (simp add: Put_def path_key)

lemma MkdirAll_stable:
  assumes "wf_disk (dsk w)" "os_MkdirAll p m w = (r, w')"
  shows "stable (hist w) (holds_at q (file_at (dsk w) q)) w'"
proof -
  have "stable (hist w) (holds_at q (file_at (dsk w) q)) w"
    using assms(1) by (intro stable_start) (simp add: holds_at_def)
  from stable_MkdirAll [OF this, of p m] assms(2) show ?thesis by simp
qed

lemma Put_entry:
  assumes "wf_disk (dsk w)" "enabled c" "ls \<noteq> []" "accountRE a" "Put L c now a fp ls w = (r, w')"
    and p: "p = key_path c (a, entry_name fp)"
  shows "\<exists>hs. hist w' = hist w @ hs \<and> list_all (old_or_new p (file_at (dsk w) p) (encode_entry now ls)) hs"
    and "r \<noteq> None \<Longrightarrow> file_at (dsk w') p = file_at (dsk w) p"
    and "r = None \<Longrightarrow> \<exists>n. file_at (dsk w') p = Some n \<and> i_data n = encode_entry now ls \<and> i_mode n = fileMode"
    and "wf_disk (dsk w')"
proof -
  obtain o1 w1 where 1: "os_MkdirAll (filepath_Dir p) dirMode w = (o1, w1)" by fastforce
  note s1 = MkdirAll_stable [OF assms(1) 1]
  note put = assms(5) [unfolded Put_enabled [OF assms(2-4)], folded p]
  have "(\<exists>hs. hist w' = hist w @ hs \<and> list_all (old_or_new p (file_at (dsk w) p) (encode_entry now ls)) hs)
    \<and> (r \<noteq> None \<longrightarrow> file_at (dsk w') p = file_at (dsk w) p)
    \<and> (r = None \<longrightarrow> (\<exists>n. file_at (dsk w') p = Some n \<and> i_data n = encode_entry now ls \<and> i_mode n = fileMode))
    \<and> wf_disk (dsk w')"
  proof (cases o1)
    case None
    with put 1 have "writeAtomic p (encode_entry now ls) w1 = (r, w')" by simp
    from writeAtomic_old_or_new [OF s1 [of p] this] show ?thesis by blast
  next
    case (Some e)
    with put 1 s1 [of p] show ?thesis by (auto simp: stable_def holds_at_def old_or_new_def list_all_iff)
  qed
  then show "\<exists>hs. hist w' = hist w @ hs \<and> list_all (old_or_new p (file_at (dsk w) p) (encode_entry now ls)) hs"
    "r \<noteq> None \<Longrightarrow> file_at (dsk w') p = file_at (dsk w) p"
    "r = None \<Longrightarrow> \<exists>n. file_at (dsk w') p = Some n \<and> i_data n = encode_entry now ls \<and> i_mode n = fileMode"
    "wf_disk (dsk w')" by auto
qed

lemma Put_frame:
  assumes "wf_disk (dsk w)" "enabled c" "ls \<noteq> []" "accountRE a" "Put L c now a fp ls w = (r, w')"
    and "q \<noteq> key_path c (a, entry_name fp)" "q \<noteq> key_path c (a, entry_name fp) @ tmpSuffix"
  shows "file_at (dsk w') q = file_at (dsk w) q"
proof -
  let ?p = "key_path c (a, entry_name fp)"
  obtain o1 w1 where 1: "os_MkdirAll (filepath_Dir ?p) dirMode w = (o1, w1)" by fastforce
  note s1 = MkdirAll_stable [OF assms(1) 1, of q]
  have "stable (hist w) (holds_at q (file_at (dsk w) q)) w'"
    using assms(5) 1 s1 writeAtomic_frame [OF s1 assms(6,7)]
    by (auto simp: Put_enabled [OF assms(2-4)] split: option.splits)
  from stable_dsk [OF this] show ?thesis by (simp add: holds_at_def)
qed

lemma Put_no_effect:
  "\<not> enabled c \<or> ls = [] \<Longrightarrow> Put L c now a fp ls w = (None, w)"
  "\<not> accountRE a \<Longrightarrow> enabled c \<Longrightarrow> ls \<noteq> [] \<Longrightarrow> \<exists>e. Put L c now a fp ls w = (Some e, w) \<and> Is e ErrAccount"
  by (simp_all add: Put_def path_key)

lemma Get_enabled:
  "Get L c now a fp w =
     (if \<not> (enabled c \<and> accountRE a) then (None, w)
      else case os_ReadFile (key_path c (a, entry_name fp)) w of
          (Inl e, w1) \<Rightarrow> (None, w1)
        | (Inr raw, w1) \<Rightarrow> (case parse L raw of
            Inl e \<Rightarrow> (None, snd (os_Remove (key_path c (a, entry_name fp)) w1))
          | Inr (ls, written) \<Rightarrow>
              if time_Sub now written < 0 \<or> c_ttl c < time_Sub now written
              then (None, snd (os_Remove (key_path c (a, entry_name fp)) w1))
              else (Some (ls, time_Sub now written), w1)))"
  by (simp add: Get_def path_key Let_def cong: sum.case_cong prod.case_cong)

lemma ReadFile_cases:
  obtains (ok) raw where "os_ReadFile p w = (Inr raw, advance (dsk w) w)" "read_file (dsk w) p = Some raw"
  | (bad) e where "os_ReadFile p w = (Inl e, advance (dsk w) w)"
      "fault w = None \<Longrightarrow> read_file (dsk w) p = None"
proof (cases "fault w = None \<and> file_at (dsk w) p \<noteq> None")
  case True
  then show ?thesis using ok by (auto simp: os_ReadFile_def observe_def read_file_def)
next
  case False
  then show ?thesis using bad
    by (cases "fault w"; cases "is_dir (dsk w) p") (auto simp: os_ReadFile_def observe_def read_file_def)
qed

lemma Remove_dsk: "dsk (snd (os_Remove p w)) = dsk w \<or> dsk (snd (os_Remove p w)) = del_ent p (dsk w)"
  by (auto simp: os_Remove_def commit_def split: option.splits dirent.splits)

text \<open>
  Get in terms of the map: whatever the file system does, an answer is the fresh entry of the
  key; when no call fails the answer is exactly that; and only the entry asked for may go.
\<close>

lemma Get_spec:
  assumes "Get L c now a fp w = (r, w')" "enabled c"
  defines "k \<equiv> (a, entry_name fp)"
  shows "r \<noteq> None \<Longrightarrow> r = lookup_fresh (c_ttl c) now (view L c (dsk w) k) \<and> dsk w' = dsk w"
    and "fault w = None \<Longrightarrow> r = lookup_fresh (c_ttl c) now (view L c (dsk w) k)"
    and "dsk w' = dsk w \<or> (r = None \<and> dsk w' = del_ent (key_path c k) (dsk w))"
proof -
  have "(r \<noteq> None \<longrightarrow> r = lookup_fresh (c_ttl c) now (view L c (dsk w) k) \<and> dsk w' = dsk w)
    \<and> (fault w = None \<longrightarrow> r = lookup_fresh (c_ttl c) now (view L c (dsk w) k))
    \<and> (dsk w' = dsk w \<or> (r = None \<and> dsk w' = del_ent (key_path c k) (dsk w)))"
  proof (cases "accountRE a")
    case False
    then show ?thesis using assms(1) by (auto simp: Get_enabled k_def view_def wf_key_def lookup_fresh_def)
  next
    case True
    note wk = wf_key_entry [OF True, of fp, folded k_def]
    show ?thesis
    proof (cases rule: ReadFile_cases [of "key_path c k" w])
      case (ok raw)
      with assms(1,2) wk True show ?thesis
        using Remove_dsk [of "key_path c k" "advance (dsk w) w"]
        by (auto simp: Get_enabled view_def lookup_fresh_def simp flip: k_def
            split: sum.splits if_splits)
    next
      case (bad e)
      with assms(1,2) wk True show ?thesis
        by (auto simp: Get_enabled view_def lookup_fresh_def simp flip: k_def)
    qed
  qed
  then show "r \<noteq> None \<Longrightarrow> r = lookup_fresh (c_ttl c) now (view L c (dsk w) k) \<and> dsk w' = dsk w"
    "fault w = None \<Longrightarrow> r = lookup_fresh (c_ttl c) now (view L c (dsk w) k)"
    "dsk w' = dsk w \<or> (r = None \<and> dsk w' = del_ent (key_path c k) (dsk w))" by auto
qed

section \<open>Purge\<close>

lemma purge_loop_ok:
  "purge_loop dir es w = (None, w') \<Longrightarrow>
   dsk w' = keep_ents (\<lambda>q. \<not> (\<exists>e \<in> set es. under (filepath_Join [dir, e]) q)) (dsk w)"
proof (induction es arbitrary: w)
  case Nil
  then show ?case by (simp add: keep_ents_def)
next
  case (Cons e es)
  then obtain w1 where 1: "os_RemoveAll (filepath_Join [dir, e]) w = (None, w1)" "purge_loop dir es w1 = (None, w')"
    by (auto split: prod.splits option.splits)
  from RemoveAll_ok [OF 1(1)] Cons.IH [OF 1(2)] show ?case
    by (simp add: keep_ents_keep_ents) (metis (lifting))
qed

lemma purge_loop_keeps: "\<exists>P. dsk (snd (purge_loop dir es w)) = keep_ents P (dsk w)"
proof (induction es arbitrary: w)
  case Nil
  have "dsk w = keep_ents (\<lambda>q. True) (dsk w)" by (simp add: keep_ents_def)
  then show ?case by auto
next
  case (Cons e es)
  obtain r w1 where 1: "os_RemoveAll (filepath_Join [dir, e]) w = (r, w1)" by fastforce
  with RemoveAll_keeps obtain P where P: "dsk w1 = keep_ents P (dsk w)" by (metis snd_conv)
  show ?case
  proof (cases r)
    case None
    with 1 P Cons.IH [of w1] show ?thesis by (auto simp: keep_ents_keep_ents)
  next
    case (Some x)
    with 1 P show ?thesis by auto
  qed
qed

lemma Purge_keeps: "\<exists>P. dsk (snd (Purge c w)) = keep_ents P (dsk w)"
proof -
  have id: "dsk w = keep_ents (\<lambda>q. True) (dsk w)" by (simp add: keep_ents_def)
  obtain r w1 where 1: "os_ReadDir (c_dir c) w = (r, w1)" by fastforce
  then have w1: "dsk w1 = dsk w" by (auto simp: os_ReadDir_def observe_def)
  show ?thesis using id purge_loop_keeps [of "c_dir c" _ w1] by (cases r) (auto simp: Purge_def 1 w1)
qed

lemma filepath_Join2:
  "clean_abs dir \<Longrightarrow> good_component a \<Longrightarrow> filepath_Join [dir, a] = dir_prefix dir @ a"
  using Clean_snoc [of dir a] by (auto simp: filepath_Join_def clean_abs_def filepath_IsAbs_def HasPrefix_def)

lemma entry_below_child:
  assumes "clean_abs (c_dir c)" "wf_key k" "tree_closed d" "ent d (key_path c k) = Some e"
  shows "is_dir d (c_dir c)" "fst k \<in> set (children d (c_dir c))"
    "under (filepath_Join [c_dir c, fst k]) (key_path c k)"
proof -
  let ?a = "dir_prefix (c_dir c) @ fst k"
  have g: "good_component (fst k)" "good_component (snd k)"
    using assms(2) accountRE_chars name_good by (auto simp: wf_key_def)
  have ca: "clean_abs ?a" by (rule clean_child [OF assms(1) g(1)])
  have "2 \<le> length ?a"
    using g(1) by (cases "fst k") (auto simp: dir_prefix_def good_component_def)
  then have ne: "?a \<noteq> ''/''" "?a \<noteq> ''.''" by (auto simp del: length_append)
  have "cache_prefix c = dir_prefix (c_dir c)" using assms(1) by (simp add: cache_prefix_def clean_abs_def)
  with ne have kp: "key_path c k = dir_prefix ?a @ snd k"
    using key_path_shape [of c k] assms(1,2) by (simp add: clean_abs_def dir_prefix_def [of ?a])
  have "is_dir d ?a"
    using assms(3) ent_mem [OF assms(4)] Dir_child [OF ca g(2)] by (auto simp: tree_closed_def list_all_iff kp)
  then obtain m where m: "(?a, DirEnt m) \<in> set (ents d)" using is_dir_ent ne by blast
  then show "is_dir d (c_dir c)"
    using assms(3) Dir_child [OF assms(1) g(1)] by (auto simp: tree_closed_def list_all_iff)
  show "fst k \<in> set (children d (c_dir c))" by (rule children_mem [OF m g(1)])
  show "under (filepath_Join [c_dir c, fst k]) (key_path c k)"
    using filepath_Join2 [OF assms(1) g(1)] by (simp add: under_def kp)
qed

lemma Purge_ents:
  assumes "enabled c" "Purge c w = (None, w')" "\<And>e. fault w = Some e \<Longrightarrow> \<not> Is e OsErrNotExist"
  shows "(is_dir (dsk w) (c_dir c) \<and> dsk w' = keep_ents (\<lambda>q. \<not> (\<exists>e \<in> set (children (dsk w) (c_dir c)).
      under (filepath_Join [c_dir c, e]) q)) (dsk w)) \<or> (\<not> is_dir (dsk w) (c_dir c) \<and> dsk w' = dsk w)"
proof (cases "os_ReadDir (c_dir c) w")
  case (Pair r w1)
  then have w1: "dsk w1 = dsk w" by (auto simp: os_ReadDir_def observe_def)
  show ?thesis
  proof (cases r)
    case (Inl e)
    with assms Pair w1 have "Is e OsErrNotExist" "dsk w' = dsk w" by (auto simp: Purge_def split: if_splits)
    moreover have "\<not> is_dir (dsk w) (c_dir c)"
      using assms(3) Pair Inl \<open>Is e OsErrNotExist\<close> by (auto simp: os_ReadDir_def observe_def split: option.splits)
    ultimately show ?thesis by simp
  next
    case (Inr es)
    then have "is_dir (dsk w) (c_dir c)" "es = children (dsk w) (c_dir c)"
      using Pair by (auto simp: os_ReadDir_def observe_def split: option.splits if_splits)
    moreover have "purge_loop (c_dir c) es w1 = (None, w')" using assms Pair Inr by (simp add: Purge_def)
    ultimately show ?thesis using purge_loop_ok w1 by force
  qed
qed

section \<open>What a client of the cache may rely on\<close>

text \<open>
  The contract of a last-known-good store: a successful put replaces the answer of its key and
  no other, a failing one stores nothing, and get and purge only ever forget. A client that
  puts and gets in any order is then served only what it stored last itself, recently enough.
\<close>

datatype 'q store_op = OpPut 'q time "string list" | OpGet 'q time | OpPurge

fun run_store :: "('q \<Rightarrow> time \<Rightarrow> string list \<Rightarrow> 's \<Rightarrow> go_error option \<times> 's) \<Rightarrow>
    ('q \<Rightarrow> time \<Rightarrow> 's \<Rightarrow> (string list \<times> duration) option \<times> 's) \<Rightarrow>
    ('s \<Rightarrow> go_error option \<times> 's) \<Rightarrow> 'q store_op list \<Rightarrow> 's \<Rightarrow> 's" where
  "run_store put get purge [] s = s"
| "run_store put get purge (OpPut q t ls # ops) s = run_store put get purge ops (snd (put q t ls s))"
| "run_store put get purge (OpGet q t # ops) s = run_store put get purge ops (snd (get q t s))"
| "run_store put get purge (OpPurge # ops) s = run_store put get purge ops (snd (purge s))"

definition good_op :: "'q store_op \<Rightarrow> bool" where
  "good_op x = (case x of OpPut q t ls \<Rightarrow> plain_lines ls \<and> four_digit_year t | _ \<Rightarrow> True)"

text \<open>The put of \<open>ls\<close> at time \<open>t\<close> is the last one for the key \<open>k\<close> in a run that succeeded: the run splits
  at it, it returned no error, and every later put of an answer for \<open>k\<close> failed.\<close>

definition stored_last :: "('q \<Rightarrow> 'k) \<Rightarrow> ('q \<Rightarrow> time \<Rightarrow> string list \<Rightarrow> 's \<Rightarrow> go_error option \<times> 's) \<Rightarrow>
    ('q \<Rightarrow> time \<Rightarrow> 's \<Rightarrow> (string list \<times> duration) option \<times> 's) \<Rightarrow>
    ('s \<Rightarrow> go_error option \<times> 's) \<Rightarrow> 'q store_op list \<Rightarrow> 's \<Rightarrow> 'k \<Rightarrow> string list \<Rightarrow> time \<Rightarrow> bool" where
  "stored_last key put get purge ops s k ls t =
     (\<exists>before q after. ops = before @ OpPut q t ls # after \<and> key q = k \<and> ls \<noteq> []
        \<and> fst (put q t ls (run_store put get purge before s)) = None
        \<and> (\<forall>mid q' t' ls' rest. after = mid @ OpPut q' t' ls' # rest \<and> key q' = k \<and> ls' \<noteq> [] \<longrightarrow>
              fst (put q' t' ls' (run_store put get purge (before @ OpPut q t ls # mid) s)) \<noteq> None))"

lemma run_store_append: "run_store put get purge (xs @ ys) s = run_store put get purge ys (run_store put get purge xs s)"
proof (induction xs arbitrary: s)
  case (Cons x xs)
  then show ?case by (cases x) simp_all
qed simp

lemma stored_last_here:
  assumes "fst (put q t ls (run_store put get purge ops s)) = None" "ls \<noteq> []"
  shows "stored_last key put get purge (ops @ [OpPut q t ls]) s (key q) ls t"
  unfolding stored_last_def using assms by (intro exI [of _ ops] exI [of _ q] exI [of _ "[]"]) simp

lemma stored_last_snoc:
  assumes "stored_last key put get purge ops s k ls t"
    and "\<And>q t' ls'. x = OpPut q t' ls' \<Longrightarrow> key q = k \<Longrightarrow> ls' \<noteq> [] \<Longrightarrow> fst (put q t' ls' (run_store put get purge ops s)) \<noteq> None"
  shows "stored_last key put get purge (ops @ [x]) s k ls t"
proof -
  from assms(1) obtain before q after where o: "ops = before @ OpPut q t ls # after" "key q = k" "ls \<noteq> []"
    "fst (put q t ls (run_store put get purge before s)) = None"
    "\<And>mid q' t' ls' rest. after = mid @ OpPut q' t' ls' # rest \<Longrightarrow> key q' = k \<Longrightarrow> ls' \<noteq> [] \<Longrightarrow>
      fst (put q' t' ls' (run_store put get purge (before @ OpPut q t ls # mid) s)) \<noteq> None"
    unfolding stored_last_def by blast
  have "fst (put q' t' ls' (run_store put get purge (before @ OpPut q t ls # mid) s)) \<noteq> None"
    if "after @ [x] = mid @ OpPut q' t' ls' # rest" "key q' = k" "ls' \<noteq> []" for mid q' t' ls' rest
  proof (cases rest rule: rev_cases)
    case Nil
    with that have "mid = after" "x = OpPut q' t' ls'" by simp_all
    with assms(2) that o(1) show ?thesis by simp
  next
    case (snoc ys y)
    with that have "after = mid @ OpPut q' t' ls' # ys" by simp
    with o(5) that show ?thesis by blast
  qed
  with o(1-4) show ?thesis unfolding stored_last_def by (intro exI [of _ before] exI [of _ q] exI [of _ "after @ [x]"]) auto
qed

locale answer_store =
  fixes inv :: "'s \<Rightarrow> bool"
    and content :: "'s \<Rightarrow> 'k \<Rightarrow> answer option"
    and key :: "'q \<Rightarrow> 'k"
    and put :: "'q \<Rightarrow> time \<Rightarrow> string list \<Rightarrow> 's \<Rightarrow> go_error option \<times> 's"
    and get :: "'q \<Rightarrow> time \<Rightarrow> 's \<Rightarrow> (string list \<times> duration) option \<times> 's"
    and purge :: "'s \<Rightarrow> go_error option \<times> 's"
    and ttl :: duration
  assumes put_inv: "inv s \<Longrightarrow> inv (snd (put q t ls s))"
    and get_inv: "inv s \<Longrightarrow> inv (snd (get q t s))"
    and purge_inv: "inv s \<Longrightarrow> inv (snd (purge s))"
    and put_denial: "put q t [] s = (None, s)"
    and put_content: "inv s \<Longrightarrow> plain_lines ls \<Longrightarrow> four_digit_year t \<Longrightarrow> put q t ls s = (r, s') \<Longrightarrow>
      content s' k \<in> {content s k, None} \<or> (r = None \<and> k = key q \<and> content s' k = Some (ls, truncate_second t))"
    and put_stores: "inv s \<Longrightarrow> 0 < ttl \<Longrightarrow> plain_lines ls \<Longrightarrow> four_digit_year t \<Longrightarrow> ls \<noteq> [] \<Longrightarrow>
      put q t ls s = (None, s') \<Longrightarrow> content s' (key q) \<in> {None, Some (ls, truncate_second t)}"
    and get_enabled: "get q t s = (Some x, s') \<Longrightarrow> 0 < ttl"
    and get_content: "inv s \<Longrightarrow> content (snd (get q t s)) k \<in> {content s k, None}"
    and purge_content: "inv s \<Longrightarrow> content (snd (purge s)) k \<in> {content s k, None}"
    and get_fresh: "inv s \<Longrightarrow> get q t s = (Some x, s') \<Longrightarrow> lookup_fresh ttl t (content s (key q)) = Some x"
begin

lemma run_inv: "inv s \<Longrightarrow> inv (run_store put get purge ops s)"
proof (induction ops arbitrary: s)
  case (Cons x ops)
  then show ?case by (cases x) (auto simp: put_inv get_inv purge_inv)
qed simp

lemma run_content:
  assumes "inv s" "content s = Map.empty" "0 < ttl"
  shows "list_all good_op ops \<Longrightarrow> content (run_store put get purge ops s) k = Some (ls, u) \<Longrightarrow>
    \<exists>t. stored_last key put get purge ops s k ls t \<and> u = truncate_second t"
proof (induction ops rule: rev_induct)
  case Nil
  with assms(2) show ?case by simp
next
  case (snoc x ops)
  let ?s = "run_store put get purge ops s"
  note inv = run_inv [OF assms(1), of ops]
  have good: "list_all good_op ops" "good_op x" using snoc.prems(1) by simp_all
  have end': "content (run_store put get purge [x] ?s) k = Some (ls, u)" using snoc.prems(2) by (simp add: run_store_append)
  have older: "\<exists>t. stored_last key put get purge (ops @ [x]) s k ls t \<and> u = truncate_second t"
    if "content ?s k = Some (ls, u)"
      "\<And>q t' ls'. x = OpPut q t' ls' \<Longrightarrow> key q = k \<Longrightarrow> ls' \<noteq> [] \<Longrightarrow> fst (put q t' ls' ?s) \<noteq> None"
  proof -
    from snoc.IH [OF good(1) that(1)] obtain t where t: "stored_last key put get purge ops s k ls t" "u = truncate_second t" by blast
    from stored_last_snoc [OF t(1), of x] that(2) t(2) show ?thesis by blast
  qed
  show ?case
  proof (cases x)
    case (OpPut q t ls')
    obtain r s1 where 1: "put q t ls' ?s = (r, s1)" by fastforce
    have c: "content s1 k = Some (ls, u)" using end' OpPut 1 by simp
    have g: "plain_lines ls'" "four_digit_year t" using good(2) OpPut by (simp_all add: good_op_def)
    show ?thesis
    proof (cases "r = None \<and> key q = k \<and> ls' \<noteq> []")
      case True
      with put_stores [OF inv assms(3) g, of q s1] 1 c have "ls' = ls" "u = truncate_second t" by auto
      with stored_last_here [of put q t ls' get purge ops s key] True OpPut 1 show ?thesis by auto
    next
      case False
      have "content ?s k = Some (ls, u)"
      proof (cases "ls' = []")
        case True
        with put_denial [of q t ?s] 1 c show ?thesis by simp
      next
        case ne: False
        with put_content [OF inv g 1, of k] c False show ?thesis by auto
      qed
      with older 1 False OpPut show ?thesis by auto
    qed
  next
    case (OpGet q t)
    with end' get_content [OF inv, of q t k] older show ?thesis by auto
  next
    case OpPurge
    with end' purge_content [OF inv, of k] older show ?thesis by auto
  qed
qed

lemma served_was_stored:
  assumes "inv s" "content s = Map.empty" "list_all good_op ops"
    and "get q now (run_store put get purge ops s) = (Some (ls, age), s')"
  shows "0 \<le> age \<and> age \<le> ttl \<and>
    (\<exists>t. stored_last key put get purge ops s (key q) ls t \<and> age = time_Sub now (truncate_second t))"
proof -
  let ?s = "run_store put get purge ops s"
  have "lookup_fresh ttl now (content ?s (key q)) = Some (ls, age)"
    by (rule get_fresh [OF run_inv [OF assms(1)] assms(4)])
  then obtain u where u: "content ?s (key q) = Some (ls, u)" "age = time_Sub now u" "0 \<le> age" "age \<le> ttl"
    by (auto simp: lookup_fresh_def split: option.splits if_splits)
  from run_content [OF assms(1,2) get_enabled [OF assms(4)] assms(3) u(1)] u show ?thesis by auto
qed

end

lemma view_keep: "view L c (keep_ents P d) k \<in> {view L c d k, None}"
  by (simp add: view_def read_file_def file_at_keep_ents)

lemma del_ent_keep: "del_ent p d = keep_ents (\<lambda>q. q \<noteq> p) d"
  by (simp add: del_ent_def keep_ents_def)

lemma Get_keeps: "\<exists>P. dsk (snd (Get L c now a fp w)) = keep_ents P (dsk w)"
proof -
  have id: "dsk w = keep_ents (\<lambda>q. True) (dsk w)" by (simp add: keep_ents_def)
  show ?thesis
  proof (cases "enabled c")
    case True
    obtain r w' where 1: "Get L c now a fp w = (r, w')" by fastforce
    from Get_spec(3) [OF 1 True] id show ?thesis by (auto simp: 1 del_ent_keep)
  qed (use id in \<open>auto simp: Get_def\<close>)
qed

lemma Put_content:
  assumes "wf_disk (dsk w)" "filepath_IsAbs (c_dir c)" "storable ls" "four_digit_year now"
    "Put L c now a fp ls w = (r, w')"
  shows "view L c (dsk w') =
    (if enabled c \<and> r = None then (view L c (dsk w))((a, entry_name fp) \<mapsto> (ls, truncate_second now))
     else view L c (dsk w))"
proof (cases "enabled c \<and> accountRE a")
  case False
  then show ?thesis using assms(3,5) by (cases "enabled c") (auto simp: Put_def path_key storable_def)
next
  case True
  let ?k = "(a, entry_name fp)"
  have ls: "ls \<noteq> []" using assms(3) by (simp add: storable_def)
  note put = assms(1) conjunct1 [OF True] ls conjunct2 [OF True] assms(5)
  note wk = wf_key_entry [of a fp]
  show ?thesis
  proof
    fix k
    show "view L c (dsk w') k = (if enabled c \<and> r = None then (view L c (dsk w))(?k \<mapsto> (ls, truncate_second now))
        else view L c (dsk w)) k"
    proof (cases "k = ?k")
      case True
      then show ?thesis
        using Put_entry(2,3) [OF put refl] wk put parse_encode [OF assms(3,4), of L]
        by (cases r) (auto simp: view_def read_file_def)
    next
      case False
      have "file_at (dsk w') (key_path c k) = file_at (dsk w) (key_path c k)" if "wf_key k"
        using False key_path_inj [OF assms(2) that] key_path_tmp [OF assms(2) that] wk put
        by (intro Put_frame [OF put]) auto
      then have "view L c (dsk w') k = view L c (dsk w) k" by (simp add: view_def read_file_def)
      with False show ?thesis by simp
    qed
  qed
qed

lemma Put_view:
  assumes "wf_disk (dsk w)" "filepath_IsAbs (c_dir c)" "plain_lines ls" "four_digit_year now"
    "Put L c now a fp ls w = (r, w')"
  shows "view L c (dsk w') k \<in> {view L c (dsk w) k, None}
    \<or> (r = None \<and> k = (a, entry_name fp) \<and> view L c (dsk w') k = Some (ls, truncate_second now))"
proof (cases "enabled c \<and> accountRE a \<and> ls \<noteq> []")
  case False
  then have "w' = w" using assms(5) by (auto simp: Put_def path_key split: if_splits)
  then show ?thesis by simp
next
  case True
  let ?k = "(a, entry_name fp)"
  have put: "wf_disk (dsk w)" "enabled c" "ls \<noteq> []" "accountRE a" "Put L c now a fp ls w = (r, w')"
    using assms True by auto
  show ?thesis
  proof (cases "k = ?k")
    case k: True
    show ?thesis
    proof (cases r)
      case None
      obtain n where n: "file_at (dsk w') (key_path c k) = Some n" "i_data n = encode_entry now ls"
        using Put_entry(3) [OF put refl None] k by auto
      show ?thesis
      proof (cases "parse L (encode_entry now ls)")
        case (Inr x)
        with parse_encode_plain [OF assms(3,4) Inr put(3)] n k None wf_key_entry [OF put(4), of fp]
        show ?thesis by (simp add: view_def read_file_def)
      qed (use n in \<open>simp add: view_def read_file_def\<close>)
    next
      case (Some e)
      then have "file_at (dsk w') (key_path c k) = file_at (dsk w) (key_path c k)"
        using Put_entry(2) [OF put refl] k by simp
      then show ?thesis using view_cong by blast
    qed
  next
    case False
    show ?thesis
    proof (cases "wf_key k")
      case wk: True
      have "key_path c k \<noteq> key_path c ?k" "key_path c k \<noteq> key_path c ?k @ tmpSuffix"
        using key_path_inj [OF assms(2) wk wf_key_entry [OF put(4), of fp]] False
          key_path_tmp [OF assms(2) wk wf_key_entry [OF put(4), of fp]] by auto
      from Put_frame [OF put this] show ?thesis using view_cong by blast
    qed (simp add: view_def)
  qed
qed

lemma Put_stores:
  assumes "wf_disk (dsk w)" "enabled c" "plain_lines ls" "four_digit_year now" "ls \<noteq> []" "Put L c now a fp ls w = (None, w')"
  shows "view L c (dsk w') (a, entry_name fp) \<in> {None, Some (ls, truncate_second now)}"
proof -
  have a: "accountRE a" using assms(2,5,6) by (auto simp: Put_def path_key split: if_splits)
  obtain n where n: "file_at (dsk w') (key_path c (a, entry_name fp)) = Some n" "i_data n = encode_entry now ls"
    using Put_entry(3) [OF assms(1,2,5) a assms(6) refl] by auto
  show ?thesis
    using n parse_encode_plain [OF assms(3,4) _ assms(5), of L] by (auto simp: view_def read_file_def split: sum.split)
qed

lemma Put_wf: "wf_disk (dsk w) \<Longrightarrow> wf_disk (dsk (snd (Put L c now a fp ls w)))"
proof -
  assume wf: "wf_disk (dsk w)"
  obtain r w' where 1: "Put L c now a fp ls w = (r, w')" by fastforce
  show ?thesis
  proof (cases "enabled c \<and> ls \<noteq> [] \<and> accountRE a")
    case True
    then show ?thesis using Put_entry(4) [OF wf _ _ _ 1 refl] 1 by simp
  next
    case False
    then show ?thesis using wf by (auto simp: Put_def path_key)
  qed
qed

definition disk_ok :: "Cache \<Rightarrow> os \<Rightarrow> bool" where
  "disk_ok c w = (wf_disk (dsk w) \<and> filepath_IsAbs (c_dir c))"

interpretation disk_cache: answer_store "disk_ok c" "\<lambda>w. view L c (dsk w)" "\<lambda>(a, fp). (a, entry_name fp)"
  "\<lambda>(a, fp) t ls. Put L c t a fp ls" "\<lambda>(a, fp) t. Get L c t a fp" "Purge c" "c_ttl c" for L c
proof (unfold_locales, goal_cases)
  case (1 s q t ls)
  then show ?case by (simp add: disk_ok_def Put_wf split: prod.split)
next
  case (2 s q t)
  then show ?case using Get_keeps [of L c t "fst q" "snd q" s]
    by (auto simp: disk_ok_def wf_keep_ents case_prod_beta)
next
  case (3 s)
  then show ?case using Purge_keeps [of c s] by (auto simp: disk_ok_def wf_keep_ents)
next
  case (4 q t s)
  then show ?case by (simp add: Put_no_effect split: prod.split)
next
  case (5 s ls t q r s' k)
  then show ?case
    using Put_view [of s c ls t L "fst q" "snd q" r s' k] by (auto simp: disk_ok_def case_prod_beta)
next
  case (6 s ls t q s')
  then show ?case
    using Put_stores [of s c ls t L "fst q" "snd q" s'] by (auto simp: disk_ok_def case_prod_beta enabled_def)
next
  case (7 q t s x s')
  then show ?case by (auto simp: Get_def enabled_def split: prod.splits if_splits)
next
  case (8 s q t k)
  obtain P where "dsk (snd (Get L c t (fst q) (snd q) s)) = keep_ents P (dsk s)" using Get_keeps by blast
  then show ?case using view_keep [of L c P "dsk s" k] by (simp add: case_prod_beta)
next
  case (9 s k)
  obtain P where "dsk (snd (Purge c s)) = keep_ents P (dsk s)" using Purge_keeps by blast
  then show ?case using view_keep [of L c P "dsk s" k] by simp
next
  case (10 s q t x s')
  then have en: "enabled c" by (auto simp: Get_def split: prod.splits if_splits)
  from 10 Get_spec(1) [of L c t "fst q" "snd q" s "Some x" s'] en show ?case by (auto simp: case_prod_beta)
qed

section \<open>Properties\<close>

text \<open>C19: an entry never leaves the cache directory. The path of an entry is the directory, the
  account and a name, both of letters, digits, underscores and dashes only; any other account is
  refused with ErrAccount; and the temporary file of an entry is never itself an entry.\<close>

theorem path_confined:
  assumes "filepath_IsAbs (c_dir c)"
  shows "case path L c a fp of
      Inl e \<Rightarrow> \<not> accountRE a \<and> Is e ErrAccount
    | Inr p \<Rightarrow> accountRE a \<and> p = cache_prefix c @ a @ ''/'' @ entry_name fp
        \<and> list_all name_char a \<and> list_all name_char (entry_name fp) \<and> entry_name fp \<noteq> []
        \<and> Inr (p @ tmpSuffix) \<noteq> path L c a' fp'"
proof (cases "accountRE a")
  case True
  then obtain p where p: "path L c a fp = Inr p" by (simp add: path_key)
  then show ?thesis
    using True path_shape [OF assms p] entry_name_chars [of fp] tmp_not_entry [OF assms p, of a' fp' "p @ tmpSuffix"]
    by (auto dest: sym)
qed (simp add: path_key)

text \<open>An empty disk for concrete runs.\<close>

definition empty_disk :: "(nat \<Rightarrow> go_error option \<times> nat) \<Rightarrow> os" where
  "empty_disk faults = \<lparr>dsk = \<lparr>ents = [], inodes = []\<rparr>, tick = 0, sched = faults, hist = [],
     umasked = id, euser = (0, 0)\<rparr>"

theorem path_confined_witness:
  "path plain_lib \<lparr>c_dir = ''/var/../c/'', c_ttl = 5\<rparr> ''bob'' ''SHA256:a/+='' = Inr ''/c/bob/SHA256a_-''"
proof -
  let ?c = "\<lparr>c_dir = ''/var/../c/'', c_ttl = 5\<rparr>"
  have ev: "accountRE ''bob''" "cache_prefix ?c = ''/c/''" "entry_name ''SHA256:a/+='' = ''SHA256a_-''"
    by code_simp+
  have "filepath_IsAbs (c_dir ?c)" by code_simp
  from path_confined [OF this, where L = plain_lib and a = "''bob''" and fp = "''SHA256:a/+=''" and a' = "[]" and fp' = "[]", unfolded ev]
  show ?thesis by (simp split: sum.splits del: accountRE.simps add: ev)
qed

text \<open>C16: whatever call fails and wherever the run is cut off, Put leaves at the path of the entry
  either the file that was there or a complete new one of mode 0600: this holds of every disk
  recorded while Put runs, a failing Put keeps the old file, and a successful one has written
  the new one.\<close>

theorem Put_crash_safe:
  assumes "wf_disk (dsk w)" "enabled c" "ls \<noteq> []" "accountRE a" "Put L c now a fp ls w = (r, w')"
    "p = key_path c (a, entry_name fp)"
  shows "\<exists>hs. hist w' = hist w @ hs
    \<and> list_all (old_or_new p (file_at (dsk w) p) (encode_entry now ls)) hs
    \<and> (case r of Some e \<Rightarrow> file_at (dsk w') p = file_at (dsk w) p
       | None \<Rightarrow> map_option i_data (file_at (dsk w') p) = Some (encode_entry now ls)
                 \<and> map_option i_mode (file_at (dsk w') p) = Some fileMode)"
  using Put_entry(1-3) [OF assms] by (cases r) auto

theorem Put_crash_safe_witness:
  "file_at (dsk (snd (Put plain_lib \<lparr>c_dir = ''/c'', c_ttl = 5\<rparr> 0 ''bob'' [] [''ssh-ed25519 A'']
     (empty_disk (\<lambda>i. (if i = 3 then Some (errors_New ''ENOSPC'') else None, 4)))))) ''/c/bob/_all'' = None"
proof -
  let ?w = "empty_disk (\<lambda>i. (if i = 3 then Some (errors_New ''ENOSPC'') else None, 4))"
  let ?c = "\<lparr>c_dir = ''/c'', c_ttl = 5\<rparr>"
  obtain r w' where P: "Put plain_lib ?c 0 ''bob'' [] [''ssh-ed25519 A''] ?w = (r, w')" by fastforce
  have "fst (Put plain_lib ?c 0 ''bob'' [] [''ssh-ed25519 A''] ?w) \<noteq> None" by code_simp
  with P have r: "r \<noteq> None" by simp
  have "wf_disk (dsk ?w)" "enabled ?c" "accountRE ''bob''" "key_path ?c (''bob'', entry_name []) = ''/c/bob/_all''"
    "file_at (dsk ?w) ''/c/bob/_all'' = None"
    by code_simp+
  with Put_crash_safe [OF _ _ _ _ P, of "''/c/bob/_all''"] r P show ?thesis by auto
qed

text \<open>C18: what Put stored is what Get returns. After a successful Put, a Get that can read the disk
  returns, for the same account and fingerprint, exactly the stored lines as long as the entry is
  not older than the TTL, and for every other entry what the cache held before.\<close>

theorem Put_then_Get:
  assumes "wf_disk (dsk w)" "filepath_IsAbs (c_dir c)" "enabled c" "storable ls" "four_digit_year now"
    and "Put L c now a fp ls w = (None, w1)" "fault w1 = None"
  shows "fst (Get L c now' a' fp' w1) =
    (if a' = a \<and> entry_name fp' = entry_name fp
     then (let age = time_Sub now' (truncate_second now)
           in if 0 \<le> age \<and> age \<le> c_ttl c then Some (ls, age) else None)
     else lookup_fresh (c_ttl c) now' (view L c (dsk w) (a', entry_name fp')))"
proof -
  obtain r w' where g: "Get L c now' a' fp' w1 = (r, w')" by fastforce
  then have "r = lookup_fresh (c_ttl c) now' (view L c (dsk w1) (a', entry_name fp'))"
    by (rule Get_spec(2) [OF _ assms(3,7)])
  with g Put_content [OF assms(1,2,4-6)] assms(3) show ?thesis
    by (auto simp: lookup_fresh_def Let_def)
qed

theorem Put_then_Get_witness:
  "fst (Get plain_lib \<lparr>c_dir = ''/c'', c_ttl = 3600000000000\<rparr> 2500000000 ''bob'' ''SHA256:x''
     (snd (Put plain_lib \<lparr>c_dir = ''/c'', c_ttl = 3600000000000\<rparr> 1500000000 ''bob'' ''SHA256:x'' [''ssh-ed25519 A'']
        (empty_disk (\<lambda>i. (None, 0)))))) = Some ([''ssh-ed25519 A''], 1500000000)"
proof -
  let ?c = "\<lparr>c_dir = ''/c'', c_ttl = 3600000000000\<rparr>" and ?w = "empty_disk (\<lambda>i. (None, 0))"
  let ?P = "Put plain_lib ?c 1500000000 ''bob'' ''SHA256:x'' [''ssh-ed25519 A''] ?w"
  have P: "fst ?P = None" "fault (snd ?P) = None" by code_simp+
  have h: "wf_disk (dsk ?w)" "filepath_IsAbs (c_dir ?c)" "enabled ?c" by code_simp+
  have h': "storable [''ssh-ed25519 A'']" "four_digit_year 1500000000"
    by (simp_all add: storable_def scannable_def MaxScanTokenSize_def HasSuffix_def four_digit_year_def)
  have age: "time_Sub 2500000000 (truncate_second 1500000000) = 1500000000" by code_simp
  have "?P = (None, snd ?P)" using P(1) by (metis prod.collapse)
  from Put_then_Get [OF h h' this P(2), of 2500000000 "''bob''" "''SHA256:x''"]
  show ?thesis unfolding age Let_def by (simp only: refl simp_thms if_True Cache.simps) simp
qed

text \<open>C17: the cache never invents an answer and never serves an outdated one. Starting from a cache
  without entries, after any sequence of puts, gets and purges, whichever of their system calls
  fail, an answer that Get serves is the one of the last put for the same entry that succeeded, and
  its age counts from that put and is at most the TTL. (A put of no lines, an authoritative denial,
  does not count: it leaves the entry as it is.)\<close>

theorem served_answer_was_stored:
  assumes "wf_disk (dsk w)" "filepath_IsAbs (c_dir c)" "view L c (dsk w) = Map.empty" "list_all good_op ops"
    and "Get L c now a fp (run_store (\<lambda>(a, fp) t ls. Put L c t a fp ls) (\<lambda>(a, fp) t. Get L c t a fp) (Purge c) ops w)
      = (Some (ls, age), w')"
  shows "0 \<le> age \<and> age \<le> c_ttl c \<and>
    (\<exists>t. stored_last (\<lambda>(a, fp). (a, entry_name fp)) (\<lambda>(a, fp) t ls. Put L c t a fp ls) (\<lambda>(a, fp) t. Get L c t a fp) (Purge c)
         ops w (a, entry_name fp) ls t
       \<and> age = time_Sub now (truncate_second t))"
  using disk_cache.served_was_stored [of c w L ops "(a, fp)" now ls age w'] assms
  by (auto simp: disk_ok_def)

theorem served_answer_was_stored_witness:
  "let c = \<lparr>c_dir = ''/c'', c_ttl = 60000000000\<rparr>; ops = [OpPut (''bob'', ''x'') 1000000000 [''old''],
       OpPut (''bob'', ''x'') 2000000000 [''k''], OpGet (''bob'', ''y'') 0]
   in \<exists>t. stored_last (\<lambda>(a, fp). (a, entry_name fp)) (\<lambda>(a, fp) t ls. Put plain_lib c t a fp ls)
       (\<lambda>(a, fp) t. Get plain_lib c t a fp) (Purge c) ops (empty_disk (\<lambda>i. (None, 0))) (''bob'', ''x'') [''k''] t
     \<and> 2000000000 = time_Sub 4000000000 (truncate_second t)"
proof -
  let ?c = "\<lparr>c_dir = ''/c'', c_ttl = 60000000000\<rparr>"
  let ?w = "empty_disk (\<lambda>i. (None, 0))"
  let ?ops = "[OpPut (''bob'', ''x'') 1000000000 [''old''], OpPut (''bob'', ''x'') 2000000000 [''k''], OpGet (''bob'', ''y'') 0]"
  let ?s = "run_store (\<lambda>(a, fp) t ls. Put plain_lib ?c t a fp ls) (\<lambda>(a, fp) t. Get plain_lib ?c t a fp) (Purge ?c) ?ops ?w"
  have wf: "wf_disk (dsk ?w)" "filepath_IsAbs (c_dir ?c)" by code_simp+
  have em: "view plain_lib ?c (dsk ?w) = Map.empty"
    by (auto simp: view_def read_file_def file_at_def ent_def empty_disk_def)
  have ok: "list_all good_op ?ops"
    by (simp add: good_op_def plain_lines_def HasSuffix_def four_digit_year_def)
  have n: "entry_name ''x'' = ''x''" by code_simp
  have "fst (Get plain_lib ?c 4000000000 ''bob'' ''x'' ?s) = Some ([''k''], 2000000000)" by code_simp
  then have "Get plain_lib ?c 4000000000 ''bob'' ''x'' ?s = (Some ([''k''], 2000000000), snd (Get plain_lib ?c 4000000000 ''bob'' ''x'' ?s))"
    by (metis prod.collapse)
  from served_answer_was_stored [OF wf em ok this] show ?thesis unfolding n Let_def by blast
qed

text \<open>A purge that reports success has emptied the cache: no entry of any account is left, and
  nothing outside the cache directory is touched, whether the purge succeeds or not.\<close>

theorem Purge_forgets:
  assumes "clean_abs (c_dir c)" "tree_closed (dsk w)" "enabled c" "Purge c w = (r, w')"
    and "\<And>e. fault w = Some e \<Longrightarrow> \<not> Is e OsErrNotExist"
  shows "(r = None \<longrightarrow> view L c (dsk w') k = None) \<and> (\<exists>P. dsk w' = keep_ents P (dsk w))"
proof
  show "\<exists>P. dsk w' = keep_ents P (dsk w)" using Purge_keeps [of c w] assms(4) by simp
  show "r = None \<longrightarrow> view L c (dsk w') k = None"
  proof
    assume "r = None"
    with assms(4) have P: "Purge c w = (None, w')" by simp
    have "ent (dsk w') (key_path c k) = None" if wk: "wf_key k"
    proof (cases "ent (dsk w) (key_path c k)")
      case None
      with Purge_keeps [of c w] P show ?thesis by (auto simp: ent_keep_ents)
    next
      case (Some e)
      note b = entry_below_child [OF assms(1) wk assms(2) Some]
      from Purge_ents [OF assms(3) P assms(5)] b show ?thesis by (auto simp: ent_keep_ents)
    qed
    then show "view L c (dsk w') k = None" by (simp add: view_def read_file_def file_at_def)
  qed
qed

theorem Purge_forgets_witness:
  "view plain_lib \<lparr>c_dir = ''/c'', c_ttl = 5\<rparr> (dsk (snd (Purge \<lparr>c_dir = ''/c'', c_ttl = 5\<rparr>
     (snd (Put plain_lib \<lparr>c_dir = ''/c'', c_ttl = 5\<rparr> 0 ''bob'' ''x'' [''k''] (empty_disk (\<lambda>i. (None, 0)))))))) (''bob'', ''x'') = None"
proof -
  let ?c = "\<lparr>c_dir = ''/c'', c_ttl = 5\<rparr>"
  let ?w = "snd (Put plain_lib ?c 0 ''bob'' ''x'' [''k''] (empty_disk (\<lambda>i. (None, 0))))"
  have h: "clean_abs (c_dir ?c)" "tree_closed (dsk ?w)" "enabled ?c" by code_simp+
  have "fst (Purge ?c ?w) = None" by code_simp
  then have "Purge ?c ?w = (None, snd (Purge ?c ?w))" by (metis prod.collapse)
  moreover have "fault ?w = None" by code_simp
  ultimately show ?thesis using Purge_forgets [OF h, of None "snd (Purge ?c ?w)"] by auto
qed

end
