(* ===== verification/GoUrl.thy ===== *)
theory GoUrl
  imports Utf8
begin

text \<open>
  The parts of Go's \<^verbatim>\<open>net/url\<close> the program uses: url.Parse with its scheme, authority, query and
  fragment, query escaping, and the decoding of a query string. A host that contains an IP
  literal in brackets is left to the library (\<open>lib_ip\<close>). The lemmas say what an accepted URL
  looks like as text and that an encoded query decodes to the pairs it was built from.
\<close>

section \<open>Escapes\<close>

definition ishex :: "char \<Rightarrow> bool" where
  "ishex c = (is_digit c \<or> (97 \<le> byte c \<and> byte c \<le> 102) \<or> (65 \<le> byte c \<and> byte c \<le> 70))"

definition unhex :: "char \<Rightarrow> nat" where
  "unhex c = (if is_digit c then byte c - 48 else if 97 \<le> byte c then byte c - 87 else byte c - 55)"

definition is_alpha :: "char \<Rightarrow> bool" where
  "is_alpha c = ((97 \<le> byte c \<and> byte c \<le> 122) \<or> (65 \<le> byte c \<and> byte c \<le> 90))"

datatype url_mode = EncodePath | EncodeUser | EncodeHost | EncodeQuery | EncodeFragment

definition host_char :: "char \<Rightarrow> bool" where
  "host_char c = (is_alpha c \<or> is_digit c \<or> c \<in> set ''-_.~!$&()*+,;=:[]<>'' \<or> c = DQ \<or> c = CHR 0x27)"

definition escape_error :: "golib \<Rightarrow> string \<Rightarrow> go_error" where
  "escape_error L s = errors_New (''invalid URL escape '' @ quoted L s)"

definition bad_escape :: "url_mode \<Rightarrow> string \<Rightarrow> bool" where
  "bad_escape m s = (case s of
       a # b # t \<Rightarrow> \<not> ishex a \<or> \<not> ishex b \<or> (m = EncodeHost \<and> unhex a < 8 \<and> \<not> (a = CHR ''2'' \<and> b = CHR ''5''))
     | _ \<Rightarrow> True)"

text \<open>\<open>unescape\<close> checks and decodes in one pass; after a percent sign it takes two digits.\<close>

function unescape :: "golib \<Rightarrow> url_mode \<Rightarrow> string \<Rightarrow> go_error + string" where
  "unescape L m [] = Inr []"
| "unescape L m (c # s) =
     (if c = CHR ''%'' then
        (if bad_escape m s then Inl (escape_error L (take 3 (c # s)))
         else map_sum id (\<lambda>r. char_of (16 * unhex (s ! 0) + unhex (s ! 1)) # r) (unescape L m (drop 2 s)))
      else if m = EncodeHost \<and> byte c < 0x80 \<and> \<not> host_char c
      then Inl (errors_New (''invalid character '' @ quoted L [c] @ '' in host name''))
      else map_sum id (\<lambda>r. (if c = CHR ''+'' \<and> m = EncodeQuery then SP else c) # r) (unescape L m s))"
  by pat_completeness auto
termination
  by (relation "measure (\<lambda>(L, m, s). length s)") auto

definition hex_upper :: "nat \<Rightarrow> char" where
  "hex_upper n = (if n < 10 then char_of (48 + n) else char_of (55 + n))"

definition query_plain :: "char \<Rightarrow> bool" where
  "query_plain c = (is_alpha c \<or> is_digit c \<or> c \<in> set ''-_.~'')"

definition escape_byte :: "char \<Rightarrow> string" where
  "escape_byte c = (if query_plain c then [c] else if c = SP then ''+''
     else [CHR ''%'', hex_upper (byte c div 16), hex_upper (byte c mod 16)])"

definition QueryEscape :: "string \<Rightarrow> string" where
  "QueryEscape s = concat (map escape_byte s)"

section \<open>Query strings\<close>

definition Cut :: "string \<Rightarrow> char \<Rightarrow> string \<times> string" where
  "Cut s c = (takeWhile (\<lambda>x. x \<noteq> c) s, tl (dropWhile (\<lambda>x. x \<noteq> c) s))"

text \<open>url.Values.Encode for one value per key, the keys sorted.\<close>

definition encode_pair :: "string \<times> string \<Rightarrow> string" where
  "encode_pair kv = QueryEscape (fst kv) @ ''='' @ QueryEscape (snd kv)"

definition Values_Encode :: "strmap \<Rightarrow> string" where
  "Values_Encode m = Join ''&'' (map encode_pair (sort_key fst m))"

definition parse_pair :: "golib \<Rightarrow> string \<Rightarrow> (string \<times> string) list" where
  "parse_pair L p =
     (if CHR '';'' \<in> set p \<or> p = [] then []
      else case (unescape L EncodeQuery (fst (Cut p (CHR ''=''))), unescape L EncodeQuery (snd (Cut p (CHR ''='')))) of
        (Inr k, Inr v) \<Rightarrow> [(k, v)] | _ \<Rightarrow> [])"

definition ParseQuery :: "golib \<Rightarrow> string \<Rightarrow> (string \<times> string) list" where
  "ParseQuery L s = concat (map (parse_pair L) (split_on (CHR ''&'') s))"

definition Values_Get :: "(string \<times> string) list \<Rightarrow> string \<Rightarrow> string" where
  "Values_Get vs k = (case map_of vs k of Some v \<Rightarrow> v | None \<Rightarrow> [])"

section \<open>Parsing a URL\<close>

record URL =
  u_scheme :: string
  u_opaque :: string
  u_user :: "(string \<times> string option) option"
  u_host :: string
  u_path :: string
  u_force :: bool
  u_query :: string
  u_fragment :: string

definition empty_url :: URL where
  "empty_url = \<lparr>u_scheme = [], u_opaque = [], u_user = None, u_host = [], u_path = [], u_force = False,
     u_query = [], u_fragment = []\<rparr>"

definition lower_char :: "char \<Rightarrow> char" where
  "lower_char c = (if 65 \<le> byte c \<and> byte c \<le> 90 then char_of (byte c + 32) else c)"

text \<open>The loop of getScheme: \<open>i\<close> is the position, \<open>acc\<close> what was read.\<close>

fun getScheme :: "nat \<Rightarrow> string \<Rightarrow> string \<Rightarrow> go_error + (string \<times> string)" where
  "getScheme i acc [] = Inr ([], acc)"
| "getScheme i acc (c # s) =
     (if is_alpha c then getScheme (Suc i) (acc @ [c]) s
      else if is_digit c \<or> c = CHR ''+'' \<or> c = CHR ''-'' \<or> c = CHR ''.'' then
        (if i = 0 then Inr ([], acc @ c # s) else getScheme (Suc i) (acc @ [c]) s)
      else if c = CHR '':'' then
        (if i = 0 then Inl (errors_New ''missing protocol scheme'') else Inr (acc, s))
      else Inr ([], acc @ c # s))"

definition validOptionalPort :: "string \<Rightarrow> bool" where
  "validOptionalPort p = (case p of [] \<Rightarrow> True | c # t \<Rightarrow> c = CHR '':'' \<and> list_all is_digit t)"

definition last_cut :: "string \<Rightarrow> char \<Rightarrow> string \<times> string" where
  "last_cut s c = (rev (tl (dropWhile (\<lambda>x. x \<noteq> c) (rev s))), rev (takeWhile (\<lambda>x. x \<noteq> c) (rev s)))"

definition parseHost :: "golib \<Rightarrow> string \<Rightarrow> go_error + string" where
  "parseHost L host =
     (if CHR ''['' \<in> set host then (case lib_ip L host of Inl m \<Rightarrow> Inl (errors_New m) | Inr h \<Rightarrow> Inr h)
      else if CHR '':'' \<in> set host \<and> \<not> validOptionalPort ('':'' @ snd (last_cut host (CHR '':'')))
      then Inl (errors_New (''invalid port '' @ quoted L ('':'' @ snd (last_cut host (CHR '':''))) @ '' after host''))
      else unescape L EncodeHost host)"

definition user_char :: "char \<Rightarrow> bool" where
  "user_char c = (is_alpha c \<or> is_digit c \<or> c \<in> set ''-._:~!$&()*+,;=%@'' \<or> c = CHR 0x27)"

definition parseAuthority :: "golib \<Rightarrow> string \<Rightarrow> go_error + ((string \<times> string option) option \<times> string)" where
  "parseAuthority L a =
     (if CHR ''@'' \<notin> set a then
        (case parseHost L a of Inl e \<Rightarrow> Inl e | Inr h \<Rightarrow> Inr (None, h))
      else (let (ui, h) = last_cut a (CHR ''@'') in
        case parseHost L h of Inl e \<Rightarrow> Inl e
        | Inr host \<Rightarrow>
            if \<not> list_all user_char ui then Inl (errors_New ''net/url: invalid userinfo'')
            else if CHR '':'' \<notin> set ui then
              (case unescape L EncodeUser ui of Inl e \<Rightarrow> Inl e | Inr u \<Rightarrow> Inr (Some (u, None), host))
            else (case unescape L EncodeUser (fst (Cut ui (CHR '':''))) of Inl e \<Rightarrow> Inl e
              | Inr u \<Rightarrow> (case unescape L EncodeUser (snd (Cut ui (CHR '':''))) of Inl e \<Rightarrow> Inl e
                | Inr p \<Rightarrow> Inr (Some (u, Some p), host)))))"

text \<open>The query part: a lone trailing question mark forces an empty query.\<close>

definition cut_query :: "string \<Rightarrow> bool \<times> string \<times> string" where
  "cut_query rest =
     (if HasSuffix rest ''?'' \<and> length (filter (\<lambda>c. c = CHR ''?'') rest) = 1 then (True, butlast rest, [])
      else (False, fst (Cut rest (CHR ''?'')), snd (Cut rest (CHR ''?''))))"

definition parse_hier :: "golib \<Rightarrow> URL \<Rightarrow> string \<Rightarrow> go_error + URL" where
  "parse_hier L u rest =
     (if (u_scheme u \<noteq> [] \<or> \<not> HasPrefix rest ''///'') \<and> HasPrefix rest ''//'' then
        (let a = takeWhile (\<lambda>c. c \<noteq> CHR ''/'') (drop 2 rest); p = dropWhile (\<lambda>c. c \<noteq> CHR ''/'') (drop 2 rest) in
         case parseAuthority L a of Inl e \<Rightarrow> Inl e
         | Inr (user, host) \<Rightarrow> (case unescape L EncodePath p of Inl e \<Rightarrow> Inl e
             | Inr path \<Rightarrow> Inr (u\<lparr>u_user := user, u_host := host, u_path := path\<rparr>)))
      else (case unescape L EncodePath rest of Inl e \<Rightarrow> Inl e | Inr path \<Rightarrow> Inr (u\<lparr>u_path := path\<rparr>)))"

definition parse_url :: "golib \<Rightarrow> string \<Rightarrow> go_error + URL" where
  "parse_url L s =
     (if list_ex (\<lambda>c. byte c < 32 \<or> byte c = 127) s
      then Inl (errors_New ''net/url: invalid control character in URL'')
      else if s = ''*'' then Inr (empty_url\<lparr>u_path := ''*''\<rparr>)
      else case getScheme 0 [] s of Inl e \<Rightarrow> Inl e
      | Inr (scheme, rest0) \<Rightarrow>
          (let (force, rest, query) = cut_query rest0;
               u = empty_url\<lparr>u_scheme := map lower_char scheme, u_force := force, u_query := query\<rparr>
           in if \<not> HasPrefix rest ''/'' \<and> u_scheme u \<noteq> [] then Inr (u\<lparr>u_opaque := rest\<rparr>)
              else if \<not> HasPrefix rest ''/'' \<and> CHR '':'' \<in> set (fst (Cut rest (CHR ''/'')))
              then Inl (errors_New ''first path segment in URL cannot contain colon'')
              else parse_hier L u rest))"

definition url_error :: "golib \<Rightarrow> string \<Rightarrow> go_error \<Rightarrow> go_error" where
  "url_error L s e = wrapf (''parse '' @ quoted L s @ '': '') e []"

definition url_Parse :: "golib \<Rightarrow> string \<Rightarrow> go_error + URL" where
  "url_Parse L raw =
     (let (s, frag) = Cut raw (CHR ''#'') in
      case parse_url L s of Inl e \<Rightarrow> Inl (url_error L s e)
      | Inr u \<Rightarrow>
          if frag = [] then Inr u
          else (case unescape L EncodeFragment frag of Inl e \<Rightarrow> Inl (url_error L raw e)
            | Inr f \<Rightarrow> Inr (u\<lparr>u_fragment := f\<rparr>)))"

section \<open>Encoded queries decode\<close>

lemma unhex_upper: "n < 16 \<Longrightarrow> ishex (hex_upper n) \<and> unhex (hex_upper n) = n"
  by (auto simp: ishex_def unhex_def hex_upper_def is_digit_def)

lemma plain_not_special:
  "query_plain c \<Longrightarrow> c \<noteq> CHR ''%'' \<and> c \<noteq> CHR ''+'' \<and> c \<noteq> CHR ''&'' \<and> c \<noteq> CHR ''='' \<and> c \<noteq> CHR '';''"
  by (auto simp: query_plain_def is_alpha_def is_digit_def byte_def)

lemma hex_upper_not_special: "n < 16 \<Longrightarrow> hex_upper n \<noteq> CHR ''&'' \<and> hex_upper n \<noteq> CHR ''='' \<and> hex_upper n \<noteq> CHR '';''"
  using unhex_upper [of n] by (auto simp: ishex_def is_digit_def byte_def)

lemma unescape_escape_byte:
  "unescape L EncodeQuery (escape_byte c @ t) =
     map_sum id (\<lambda>r. c # r) (unescape L EncodeQuery t)"
proof -
  have "byte c div 16 < 16" "byte c mod 16 < 16" using byte_less [of c] by (auto simp: less_mult_imp_div_less)
  note h = unhex_upper [OF this(1)] unhex_upper [OF this(2)]
  have "16 * (byte c div 16) + byte c mod 16 = byte c" by simp
  then show ?thesis
    using h plain_not_special [of c] by (auto simp: escape_byte_def bad_escape_def)
qed

lemma unescape_QueryEscape [go_str]: "unescape L EncodeQuery (QueryEscape s) = Inr s"
  by (induction s) (simp_all add: QueryEscape_def unescape_escape_byte)

lemma escape_byte_clean: "x \<in> set (escape_byte c) \<Longrightarrow> x \<noteq> CHR ''&'' \<and> x \<noteq> CHR ''='' \<and> x \<noteq> CHR '';''"
proof -
  have "byte c div 16 < 16" "byte c mod 16 < 16" using byte_less [of c] by (auto simp: less_mult_imp_div_less)
  note h = hex_upper_not_special [OF this(1)] hex_upper_not_special [OF this(2)]
  assume "x \<in> set (escape_byte c)"
  then show ?thesis using h plain_not_special [of c] by (auto simp: escape_byte_def split: if_splits)
qed

lemma QueryEscape_clean: "x \<in> set (QueryEscape s) \<Longrightarrow> x \<noteq> CHR ''&'' \<and> x \<noteq> CHR ''='' \<and> x \<noteq> CHR '';''"
  using escape_byte_clean by (fastforce simp: QueryEscape_def)

lemma Cut_append: "c \<notin> set a \<Longrightarrow> Cut (a @ c # b) c = (a, b)"
  by (induction a) (auto simp: Cut_def)

lemma Cut_absent: "c \<notin> set s \<Longrightarrow> Cut s c = (s, [])"
  by (induction s) (auto simp: Cut_def)

lemma Cut_mem: "c \<in> set s \<Longrightarrow> s = fst (Cut s c) @ c # snd (Cut s c) \<and> c \<notin> set (fst (Cut s c))"
  by (induction s) (auto simp: Cut_def)

lemma parse_encode_pair: "parse_pair L (encode_pair kv) = [kv]"
proof -
  have "CHR ''='' \<notin> set (QueryEscape (fst kv))" using QueryEscape_clean by blast
  then have "Cut (encode_pair kv) (CHR ''='') = (QueryEscape (fst kv), QueryEscape (snd kv))"
    by (simp add: encode_pair_def Cut_append)
  moreover have "CHR '';'' \<notin> set (encode_pair kv)" using QueryEscape_clean by (auto simp: encode_pair_def)
  moreover have "encode_pair kv \<noteq> []" by (simp add: encode_pair_def)
  ultimately show ?thesis by (simp add: parse_pair_def unescape_QueryEscape)
qed

lemma ParseQuery_Encode [go_str]: "ParseQuery L (Values_Encode m) = sort_key fst m"
proof (cases "m = []")
  case True
  then show ?thesis by (simp add: Values_Encode_def ParseQuery_def parse_pair_def)
next
  case False
  then have "sort_key fst m \<noteq> []" by (metis length_0_conv length_sort)
  moreover have "CHR ''&'' \<notin> set (encode_pair kv)" for kv
    using QueryEscape_clean by (auto simp: encode_pair_def)
  ultimately have "split_on (CHR ''&'') (Values_Encode m) = map encode_pair (sort_key fst m)"
    unfolding Values_Encode_def by (intro split_on_Join) auto
  then show ?thesis by (simp add: ParseQuery_def comp_def parse_encode_pair)
qed

section \<open>What an accepted URL looks like\<close>

lemma getScheme_shape:
  "getScheme i acc s = Inr (sch, rest) \<Longrightarrow> length acc = i \<Longrightarrow> sch \<noteq> [] \<Longrightarrow> acc @ s = sch @ '':'' @ rest"
proof (induction i acc s rule: getScheme.induct)
  case (2 i acc c s)
  then show ?case by (auto split: if_splits)
qed simp

lemma cut_query_none:
  assumes "cut_query s = (False, r, [])"
  shows "r = s \<and> CHR ''?'' \<notin> set s"
proof -
  have q: "snd (Cut s (CHR ''?'')) = []" "r = fst (Cut s (CHR ''?''))"
    using assms by (auto simp: cut_query_def split: if_splits)
  have "CHR ''?'' \<notin> set s"
  proof
    assume "CHR ''?'' \<in> set s"
    from Cut_mem [OF this] q have s: "s = r @ ''?''" and na: "CHR ''?'' \<notin> set r" by auto
    have "HasSuffix s ''?''" by (simp add: s)
    moreover have "length (filter (\<lambda>c. c = CHR ''?'') s) = 1"
      using na by (auto simp: s filter_empty_conv)
    ultimately show False using assms by (simp add: cut_query_def)
  qed
  with q show ?thesis by (simp add: Cut_absent)
qed

lemma parseAuthority_no_user: "parseAuthority L a = Inr (None, h) \<Longrightarrow> CHR ''@'' \<notin> set a \<and> parseHost L a = Inr h"
  by (auto simp: parseAuthority_def Let_def split: if_splits sum.splits prod.splits)

text \<open>
  A URL with a scheme, a host, no query, no user and no fragment mark is scheme, authority and
  path, written one after the other.
\<close>

lemma url_Parse_shape:
  assumes "url_Parse L s = Inr u" "u_host u \<noteq> []" "u_scheme u \<noteq> []" "u_query u = []" "\<not> u_force u"
    "CHR ''#'' \<notin> set s" "u_user u = None"
  obtains sch auth p where "s = sch @ ''://'' @ auth @ p" "map lower_char sch = u_scheme u"
    "CHR ''?'' \<notin> set (''//'' @ auth @ p)" "CHR ''@'' \<notin> set auth" "CHR ''/'' \<notin> set auth" "p = [] \<or> HasPrefix p ''/''"
    "parseHost L auth = Inr (u_host u)"
proof -
  have u: "parse_url L s = Inr u"
    using assms(1) by (auto simp: url_Parse_def Cut_absent [OF assms(6)] split: sum.splits)
  have "parse_url L ''*'' = Inr (empty_url\<lparr>u_path := ''*''\<rparr>)" by (simp add: parse_url_def byte_def)
  with u assms(2) have star: "s \<noteq> ''*''" by (auto simp: empty_url_def)
  then obtain sch rest0 where g: "getScheme 0 [] s = Inr (sch, rest0)"
    using u by (auto simp: parse_url_def split: if_splits sum.splits)
  obtain f rest q where c: "cut_query rest0 = (f, rest, q)" by (metis prod.exhaust)
  define v where "v = empty_url\<lparr>u_scheme := map lower_char sch, u_force := f, u_query := q\<rparr>"
  have hier: "parse_hier L v rest = Inr u"
    using u star g c assms(2) by (auto simp: parse_url_def v_def Let_def empty_url_def split: if_splits)
  define a p where "a = takeWhile (\<lambda>c. c \<noteq> CHR ''/'') (drop 2 rest)" and "p = dropWhile (\<lambda>c. c \<noteq> CHR ''/'') (drop 2 rest)"
  have auth: "HasPrefix rest ''//''" "parseAuthority L a = Inr (u_user u, u_host u)"
    "u_scheme u = map lower_char sch" "u_force u = f" "u_query u = q"
    using hier assms(2) by (auto simp: parse_hier_def v_def a_def empty_url_def Let_def split: if_splits sum.splits)
  have sch: "s = sch @ '':'' @ rest0" using getScheme_shape [OF g] assms(3) auth(3) by auto
  have r0: "rest = rest0" "CHR ''?'' \<notin> set rest0" using c auth assms cut_query_none by auto
  have "rest = ''//'' @ drop 2 rest" using auth(1) by (auto simp: HasPrefix_iff)
  then have "rest = ''//'' @ a @ p" unfolding a_def p_def by simp
  moreover have "CHR ''/'' \<notin> set a" unfolding a_def by (auto dest: set_takeWhileD)
  moreover have "p = [] \<or> HasPrefix p ''/''"
    unfolding p_def by (cases "dropWhile (\<lambda>c. c \<noteq> CHR ''/'') (drop 2 rest)") (auto simp: HasPrefix_def dest: dropWhile_eq_Cons_conv [THEN iffD1])
  ultimately show ?thesis
    using that [of sch a p] sch r0 auth(2,3) assms(7) parseAuthority_no_user by auto
qed

section \<open>Errors of the parser wrap nothing\<close>

definition plain :: "go_error + 'a \<Rightarrow> bool" where
  "plain r = (case r of Inl e \<Rightarrow> err_is e = [] | Inr x \<Rightarrow> True)"

lemma plain_simps [simp]:
  "plain (Inr x)" "plain (Inl (errors_New m))" "plain (Inl (escape_error L s))"
  by (simp_all add: plain_def errors_New_def escape_error_def)

lemma plain_bind:
  "plain r \<Longrightarrow> (\<And>x. r = Inr x \<Longrightarrow> plain (f x)) \<Longrightarrow> plain (case r of Inl e \<Rightarrow> Inl e | Inr x \<Rightarrow> f x)"
  by (auto simp: plain_def split: sum.splits)

lemma plain_if: "(b \<Longrightarrow> plain x) \<Longrightarrow> (\<not> b \<Longrightarrow> plain y) \<Longrightarrow> plain (if b then x else y)"
  by simp

lemma plain_map_sum: "plain (map_sum id f r) = plain r"
  by (cases r) (simp_all add: plain_def)

lemma plain_unescape: "plain (unescape L m s)"
  by (induction L m s rule: unescape.induct) (auto simp: plain_map_sum)

lemma plain_parseHost: "plain (parseHost L h)"
  by (auto simp: parseHost_def plain_unescape split: sum.split intro!: plain_if)

lemma plain_parseAuthority: "plain (parseAuthority L a)"
  unfolding parseAuthority_def Let_def case_prod_beta
  by (intro plain_if plain_bind plain_unescape plain_parseHost) simp_all

lemma plain_getScheme: "plain (getScheme i acc s)"
  by (induction i acc s rule: getScheme.induct) (auto intro!: plain_if)

lemma plain_parse_hier: "plain (parse_hier L u r)"
  unfolding parse_hier_def Let_def
  by (intro plain_if plain_bind plain_unescape plain_parseAuthority)
    (auto intro!: plain_bind plain_unescape)

lemma plain_parse_url: "plain (parse_url L s)"
  unfolding parse_url_def Let_def
  by (intro plain_if plain_bind plain_getScheme)
    (auto intro!: plain_if plain_parse_hier split: prod.split)

lemma url_Parse_plain_error: "url_Parse L s = Inl e \<Longrightarrow> \<not> Is e x"
  using plain_parse_url [of L "fst (Cut s (CHR ''#''))"] plain_unescape [of L EncodeFragment "snd (Cut s (CHR ''#''))"]
  by (auto simp: url_Parse_def url_error_def wrapf_def Is_def plain_def Let_def case_prod_beta split: if_splits sum.splits)

text \<open>Rules that evaluate the parser on a concrete URL.\<close>

lemmas url_simps = url_Parse_def parse_url_def Cut_def cut_query_def parse_hier_def parseAuthority_def parseHost_def
  HasPrefix_def HasSuffix_def is_alpha_def is_digit_def lower_char_def byte_def host_char_def empty_url_def

section \<open>Base URLs\<close>

text \<open>The checks the program makes of a configured base URL, and what they leave as text.\<close>

definition url_ok :: "golib \<Rightarrow> bool \<Rightarrow> string \<Rightarrow> bool" where
  "url_ok L insecure s =
     (case url_Parse L s of Inl e \<Rightarrow> False
      | Inr u \<Rightarrow> u_host u \<noteq> [] \<and> u_query u = [] \<and> \<not> u_force u \<and> \<not> Contains s ''#'' \<and> u_user u = None
          \<and> (u_scheme u = ''https'' \<or> (u_scheme u = ''http'' \<and> insecure)))"

definition base_text :: "bool \<Rightarrow> string \<Rightarrow> bool" where
  "base_text insecure s =
     (\<exists>sch auth p. s = sch @ ''://'' @ auth @ p
       \<and> (map lower_char sch = ''https'' \<or> (map lower_char sch = ''http'' \<and> insecure))
       \<and> auth \<noteq> [] \<and> CHR ''@'' \<notin> set auth \<and> CHR ''/'' \<notin> set auth \<and> (p = [] \<or> HasPrefix p ''/'')
       \<and> CHR ''?'' \<notin> set s \<and> CHR ''#'' \<notin> set s)"

lemma url_ok_text:
  assumes "url_ok L insecure s"
  shows "base_text insecure s"
proof -
  obtain u where u: "url_Parse L s = Inr u" "u_host u \<noteq> []" "u_query u = []" "\<not> u_force u" "\<not> Contains s ''#''"
    "u_user u = None" and sc: "u_scheme u = ''https'' \<or> (u_scheme u = ''http'' \<and> insecure)"
    using assms by (auto simp: url_ok_def split: sum.splits)
  have nf: "CHR ''#'' \<notin> set s" using u(5) by (auto simp: Contains_iff in_set_conv_decomp)
  have "u_scheme u \<noteq> []" using sc by auto
  from url_Parse_shape [OF u(1,2) this u(3,4) nf u(6)] obtain sch auth p where
    sh: "s = sch @ ''://'' @ auth @ p" "map lower_char sch = u_scheme u"
    "CHR ''?'' \<notin> set (''//'' @ auth @ p)" "CHR ''@'' \<notin> set auth" "CHR ''/'' \<notin> set auth" "p = [] \<or> HasPrefix p ''/''"
    "parseHost L auth = Inr (u_host u)" by blast
  have "auth \<noteq> []" using sh(7) u(2) by (auto simp: parseHost_def)
  moreover have m: "map lower_char sch = ''https'' \<or> (map lower_char sch = ''http'' \<and> insecure)"
    using sc sh(2) by simp
  moreover have "CHR ''?'' \<notin> set sch"
  proof
    assume "CHR ''?'' \<in> set sch"
    then have "lower_char (CHR ''?'') \<in> set (map lower_char sch)" by auto
    then show False using m by (auto simp: lower_char_def byte_def)
  qed
  then have "CHR ''?'' \<notin> set s" using sh(1,3) by simp
  ultimately show ?thesis using sh(1,4-6) nf unfolding base_text_def
    by - (intro exI [of _ sch] exI [of _ auth] exI [of _ p] conjI, assumption+)
qed

lemma base_text_no_query: "base_text insecure s \<Longrightarrow> CHR ''?'' \<notin> set s"
  unfolding base_text_def by (elim exE conjE)

end
