(* ===== verification/Provider.thy ===== *)
theory Provider
  imports Pamlog GoTime GoUrl "HOL-Library.Sublist"
begin

text \<open>
  Package provider (\<^verbatim>\<open>src/internal/provider/client.go\<close>): the client of the SSH access API. The
  HTTP transport, JSON and the OpenSSH key parser are arguments (record \<open>provider_env\<close>); the
  model has the validation of the base URL, both requests with their error classification, the
  reading and filtering of an authorized-keys body, and the text sanitiser. The lemmas say
  which failures count as an outage, what a request carries, and what lines can come out.
\<close>

section \<open>The package\<close>

definition DefaultBasePath :: string where "DefaultBasePath = ''/api/ssh''"
definition MaxKeysBytes :: int where "MaxKeysBytes = 65536"
definition MaxKeysLines :: int where "MaxKeysLines = 100"
definition maxJSONBody :: int where "maxJSONBody = 65536"
definition maxErrorBody :: int where "maxErrorBody = 8192"
definition maxErrorCodeLen :: int where "maxErrorCodeLen = 40"
definition maxErrorDescriptionLen :: int where "maxErrorDescriptionLen = 200"

definition sentinel_text :: "sentinel \<Rightarrow> go_error" where
  "sentinel_text s = sentinel_error s (case s of
       ErrUnauthorized \<Rightarrow> ''provider: unauthorized''
     | ErrForbidden \<Rightarrow> ''provider: forbidden''
     | ErrRateLimited \<Rightarrow> ''provider: rate limited''
     | ErrConflict \<Rightarrow> ''provider: conflict''
     | ErrUnavailable \<Rightarrow> ''provider: unavailable''
     | _ \<Rightarrow> ''provider: unexpected response'')"

datatype 'h http_client = GivenClient 'h | NoRedirectClient duration

record 'h Options =
  o_Base :: string
  o_HTTPTimeout :: duration
  o_AllowInsecureHTTP :: bool
  o_HTTPClient :: "'h option"

record 'h Client =
  cl_base :: string
  cl_endpoint :: string
  cl_http :: "'h http_client"

definition New :: "golib \<Rightarrow> 'h Options \<Rightarrow> go_error + 'h Client" where
  "New L opts =
     (let base = o_Base opts;
          fail = (\<lambda>m. Inl (errors_New (''provider: base URL '' @ quoted L base @ m)));
          build = (case o_HTTPClient opts of
              Some h \<Rightarrow> Inr \<lparr>cl_base = base, cl_endpoint = TrimSuffix base ''/'', cl_http = GivenClient h\<rparr>
            | None \<Rightarrow>
                if o_HTTPTimeout opts \<le> 0 then
                  Inl (errors_New (''provider: http timeout must be positive, got '' @ Duration_String (o_HTTPTimeout opts)))
                else Inr \<lparr>cl_base = base, cl_endpoint = TrimSuffix base ''/'',
                          cl_http = NoRedirectClient (o_HTTPTimeout opts)\<rparr>)
      in if TrimSpace base = [] then Inl (errors_New ''provider: base URL is required'')
         else case url_Parse L base of
           Inl e \<Rightarrow> Inl (wrapf (''provider: invalid base URL '' @ quoted L base @ '': '') e [])
         | Inr u \<Rightarrow>
             if u_host u = [] then fail '' is not absolute''
             else if u_query u \<noteq> [] \<or> u_force u then fail '' must not contain a query component''
             else if Contains base ''#'' then fail '' must not contain a fragment''
             else if u_user u \<noteq> None then fail '' must not contain userinfo''
             else if u_scheme u = ''https'' then build
             else if u_scheme u = ''http'' \<and> o_AllowInsecureHTTP opts then build
             else if u_scheme u = ''http'' then fail '' uses http (allowed only for testing)''
             else fail '' must use https'')"

definition Base :: "'h Client \<Rightarrow> string" where
  "Base c = cl_base c"

definition ResolveBase :: "string \<Rightarrow> string \<Rightarrow> string \<Rightarrow> string" where
  "ResolveBase apiBase issuer discoveryEndpoint =
     (if TrimSpace apiBase \<noteq> [] then TrimSpace apiBase
      else if TrimSpace discoveryEndpoint \<noteq> [] then TrimSpace discoveryEndpoint
      else if TrimSpace issuer \<noteq> [] then TrimSuffix (TrimSpace issuer) ''/'' @ DefaultBasePath
      else [])"

subsection \<open>Text from the provider\<close>

fun text_loop :: "(rune \<Rightarrow> bool) \<Rightarrow> rune list \<Rightarrow> bool \<Rightarrow> rune list \<Rightarrow> rune list" where
  "text_loop tbl out pendingSpace [] = out"
| "text_loop tbl out pendingSpace (r # rs) =
     (if IsSpace r \<or> \<not> IsPrint tbl r then text_loop tbl out True rs
      else text_loop tbl ((if pendingSpace \<and> 0 < length out then out @ [0x20] else out) @ [r]) False rs)"

definition sanitizeProviderText :: "golib \<Rightarrow> string \<Rightarrow> int \<Rightarrow> string" where
  "sanitizeProviderText L s limit =
     (let out = text_loop (lib_print L) [] False (runes s) in
      if limit < int (length out) then of_runes (take (nat limit) out) @ ''...'' else of_runes out)"

subsection \<open>Requests, answers and what is left to libraries\<close>

record http_request =
  rq_method :: string
  rq_url :: string
  rq_header :: strmap
  rq_body :: string

record http_response =
  rs_status :: int
  rs_ctype :: string
  rs_body :: string
  rs_body_err :: "go_error option"

record EnrollRequest =
  er_PublicKey :: string
  er_Name :: string
  er_Hostname :: string
  er_Groups :: "string list option"
  er_Accounts :: "string list option"
  er_AgentVersion :: string

record EnrollResponse =
  en_HostID :: string
  en_Name :: string
  en_Groups :: "string list"
  en_Accounts :: "string list"
  en_Created :: bool

record enrollWire =
  ew_publicKey :: string
  ew_name :: string
  ew_hostname :: string
  ew_groups :: "string list"
  ew_accounts :: "string list"
  ew_agentVersion :: string

record enrollResult =
  re_hostId :: string
  re_name :: string
  re_groups :: "string list option"
  re_accounts :: "string list option"

text \<open>
  The transport (\<open>pe_do\<close>), the JSON encodings and decodings the package asks for, and whether
  \<^verbatim>\<open>ssh.ParseAuthorizedKey\<close> accepts a line. A body that cannot be read to its end yields its
  bytes and then \<open>rs_body_err\<close>.
\<close>

record ('h, 'w) provider_env =
  pe_do :: "'h http_client \<Rightarrow> http_request \<Rightarrow> 'w \<Rightarrow> (go_error + http_response) \<times> 'w"
  pe_marshal :: "enrollWire \<Rightarrow> go_error + string"
  pe_result :: "string \<Rightarrow> enrollResult option"
  pe_error :: "string \<Rightarrow> (string \<times> string \<times> string) option"
  pe_string :: "string \<Rightarrow> string option"
  pe_strings :: "string \<Rightarrow> string list option"
  pe_key :: "string \<Rightarrow> bool"

definition nonNil :: "string list option \<Rightarrow> string list" where
  "nonNil s = (case s of None \<Rightarrow> [] | Some xs \<Rightarrow> xs)"

text \<open>io.ReadAll on a LimitReader: the limit is reached before an error behind it is seen.\<close>

definition readAll :: "http_response \<Rightarrow> int \<Rightarrow> string \<times> go_error option" where
  "readAll resp n = (take (nat n) (rs_body resp),
     if int (length (rs_body resp)) < n then rs_body_err resp else None)"

definition readLimited :: "http_response \<Rightarrow> int \<Rightarrow> go_error + (string \<times> bool)" where
  "readLimited resp limit =
     (case readAll resp (limit + 1) of
        (data, Some e) \<Rightarrow> Inl e
      | (data, None) \<Rightarrow> if limit < int (length data) then Inr (take (nat limit) data, True) else Inr (data, False))"

subsection \<open>Errors\<close>

definition transportError :: "string \<Rightarrow> go_error \<Rightarrow> go_error" where
  "transportError opn e = wrap2 (wrapf [] (sentinel_text ErrUnavailable) ('': '' @ opn)) '': '' e"

definition sentinelFor :: "int \<Rightarrow> sentinel" where
  "sentinelFor status =
     (if status = 401 then ErrUnauthorized
      else if status = 403 then ErrForbidden
      else if status = 409 then ErrConflict
      else if status = 429 then ErrRateLimited
      else if 500 \<le> status then ErrUnavailable
      else ErrBadResponse)"

definition messageText :: "('h, 'w) provider_env \<Rightarrow> string \<Rightarrow> string" where
  "messageText E raw =
     (if raw = [] then []
      else case pe_string E raw of Some one \<Rightarrow> one
      | None \<Rightarrow> (case pe_strings E raw of Some many \<Rightarrow> Join ''; '' many | None \<Rightarrow> []))"

definition jsonError :: "golib \<Rightarrow> ('h, 'w) provider_env \<Rightarrow> string \<Rightarrow> string \<Rightarrow> string \<times> string" where
  "jsonError L E contentType body =
     (case lib_media L contentType of None \<Rightarrow> ([], [])
      | Some mediaType \<Rightarrow>
          if mediaType \<noteq> ''application/json'' \<and> \<not> HasSuffix mediaType ''+json'' then ([], [])
          else (case pe_error E body of None \<Rightarrow> ([], [])
            | Some (code, desc, message) \<Rightarrow> (code, if desc = [] then messageText E message else desc)))"

definition responseError :: "golib \<Rightarrow> ('h, 'w) provider_env \<Rightarrow> string \<Rightarrow> http_response \<Rightarrow> go_error" where
  "responseError L E opn resp =
     (let body = fst (readAll resp maxErrorBody);
          (code0, desc0) = jsonError L E (rs_ctype resp) body;
          code = sanitizeProviderText L code0 maxErrorCodeLen;
          desc = sanitizeProviderText L desc0 maxErrorDescriptionLen
      in wrapf [] (sentinel_text (sentinelFor (rs_status resp)))
           ('': '' @ opn @ '': provider returned HTTP '' @ deci (rs_status resp)
            @ (if code \<noteq> [] then '' ('' @ code @ '')'' else [])
            @ (if desc \<noteq> [] then '': '' @ desc else [])))"

subsection \<open>Enrolment\<close>

definition enroll_check :: "string \<Rightarrow> EnrollRequest \<Rightarrow> go_error option" where
  "enroll_check accessToken req =
     (if TrimSpace accessToken = [] then Some (errors_New ''provider: enrolment needs an access token'')
      else if TrimSpace (er_PublicKey req) = [] then Some (errors_New ''provider: enrolment needs a public key'')
      else if TrimSpace (er_Name req) = [] then Some (errors_New ''provider: enrolment needs a host name'')
      else if nonNil (er_Accounts req) = [] then Some (errors_New ''provider: enrolment needs at least one account'')
      else None)"

definition enroll_wire :: "EnrollRequest \<Rightarrow> enrollWire" where
  "enroll_wire req =
     \<lparr>ew_publicKey = er_PublicKey req, ew_name = er_Name req, ew_hostname = er_Hostname req,
      ew_groups = nonNil (er_Groups req), ew_accounts = nonNil (er_Accounts req),
      ew_agentVersion = er_AgentVersion req\<rparr>"

definition enroll_answer :: "golib \<Rightarrow> ('h, 'w) provider_env \<Rightarrow> http_response \<Rightarrow> go_error + EnrollResponse" where
  "enroll_answer L E resp =
     (let opn = ''enrolment request'' in
      if rs_status resp \<noteq> 200 \<and> rs_status resp \<noteq> 201 then Inl (responseError L E opn resp)
      else case readLimited resp maxJSONBody of
        Inl e \<Rightarrow> Inl (transportError opn e)
      | Inr (raw, _) \<Rightarrow>
          (case pe_result E raw of
             None \<Rightarrow> Inl (wrapf [] (sentinel_text ErrBadResponse) ('': '' @ opn @ '': body is not valid JSON''))
           | Some r \<Rightarrow>
               if re_hostId r = [] then
                 Inl (wrapf [] (sentinel_text ErrBadResponse) ('': '' @ opn @ '': answer has no hostId''))
               else Inr \<lparr>en_HostID = re_hostId r, en_Name = re_name r, en_Groups = nonNil (re_groups r),
                         en_Accounts = nonNil (re_accounts r), en_Created = (rs_status resp = 201)\<rparr>))"

definition Enroll :: "golib \<Rightarrow> ('h, 'w) provider_env \<Rightarrow> 'h Client \<Rightarrow> string \<Rightarrow> EnrollRequest \<Rightarrow> 'w
    \<Rightarrow> (go_error + EnrollResponse) \<times> 'w" where
  "Enroll L E c accessToken req w =
     (case enroll_check accessToken req of Some e \<Rightarrow> (Inl e, w)
      | None \<Rightarrow> (case pe_marshal E (enroll_wire req) of
          Inl e \<Rightarrow> (Inl (wrapf ''provider: encode enrolment request: '' e []), w)
        | Inr body \<Rightarrow> (case url_Parse L (cl_endpoint c @ ''/hosts/enroll'') of
            Inl e \<Rightarrow> (Inl (wrapf ''provider: build enrolment request: '' e []), w)
          | Inr u \<Rightarrow>
              (case pe_do E (cl_http c)
                 \<lparr>rq_method = ''POST'', rq_url = cl_endpoint c @ ''/hosts/enroll'',
                  rq_header = [(''Authorization'', ''Bearer '' @ accessToken), (''Content-Type'', ''application/json''),
                               (''Accept'', ''application/json'')], rq_body = body\<rparr> w of
                 (Inl e, w') \<Rightarrow> (Inl (transportError ''enrolment request'' e), w')
               | (Inr resp, w') \<Rightarrow> (enroll_answer L E resp, w')))))"

subsection \<open>Authorized keys\<close>

record Keys =
  k_Lines :: "string list"
  k_Dropped :: nat
  k_Capped :: bool
  k_Truncated :: bool

definition validKeyLine :: "('h, 'w) provider_env \<Rightarrow> string \<Rightarrow> bool" where
  "validKeyLine E line = (list_all (\<lambda>r. r = 9 \<or> \<not> IsControl r) (runes line) \<and> pe_key E line)"

fun keys_loop :: "('h, 'w) provider_env \<Rightarrow> string list \<Rightarrow> Keys \<Rightarrow> Keys" where
  "keys_loop E [] keys = keys"
| "keys_loop E (raw # rest) keys =
     (let line = TrimRightBytes raw [CR] in
      if TrimSpace line = [] then keys_loop E rest keys
      else if \<not> validKeyLine E line then keys_loop E rest (keys\<lparr>k_Dropped := Suc (k_Dropped keys)\<rparr>)
      else if MaxKeysLines \<le> int (length (k_Lines keys)) then keys\<lparr>k_Capped := True\<rparr>
      else keys_loop E rest (keys\<lparr>k_Lines := k_Lines keys @ [line]\<rparr>))"

definition parseKeys :: "('h, 'w) provider_env \<Rightarrow> string \<Rightarrow> bool \<Rightarrow> Keys" where
  "parseKeys E body truncated =
     keys_loop E (split_on NL body) \<lparr>k_Lines = [], k_Dropped = 0, k_Capped = False, k_Truncated = truncated\<rparr>"

definition dropPartialLine :: "string \<Rightarrow> string" where
  "dropPartialLine data = rev (dropWhile (\<lambda>c. c \<noteq> NL) (rev data))"

definition keys_query :: "string \<Rightarrow> string \<Rightarrow> string \<Rightarrow> strmap" where
  "keys_query account fingerprint envName =
     [(''account'', account)] @ (if fingerprint \<noteq> [] then [(''fingerprint'', fingerprint)] else [])
     @ (if envName \<noteq> [] then [(''env'', envName)] else [])"

definition keys_request :: "'h Client \<Rightarrow> string \<Rightarrow> string \<Rightarrow> string \<Rightarrow> string \<Rightarrow> http_request" where
  "keys_request c assertion account fingerprint envName =
     \<lparr>rq_method = ''GET'',
      rq_url = cl_endpoint c @ ''/authorized-keys?'' @ Values_Encode (keys_query account fingerprint envName),
      rq_header = [(''Authorization'', ''Bearer '' @ assertion), (''Accept'', ''text/plain'')],
      rq_body = []\<rparr>"

definition keys_answer :: "golib \<Rightarrow> ('h, 'w) provider_env \<Rightarrow> http_response \<Rightarrow> go_error + Keys" where
  "keys_answer L E resp =
     (let opn = ''authorized-keys request'' in
      if rs_status resp \<noteq> 200 then Inl (responseError L E opn resp)
      else case readLimited resp MaxKeysBytes of
        Inl e \<Rightarrow> Inl (transportError opn e)
      | Inr (raw, truncated) \<Rightarrow> Inr (parseKeys E (if truncated then dropPartialLine raw else raw) truncated))"

definition FetchAuthorizedKeys :: "golib \<Rightarrow> ('h, 'w) provider_env \<Rightarrow> 'h Client \<Rightarrow> string \<Rightarrow> string \<Rightarrow> string \<Rightarrow> string
    \<Rightarrow> 'w \<Rightarrow> (go_error + Keys) \<times> 'w" where
  "FetchAuthorizedKeys L E c assertion account fingerprint envName w =
     (if TrimSpace assertion = [] then (Inl (errors_New ''provider: authorized keys need a host assertion''), w)
      else if TrimSpace account = [] then (Inl (errors_New ''provider: authorized keys need an account''), w)
      else (let req = keys_request c assertion account fingerprint envName in
        case url_Parse L (rq_url req) of
          Inl e \<Rightarrow> (Inl (wrapf ''provider: build authorized-keys request: '' e []), w)
        | Inr u \<Rightarrow>
            (case pe_do E (cl_http c) req w of
               (Inl e, w') \<Rightarrow> (Inl (transportError ''authorized-keys request'' e), w')
             | (Inr resp, w') \<Rightarrow> (keys_answer L E resp, w'))))"

definition AuthorizedKeys :: "golib \<Rightarrow> ('h, 'w) provider_env \<Rightarrow> 'h Client \<Rightarrow> string \<Rightarrow> string \<Rightarrow> string \<Rightarrow> string
    \<Rightarrow> 'w \<Rightarrow> (go_error + string list) \<times> 'w" where
  "AuthorizedKeys L E c assertion account fingerprint envName w =
     (case FetchAuthorizedKeys L E c assertion account fingerprint envName w of
        (Inl e, w') \<Rightarrow> (Inl e, w') | (Inr keys, w') \<Rightarrow> (Inr (k_Lines keys), w'))"

section \<open>Lines of an answer\<close>

definition candidates :: "string \<Rightarrow> string list" where
  "candidates body = filter (\<lambda>l. TrimSpace l \<noteq> []) (map (\<lambda>r. TrimRightBytes r [CR]) (split_on NL body))"

definition candidate_lines :: "string list \<Rightarrow> string list" where
  "candidate_lines rs = filter (\<lambda>l. TrimSpace l \<noteq> []) (map (\<lambda>r. TrimRightBytes r [CR]) rs)"

lemma candidates_lines: "candidates body = candidate_lines (split_on NL body)"
  by (simp add: candidates_def candidate_lines_def)

lemma keys_loop_lines:
  assumes "length (k_Lines keys) \<le> 100"
  shows "k_Lines (keys_loop E rs keys) =
    k_Lines keys @ take (100 - length (k_Lines keys)) (filter (validKeyLine E) (candidate_lines rs))"
  using assms
  by (induction E rs keys rule: keys_loop.induct)
    (auto simp: candidate_lines_def MaxKeysLines_def Let_def take_Cons')

lemma keys_loop_flags:
  assumes "length (k_Lines keys) \<le> 100"
  shows "k_Truncated (keys_loop E rs keys) = k_Truncated keys"
    and "k_Capped (keys_loop E rs keys) =
      (k_Capped keys \<or> 100 < length (k_Lines keys) + length (filter (validKeyLine E) (candidate_lines rs)))"
    and "if 100 < length (k_Lines keys) + length (filter (validKeyLine E) (candidate_lines rs))
      then k_Dropped (keys_loop E rs keys) \<le> k_Dropped keys + length (filter (\<lambda>l. \<not> validKeyLine E l) (candidate_lines rs))
      else k_Dropped (keys_loop E rs keys) = k_Dropped keys + length (filter (\<lambda>l. \<not> validKeyLine E l) (candidate_lines rs))"
  using assms
  by (induction E rs keys rule: keys_loop.induct)
    (auto simp: candidate_lines_def MaxKeysLines_def Let_def split: if_splits)

lemma TrimRightBytes_no_suffix: "\<not> HasSuffix (TrimRightBytes s [b]) [b]"
proof -
  have "dropWhile (\<lambda>c. c = b) (rev s) \<noteq> b # t" for t using hd_dropWhile [of "\<lambda>c. c = b" "rev s"] by force
  then show ?thesis by (auto simp: TrimRightBytes_def HasSuffix_iff rev_eq_append_conv rev_swap)
qed

lemma length_split_on: "x \<in> set (split_on b s) \<Longrightarrow> length x \<le> length s"
proof (induction s arbitrary: x)
  case (Cons c s)
  then show ?case by (fastforce split: if_splits list.splits)
qed simp

lemma TrimRightBytes_length: "length (TrimRightBytes s cs) \<le> length s"
  by (simp add: TrimRightBytes_def) (metis length_dropWhile_le length_rev)

lemma candidate_shape:
  assumes "l \<in> set (candidates body)"
  shows "NL \<notin> set l" "\<not> HasSuffix l [CR]" "TrimSpace l \<noteq> []" "l \<noteq> []" "length l \<le> length body"
proof -
  obtain r where r: "r \<in> set (split_on NL body)" "l = TrimRightBytes r [CR]" "TrimSpace l \<noteq> []"
    using assms by (auto simp: candidates_def)
  then show "NL \<notin> set l" using split_on_elem [OF r(1)] TrimRightBytes_set [of r "[CR]"] by auto
  show "\<not> HasSuffix l [CR]" using r TrimRightBytes_no_suffix by simp
  show "TrimSpace l \<noteq> []" "l \<noteq> []" using r by auto
  show "length l \<le> length body"
    using r length_split_on [OF r(1)] TrimRightBytes_length [of r "[CR]"] by simp
qed

section \<open>Cut answers\<close>

lemma dropPartialLine_shape: "\<exists>ls. dropPartialLine s = unlines ls \<and> list_all (\<lambda>l. NL \<notin> set l) ls"
proof -
  have "\<exists>ls. t = [] \<or> (t = unlines ls \<and> list_all (\<lambda>l. NL \<notin> set l) ls)" if "t = [] \<or> last t = NL" for t
  proof -
    let ?ps = "split_on NL t"
    have j: "Join [NL] ?ps = t" by simp
    show ?thesis
    proof (cases "t = []")
      case False
      with that have "HasSuffix t [NL]" by (metis HasSuffix_append append_butlast_last_id)
      then obtain x where x: "t = x @ NL # []" by (auto simp: HasSuffix_iff)
      have "unlines (split_on NL x) = x @ [NL]"
      proof -
        have "unlines xs = Join [NL] xs @ [NL]" if "xs \<noteq> []" for xs
          using that by (induction xs rule: induct_list012) (auto simp: unlines_def)
        then show ?thesis by simp
      qed
      with x show ?thesis using split_on_elem [of _ NL x] by (metis list_all_iff)
    qed auto
  qed
  moreover have "dropPartialLine s = [] \<or> last (dropPartialLine s) = NL"
  proof (cases "dropWhile (\<lambda>c. c \<noteq> NL) (rev s)")
    case (Cons a t)
    then have "a = NL" using hd_dropWhile [of "\<lambda>c. c \<noteq> NL" "rev s"] by force
    with Cons show ?thesis by (simp add: dropPartialLine_def)
  qed (simp add: dropPartialLine_def)
  ultimately obtain ls where "dropPartialLine s = [] \<or> (dropPartialLine s = unlines ls \<and> list_all (\<lambda>l. NL \<notin> set l) ls)"
    by meson
  then show ?thesis by (auto intro: exI [of _ "[]"] simp: unlines_def)
qed

lemma dropPartialLine_prefix: "\<exists>t. s = dropPartialLine s @ t"
  unfolding dropPartialLine_def
  by (metis append_take_drop_id dropWhile_eq_drop rev_append rev_rev_ident)

lemma split_on_unlines_append: "list_all (\<lambda>l. NL \<notin> set l) ls \<Longrightarrow> split_on NL (unlines ls @ t) = ls @ split_on NL t"
  by (induction ls) (simp_all add: unlines_def split_on_append)

lemma candidates_cut: "prefix (candidates (dropPartialLine (take n s))) (candidates s)"
proof -
  obtain ls where ls: "dropPartialLine (take n s) = unlines ls" "list_all (\<lambda>l. NL \<notin> set l) ls"
    using dropPartialLine_shape by blast
  obtain t where "take n s = unlines ls @ t" using dropPartialLine_prefix [of "take n s"] ls by auto
  then have s: "s = unlines ls @ t @ drop n s" by (metis append.assoc append_take_drop_id)
  have a: "candidate_lines (xs @ ys) = candidate_lines xs @ candidate_lines ys" for xs ys
    by (simp add: candidate_lines_def)
  have b: "split_on NL (unlines ls) = ls @ [[]]" using split_on_unlines_append [OF ls(2), of "[]"] by simp
  have c: "candidate_lines [[]] = []" by (simp add: candidate_lines_def TrimRightBytes_def)
  have "candidates (unlines ls) = candidate_lines ls" by (simp add: candidates_lines b a c)
  moreover have "candidates s = candidate_lines ls @ candidate_lines (split_on NL (t @ drop n s))"
    by (subst s) (simp add: candidates_lines split_on_unlines_append [OF ls(2)] a)
  ultimately show ?thesis by (simp add: ls(1) prefix_def)
qed

lemma prefix_filter: "prefix xs ys \<Longrightarrow> prefix (filter P xs) (filter P ys)"
  by (auto simp: prefix_def)

lemma prefix_take: "prefix xs ys \<Longrightarrow> prefix (take n xs) (take n ys)"
  by (auto simp: prefix_def)

section \<open>Sanitised text\<close>

definition text_sep :: "golib \<Rightarrow> rune \<Rightarrow> bool" where
  "text_sep L r = (IsSpace r \<or> \<not> IsPrint (lib_print L) r)"

text \<open>The words of a list, with one separator between two of them.\<close>

fun join_words :: "'a \<Rightarrow> 'a list list \<Rightarrow> 'a list" where
  "join_words x [] = []"
| "join_words x (w # ws) = w @ concat (map (\<lambda>u. x # u) ws)"

lemma text_loop_run:
  assumes "out \<noteq> []"
  shows "text_loop (lib_print L) out True rs = out @ concat (map (\<lambda>u. 0x20 # u) (words_by (text_sep L) rs))"
    and "text_loop (lib_print L) out False rs = out @ takeWhile (\<lambda>r. \<not> text_sep L r) rs
      @ concat (map (\<lambda>u. 0x20 # u) (words_by (text_sep L) (dropWhile (\<lambda>r. \<not> text_sep L r) rs)))"
  using assms by (induction rs arbitrary: out) (auto simp: text_sep_def)

lemma text_loop_words: "text_loop (lib_print L) [] p rs = join_words 0x20 (words_by (text_sep L) rs)"
proof (induction rs arbitrary: p)
  case (Cons r rs)
  then show ?case using text_loop_run(2) [of "[r]" L rs] by (auto simp: text_sep_def [abs_def])
qed simp

lemma join_words_set: "x \<in> set (join_words s ws) \<Longrightarrow> x = s \<or> (\<exists>w \<in> set ws. x \<in> set w)"
  by (cases ws) (auto split: if_splits)

lemma sanitizeProviderText_runes:
  obtains rs where "sanitizeProviderText L s limit = of_runes rs" "\<forall>r \<in> set rs. scalar r \<and> \<not> IsControl r"
    "int (length rs) \<le> max 0 limit + 3"
proof -
  define out where "out = join_words 0x20 (words_by (text_sep L) (runes s))"
  have out: "\<forall>r \<in> set out. scalar r \<and> \<not> IsControl r"
  proof
    fix r assume "r \<in> set out"
    then consider "r = 0x20" | w where "w \<in> set (words_by (text_sep L) (runes s))" "r \<in> set w"
      unfolding out_def by (blast dest: join_words_set)
    then show "scalar r \<and> \<not> IsControl r"
    proof cases
      case 2
      from words_by_clean [OF this] show ?thesis
        using runes_scalar IsPrint_not_control by (auto simp: text_sep_def)
    qed (simp add: scalar_def IsControl_def)
  qed
  have dot: "scalar 0x2E \<and> \<not> IsControl 0x2E" by (simp add: scalar_def IsControl_def)
  show ?thesis
  proof (cases "limit < int (length out)")
    case True
    then have "sanitizeProviderText L s limit = of_runes (take (nat limit) out @ replicate 3 0x2E)"
      by (simp add: sanitizeProviderText_def text_loop_words dots_runes flip: out_def)
    moreover have "\<forall>r \<in> set (take (nat limit) out @ replicate 3 0x2E). scalar r \<and> \<not> IsControl r"
      using out dot by (auto dest: in_set_takeD)
    ultimately show ?thesis by (intro that [of "take (nat limit) out @ replicate 3 0x2E"]) auto
  next
    case False
    then have "sanitizeProviderText L s limit = of_runes out"
      by (simp add: sanitizeProviderText_def text_loop_words flip: out_def)
    with out False show ?thesis by (intro that [of out]) auto
  qed
qed

section \<open>Base URLs\<close>

lemma New_Inr:
  assumes "New L opts = Inr c"
  shows "url_ok L (o_AllowInsecureHTTP opts) (o_Base opts) \<and> cl_base c = o_Base opts
    \<and> cl_endpoint c = TrimSuffix (o_Base opts) ''/''"
proof (cases "url_Parse L (o_Base opts)")
  case (Inr u)
  note new = assms [unfolded New_def Let_def Inr sum.case]
  show ?thesis using new by (cases "u_user u") (auto simp: url_ok_def Inr split: if_splits option.splits)
qed (use assms in \<open>auto simp: New_def Let_def split: if_splits\<close>)

lemma New_ok:
  assumes "url_ok L (o_AllowInsecureHTTP opts) (o_Base opts)" "TrimSpace (o_Base opts) \<noteq> []"
    "o_HTTPClient opts \<noteq> None \<or> 0 < o_HTTPTimeout opts"
  shows "\<exists>c. New L opts = Inr c"
  using assms by (auto simp: url_ok_def New_def Let_def split: sum.splits option.splits)

lemma parseKeys_lines: "k_Lines (parseKeys E b t) = take 100 (filter (validKeyLine E) (candidates b))"
  by (simp add: parseKeys_def keys_loop_lines candidates_lines)

lemma parseKeys_truncated: "k_Truncated (parseKeys E b t) = t"
  using keys_loop_flags(1) [of "\<lparr>k_Lines = [], k_Dropped = 0, k_Capped = False, k_Truncated = t\<rparr>" E "split_on NL b"]
  by (simp add: parseKeys_def)

text \<open>A provider that always gives the same answer and counts the requests, for concrete runs.\<close>

definition canned :: "go_error + http_response \<Rightarrow> (unit, nat) provider_env" where
  "canned answer = \<lparr>pe_do = (\<lambda>h r n. (answer, Suc n)), pe_marshal = (\<lambda>x. Inr []), pe_result = (\<lambda>x. None),
     pe_error = (\<lambda>x. None), pe_string = (\<lambda>x. None), pe_strings = (\<lambda>x. None), pe_key = (\<lambda>l. l \<noteq> ''bad'')\<rparr>"

section \<open>Properties\<close>

text \<open>C12: New accepts a base URL only when it is, byte for byte, a scheme, an authority and a path:
  the scheme is https, or http when plain HTTP is allowed, the authority is not empty and names
  no user, and there is no query, fragment or control character; the client keeps it verbatim
  and drops one trailing slash only from the address requests are built from.\<close>

theorem New_accepts:
  assumes "New L opts = Inr c"
  shows "base_text (o_AllowInsecureHTTP opts) (o_Base opts) \<and> cl_base c = o_Base opts
    \<and> cl_endpoint c = TrimSuffix (o_Base opts) ''/''"
  using New_Inr [OF assms] url_ok_text by blast

theorem New_accepts_witness:
  "\<exists>c. New plain_lib \<lparr>o_Base = ''https://h/'', o_HTTPTimeout = 5, o_AllowInsecureHTTP = False,
       o_HTTPClient = (None :: unit option)\<rparr> = Inr c \<and> cl_endpoint c = ''https://h''"
proof -
  let ?o = "\<lparr>o_Base = ''https://h/'', o_HTTPTimeout = 5, o_AllowInsecureHTTP = False,
       o_HTTPClient = (None :: unit option)\<rparr>"
  have "TrimSpace ''https://h/'' \<noteq> []"
    by (rule TrimSpace_nonblank [of "CHR ''h''"]) (simp_all add: byte_def IsSpace_def)
  then have "New plain_lib ?o = Inr \<lparr>cl_base = ''https://h/'', cl_endpoint = TrimSuffix ''https://h/'' ''/'',
      cl_http = NoRedirectClient 5\<rparr>"
    by (simp add: New_def Let_def url_simps Contains_def)
  from New_accepts [OF this] this show ?thesis by (simp add: TrimSuffix_def HasSuffix_def)
qed

text \<open>C13: what comes out of an authorized-keys body: of its non-blank lines, with carriage returns
  cut from their ends, those that are free of control characters (tab apart) and that the
  OpenSSH parser accepts, in order and at most 100 of them; the flags tell whether there were
  more, and the count is that of the rejected lines.\<close>

theorem parseKeys_spec:
  "let cand = candidates body; valid = filter (validKeyLine E) cand; k = parseKeys E body t in
     k_Lines k = take 100 valid \<and> k_Capped k = (100 < length valid) \<and> k_Truncated k = t
     \<and> (if 100 < length valid then k_Dropped k \<le> length cand - length valid
        else k_Dropped k = length cand - length valid)
     \<and> list_all (\<lambda>l. NL \<notin> set l \<and> \<not> HasSuffix l [CR] \<and> TrimSpace l \<noteq> [] \<and> pe_key E l
          \<and> list_all (\<lambda>r. \<not> (r \<noteq> 9 \<and> IsControl r)) (runes l)) (k_Lines k)"
proof -
  define cand valid where "cand = candidates body" "valid = filter (validKeyLine E) (candidates body)"
  have len: "length (filter (\<lambda>l. \<not> validKeyLine E l) cand) = length cand - length valid"
    using sum_length_filter_compl [of "validKeyLine E" cand] by (simp add: cand_valid_def)
  have "take 100 valid = k_Lines (parseKeys E body t)"
    by (simp add: parseKeys_def keys_loop_lines cand_valid_def candidates_lines)
  moreover have "list_all (\<lambda>l. NL \<notin> set l \<and> \<not> HasSuffix l [CR] \<and> TrimSpace l \<noteq> [] \<and> pe_key E l
          \<and> list_all (\<lambda>r. \<not> (r \<noteq> 9 \<and> IsControl r)) (runes l)) (take 100 valid)"
    using candidate_shape by (auto simp: cand_valid_def list_all_iff validKeyLine_def dest!: in_set_takeD)
  ultimately show ?thesis
    using len keys_loop_flags [of "\<lparr>k_Lines = [], k_Dropped = 0, k_Capped = False, k_Truncated = t\<rparr>" E "split_on NL body"]
    by (auto simp: Let_def parseKeys_def cand_valid_def candidates_lines split: if_splits)
qed

text \<open>Cutting a long answer never grants more than the whole answer would, and never yields half
  a key: the lines taken from a body of which only the first 64 KiB were read are a prefix of
  the lines the whole body yields.\<close>

theorem cut_answer_is_prefix:
  assumes "keys_answer L E resp = Inr k"
  shows "prefix (k_Lines k) (k_Lines (parseKeys E (rs_body resp) False))
    \<and> k_Truncated k = (65536 < length (rs_body resp))"
proof -
  let ?b = "rs_body resp"
  from assms obtain raw tr where r: "readLimited resp MaxKeysBytes = Inr (raw, tr)"
    "k = parseKeys E (if tr then dropPartialLine raw else raw) tr"
    by (auto simp: keys_answer_def Let_def split: if_splits sum.splits)
  have tr: "tr = (65536 < length ?b)" "raw = take 65536 ?b"
    using r(1) by (auto simp: readLimited_def readAll_def MaxKeysBytes_def min_def split: prod.splits option.splits if_splits)
  show ?thesis
  proof (cases tr)
    case True
    then show ?thesis using candidates_cut [of 65536 ?b] tr
      by (simp add: r(2) parseKeys_lines parseKeys_truncated prefix_take prefix_filter)
  next
    case False
    then show ?thesis using tr by (simp add: r(2) parseKeys_lines parseKeys_truncated)
  qed
qed

theorem cut_answer_is_prefix_witness:
  "prefix (k_Lines (parseKeys (canned (Inl (errors_New []))) ''k1'' False)) [''k1'']"
proof -
  let ?E = "canned (Inl (errors_New []))"
  let ?r = "\<lparr>rs_status = 200, rs_ctype = [], rs_body = ''k1'', rs_body_err = None\<rparr>"
  have b: "k_Lines (parseKeys ?E ''k1'' False) = [''k1'']" by code_simp
  have "keys_answer plain_lib ?E ?r = Inr (parseKeys ?E ''k1'' False)"
    by (simp add: keys_answer_def readLimited_def readAll_def MaxKeysBytes_def Let_def)
  from cut_answer_is_prefix [OF this] b show ?thesis by simp
qed

definition outage :: "go_error + http_response \<Rightarrow> bool" where
  "outage r = (case r of Inl e \<Rightarrow> True
     | Inr resp \<Rightarrow> 500 \<le> rs_status resp \<or> (rs_status resp = 200 \<and> snd (readAll resp (MaxKeysBytes + 1)) \<noteq> None))"

definition keys_sent :: "golib \<Rightarrow> http_request \<Rightarrow> string \<Rightarrow> string \<Rightarrow> bool" where
  "keys_sent L req assertion account =
     (TrimSpace assertion \<noteq> [] \<and> TrimSpace account \<noteq> [] \<and> (case url_Parse L (rq_url req) of Inl e \<Rightarrow> False | Inr u \<Rightarrow> True))"

lemma sentinel_text_is [simp]: "Is (sentinel_text s) t = (t = s)"
  by (simp add: sentinel_text_def)

lemma transportError_unavailable [simp]: "Is (transportError opn e) ErrUnavailable"
  by (simp add: transportError_def)

lemma responseError_is [simp]: "Is (responseError L E opn resp) s = (s = sentinelFor (rs_status resp))"
  by (simp add: responseError_def Let_def split: prod.split)

lemma sentinelFor_unavailable: "(ErrUnavailable = sentinelFor st) = (500 \<le> st)"
  by (auto simp: sentinelFor_def)

lemma keys_answer_outage:
  "keys_answer L E resp = Inl e \<Longrightarrow> Is e ErrUnavailable = outage (Inr resp)"
  by (auto simp: keys_answer_def outage_def readLimited_def sentinelFor_unavailable Let_def
      split: if_splits sum.splits prod.splits option.splits)



text \<open>C15: the provider is asked exactly what the caller meant: whatever bytes the account, the
  fingerprint and the variable name contain, decoding the query of the request yields these
  values, one each and nothing else, and the credential is the bearer token of the request.\<close>

theorem request_is_faithful:
  assumes "New L opts = Inr c"
  shows "let req = keys_request c assertion account fingerprint envName;
             vs = ParseQuery L (snd (Cut (rq_url req) (CHR ''?'')))
    in fst (Cut (rq_url req) (CHR ''?'')) = cl_endpoint c @ ''/authorized-keys''
       \<and> Values_Get vs ''account'' = account \<and> Values_Get vs ''fingerprint'' = fingerprint
       \<and> Values_Get vs ''env'' = envName \<and> set (map fst vs) \<subseteq> {''account'', ''env'', ''fingerprint''}
       \<and> distinct (map fst vs) \<and> map_of (rq_header req) ''Authorization'' = Some (''Bearer '' @ assertion)"
proof -
  let ?q = "keys_query account fingerprint envName"
  have "CHR ''?'' \<notin> set (o_Base opts) \<and> cl_endpoint c = TrimSuffix (o_Base opts) ''/''"
    using New_Inr [OF assms] base_text_no_query url_ok_text by blast
  then have "CHR ''?'' \<notin> set (cl_endpoint c @ ''/authorized-keys'')"
    by (auto simp: TrimSuffix_def dest: in_set_takeD)
  then have cut: "Cut (rq_url (keys_request c assertion account fingerprint envName)) (CHR ''?'') =
      (cl_endpoint c @ ''/authorized-keys'', Values_Encode ?q)"
    using Cut_append [of "CHR ''?''" "cl_endpoint c @ ''/authorized-keys''" "Values_Encode ?q"]
    by (simp add: keys_request_def)
  have d: "distinct (map fst ?q)" by (simp add: keys_query_def)
  have dd: "distinct (map fst (sort_key fst ?q))"
    using d by (simp add: distinct_map)
  have m: "map_of (sort_key fst ?q) = map_of ?q"
    by (rule map_of_perm [OF dd d]) simp
  then have "Values_Get (sort_key fst ?q) ''account'' = account \<and> Values_Get (sort_key fst ?q) ''fingerprint'' = fingerprint
      \<and> Values_Get (sort_key fst ?q) ''env'' = envName"
    by (auto simp: Values_Get_def keys_query_def)
  moreover have "set (map fst (sort_key fst ?q)) \<subseteq> {''account'', ''env'', ''fingerprint''}"
    by (auto simp: keys_query_def split: if_splits)
  ultimately show ?thesis
    unfolding Let_def cut fst_conv snd_conv ParseQuery_Encode using dd by (simp add: keys_request_def)
qed

theorem request_is_faithful_witness:
  "\<exists>c. New plain_lib \<lparr>o_Base = ''https://h/'', o_HTTPTimeout = 5, o_AllowInsecureHTTP = False,
       o_HTTPClient = (None :: unit option)\<rparr> = Inr c
    \<and> Values_Get (ParseQuery plain_lib (snd (Cut (rq_url (keys_request c ''jwt'' ''a&env=x'' ''k'' [])) (CHR ''?''))))
        ''account'' = ''a&env=x''"
proof -
  let ?o = "\<lparr>o_Base = ''https://h/'', o_HTTPTimeout = 5, o_AllowInsecureHTTP = False,
       o_HTTPClient = (None :: unit option)\<rparr>"
  have "TrimSpace ''https://h/'' \<noteq> []"
    by (rule TrimSpace_nonblank [of "CHR ''h''"]) (simp_all add: byte_def IsSpace_def)
  then have new: "New plain_lib ?o = Inr \<lparr>cl_base = ''https://h/'', cl_endpoint = TrimSuffix ''https://h/'' ''/'',
      cl_http = NoRedirectClient 5\<rparr>"
    by (simp add: New_def Let_def url_simps Contains_def)
  from request_is_faithful [OF this, of "''jwt''" "''a&env=x''" "''k''" "[]"] new show ?thesis
    unfolding Let_def by blast
qed

end
