(* ===== verification/Config.thy ===== *)
theory Config
  imports GoUrl GoTime Fs "HOL-Library.Multiset"
begin

text \<open>
  Package config (\<^verbatim>\<open>src/internal/config/config.go\<close>): defaults, durations, hostname expansion
  and the validation of a decoded document, and the search for the file. The YAML decoder is
  the argument \<open>yaml\<close> (a message, or the decoded fields); a Go map is an association list in
  the order a range over it happens to visit. The lemmas give the invariant of a validated
  configuration and that the user table does not depend on that order.
\<close>

section \<open>The package\<close>

definition DefaultPath :: string where "DefaultPath = ''/etc/oidc-ssh/config.yaml''"
definition defaultPaths :: "string list" where "defaultPaths = [DefaultPath]"
definition hostnamePlaceholder :: string where "hostnamePlaceholder = ''{{hostname}}''"

definition sessionEnvPattern :: "string \<Rightarrow> bool" where
  "sessionEnvPattern s = (case s of [] \<Rightarrow> False
     | c # t \<Rightarrow> (is_alpha c \<or> c = CHR ''_'') \<and> list_all (\<lambda>d. is_alpha d \<or> is_digit d \<or> d = CHR ''_'') t)"

definition DefaultScope :: string where "DefaultScope = ''openid profile email groups''"
definition DefaultDeviceName :: string where "DefaultDeviceName = hostnamePlaceholder"
definition DefaultUsernameClaim :: string where "DefaultUsernameClaim = ''email''"
definition DefaultGroupsClaim :: string where "DefaultGroupsClaim = ''groups''"
definition DefaultSessionEnv :: string where "DefaultSessionEnv = ''OIDC_USER''"
definition DefaultTimeout :: duration where "DefaultTimeout = 300 * Second"
definition DefaultClockSkew :: duration where "DefaultClockSkew = 60 * Second"
definition DefaultHTTPTimeout :: duration where "DefaultHTTPTimeout = 10 * Second"
definition DefaultIdentityKey :: string where "DefaultIdentityKey = ''/etc/oidc-ssh/host.key''"
definition DefaultCacheDir :: string where "DefaultCacheDir = ''/var/cache/oidc-ssh''"
definition DefaultCacheTTL :: duration where "DefaultCacheTTL = 24 * Hour"

definition config_error :: "sentinel \<Rightarrow> go_error" where
  "config_error s = sentinel_error s (case s of
       ErrInvalidYAML \<Rightarrow> ''invalid YAML''
     | ErrMissingIssuer \<Rightarrow> ''issuer is required''
     | ErrInvalidIssuer \<Rightarrow> ''issuer must be an absolute https URL''
     | ErrMissingClientID \<Rightarrow> ''client_id is required''
     | ErrNoUsers \<Rightarrow> ''users must map at least one local user to a group''
     | ErrEmptyUser \<Rightarrow> ''users contains an empty user name''
     | ErrEmptyGroup \<Rightarrow> ''users contains a user without a group''
     | ErrDuplicateUser \<Rightarrow> ''users contains the same user more than once''
     | ErrInvalidSessionEnv \<Rightarrow> ''session_env must be a valid environment variable name''
     | ErrInvalidScope \<Rightarrow> ''scope must not be empty''
     | ErrInvalidClaim \<Rightarrow> ''claim name must not be empty''
     | ErrInvalidDuration \<Rightarrow> ''invalid duration''
     | ErrHostname \<Rightarrow> ''cannot resolve hostname''
     | ErrInvalidAPIBase \<Rightarrow> ''api_base must be an absolute https URL''
     | ErrInvalidHostID \<Rightarrow> ''host_id must not contain whitespace or control characters''
     | ErrRelativePath \<Rightarrow> ''path must be absolute''
     | _ \<Rightarrow> ''no configuration file found'')"

record Config =
  c_Issuer :: string
  c_ClientID :: string
  c_Scope :: string
  c_DeviceName :: string
  c_UsernameClaim :: string
  c_GroupsClaim :: string
  c_SessionEnv :: string
  c_Timeout :: duration
  c_ClockSkew :: duration
  c_HTTPTimeout :: duration
  c_AllowInsecureHTTP :: bool
  c_Users :: strmap
  c_APIBase :: string
  c_HostID :: string
  c_IdentityKey :: string
  c_CacheDir :: string
  c_CacheTTL :: duration

record rawConfig =
  r_Issuer :: "string option"
  r_ClientID :: "string option"
  r_Scope :: "string option"
  r_DeviceName :: "string option"
  r_UsernameClaim :: "string option"
  r_GroupsClaim :: "string option"
  r_SessionEnv :: "string option"
  r_Timeout :: "string option"
  r_ClockSkew :: "string option"
  r_HTTPTimeout :: "string option"
  r_AllowInsecureHTTP :: bool
  r_Users :: strmap
  r_APIBase :: "string option"
  r_HostID :: "string option"
  r_IdentityKey :: "string option"
  r_CacheDir :: "string option"
  r_CacheTTL :: "string option"

definition deref :: "string option \<Rightarrow> string \<Rightarrow> string" where
  "deref s def = (case s of None \<Rightarrow> def | Some x \<Rightarrow> x)"

definition parseDuration :: "golib \<Rightarrow> string \<Rightarrow> string option \<Rightarrow> duration \<Rightarrow> go_error + duration" where
  "parseDuration L field raw def =
     (case raw of None \<Rightarrow> Inr def
      | Some r \<Rightarrow> (case ParseDuration (lib_frac L) (TrimSpace r) of
          None \<Rightarrow> Inl (wrapf (''config: '' @ field @ '': '') (config_error ErrInvalidDuration) ('': '' @ quoted L r))
        | Some d \<Rightarrow> Inr d))"

definition expandHostname :: "string \<Rightarrow> (go_error + string) \<Rightarrow> go_error + string" where
  "expandHostname name hostname =
     (if \<not> Contains name hostnamePlaceholder then Inr name
      else case hostname of
        Inl e \<Rightarrow> Inl (wrapf ''config: device_name: '' (config_error ErrHostname) ('': '' @ err_msg e))
      | Inr h \<Rightarrow> Inr (ReplaceAll name hostnamePlaceholder h))"

definition validateURL :: "golib \<Rightarrow> string \<Rightarrow> bool \<Rightarrow> string \<Rightarrow> sentinel \<Rightarrow> go_error option" where
  "validateURL L value allowInsecure field s =
     (let bad = (\<lambda>m. Some (wrapf (''config: '' @ field @ '': '') (config_error s) ('': '' @ quoted L value @ m))) in
      case url_Parse L value of
        Inl e \<Rightarrow> Some (wrapf (''config: '' @ field @ '': '') (config_error s) ('': '' @ err_msg e))
      | Inr u \<Rightarrow>
          if u_host u = [] then bad []
          else if u_query u \<noteq> [] \<or> u_force u then bad '' must not contain a query component''
          else if Contains value ''#'' then bad '' must not contain a fragment''
          else if u_user u \<noteq> None then bad '' must not contain userinfo''
          else if u_scheme u = ''https'' then None
          else if u_scheme u = ''http'' then
            (if allowInsecure then None
             else bad '' uses http (set allow_insecure_http: true only for testing)'')
          else bad [])"

definition validateIssuer :: "golib \<Rightarrow> string \<Rightarrow> bool \<Rightarrow> go_error option" where
  "validateIssuer L issuer allowInsecure = validateURL L issuer allowInsecure ''issuer'' ErrInvalidIssuer"

definition isSpaceOrControl :: "rune \<Rightarrow> bool" where
  "isSpaceOrControl r = (r \<le> 32 \<or> r = 0x7F \<or> (0x80 \<le> r \<and> r < 0xA0))"

text \<open>The range over the map, in the order of the list; \<open>out\<close> is what was accepted so far.\<close>

fun normalise_loop :: "golib \<Rightarrow> strmap \<Rightarrow> strmap \<Rightarrow> go_error + strmap" where
  "normalise_loop L out [] = Inr out"
| "normalise_loop L out ((user0, group0) # rest) =
     (let user = TrimSpace user0; group = TrimSpace group0 in
      if user = [] then Inl (wrapf ''config: '' (config_error ErrEmptyUser) [])
      else if group = [] then
        Inl (wrapf (''config: users: '' @ quoted L user @ '': '') (config_error ErrEmptyGroup) [])
      else if map_of out user \<noteq> None then
        Inl (wrapf (''config: users: '' @ quoted L user @ '': '') (config_error ErrDuplicateUser) [])
      else normalise_loop L (out @ [(user, group)]) rest)"

definition normaliseUsers :: "golib \<Rightarrow> strmap \<Rightarrow> go_error + strmap" where
  "normaliseUsers L m =
     (if m = [] then Inl (wrapf ''config: '' (config_error ErrNoUsers) []) else normalise_loop L [] m)"

definition validate :: "golib \<Rightarrow> Config \<Rightarrow> go_error + Config" where
  "validate L c =
     (if c_Issuer c = [] then Inl (wrapf ''config: '' (config_error ErrMissingIssuer) [])
      else if validateIssuer L (c_Issuer c) (c_AllowInsecureHTTP c) \<noteq> None then
        Inl (the (validateIssuer L (c_Issuer c) (c_AllowInsecureHTTP c)))
      else if c_ClientID c = [] then Inl (wrapf ''config: '' (config_error ErrMissingClientID) [])
      else if c_Scope c = [] then Inl (wrapf ''config: '' (config_error ErrInvalidScope) [])
      else if c_UsernameClaim c = [] then Inl (wrapf ''config: username_claim: '' (config_error ErrInvalidClaim) [])
      else if c_GroupsClaim c = [] then Inl (wrapf ''config: groups_claim: '' (config_error ErrInvalidClaim) [])
      else if \<not> sessionEnvPattern (c_SessionEnv c) then
        Inl (wrapf ''config: '' (config_error ErrInvalidSessionEnv) ('': '' @ quoted L (c_SessionEnv c)))
      else if c_Timeout c \<le> 0 then
        Inl (wrapf ''config: timeout: '' (config_error ErrInvalidDuration) ('': must be positive, got '' @ Duration_String (c_Timeout c)))
      else if c_HTTPTimeout c \<le> 0 then
        Inl (wrapf ''config: http_timeout: '' (config_error ErrInvalidDuration) ('': must be positive, got '' @ Duration_String (c_HTTPTimeout c)))
      else if c_ClockSkew c < 0 then
        Inl (wrapf ''config: clock_skew: '' (config_error ErrInvalidDuration) ('': must not be negative, got '' @ Duration_String (c_ClockSkew c)))
      else if c_CacheTTL c < 0 then
        Inl (wrapf ''config: cache_ttl: '' (config_error ErrInvalidDuration) ('': must not be negative, got '' @ Duration_String (c_CacheTTL c)))
      else if c_APIBase c \<noteq> [] \<and> validateURL L (c_APIBase c) (c_AllowInsecureHTTP c) ''api_base'' ErrInvalidAPIBase \<noteq> None then
        Inl (the (validateURL L (c_APIBase c) (c_AllowInsecureHTTP c) ''api_base'' ErrInvalidAPIBase))
      else if list_ex isSpaceOrControl (runes (c_HostID c)) then
        Inl (wrapf ''config: '' (config_error ErrInvalidHostID) ('': '' @ quoted L (c_HostID c)))
      else if \<not> filepath_IsAbs (c_IdentityKey c) then
        Inl (wrapf ''config: identity_key: '' (config_error ErrRelativePath) ('': '' @ quoted L (c_IdentityKey c)))
      else if \<not> filepath_IsAbs (c_CacheDir c) then
        Inl (wrapf ''config: cache_dir: '' (config_error ErrRelativePath) ('': '' @ quoted L (c_CacheDir c)))
      else case normaliseUsers L (c_Users c) of Inl e \<Rightarrow> Inl e | Inr us \<Rightarrow> Inr (c\<lparr>c_Users := us\<rparr>))"

definition decode :: "(string \<Rightarrow> string + rawConfig) \<Rightarrow> string \<Rightarrow> go_error + rawConfig" where
  "decode yaml data =
     (case yaml data of Inl m \<Rightarrow> Inl (wrapf ''config: '' (config_error ErrInvalidYAML) ('': '' @ m)) | Inr r \<Rightarrow> Inr r)"

definition apply_defaults :: "rawConfig \<Rightarrow> Config" where
  "apply_defaults raw =
     \<lparr>c_Issuer = TrimSpace (deref (r_Issuer raw) []),
      c_ClientID = TrimSpace (deref (r_ClientID raw) []),
      c_Scope = TrimSpace (deref (r_Scope raw) DefaultScope),
      c_DeviceName = deref (r_DeviceName raw) DefaultDeviceName,
      c_UsernameClaim = TrimSpace (deref (r_UsernameClaim raw) DefaultUsernameClaim),
      c_GroupsClaim = TrimSpace (deref (r_GroupsClaim raw) DefaultGroupsClaim),
      c_SessionEnv = TrimSpace (deref (r_SessionEnv raw) DefaultSessionEnv),
      c_Timeout = 0, c_ClockSkew = 0, c_HTTPTimeout = 0,
      c_AllowInsecureHTTP = r_AllowInsecureHTTP raw,
      c_Users = r_Users raw,
      c_APIBase = TrimSpace (deref (r_APIBase raw) []),
      c_HostID = TrimSpace (deref (r_HostID raw) []),
      c_IdentityKey = TrimSpace (deref (r_IdentityKey raw) DefaultIdentityKey),
      c_CacheDir = TrimSpace (deref (r_CacheDir raw) DefaultCacheDir),
      c_CacheTTL = 0\<rparr>"

definition parseWithHostname :: "golib \<Rightarrow> (string \<Rightarrow> string + rawConfig) \<Rightarrow> string \<Rightarrow> (go_error + string) \<Rightarrow> go_error + Config" where
  "parseWithHostname L yaml data hostname =
     (case decode yaml data of Inl e \<Rightarrow> Inl e
      | Inr raw \<Rightarrow> (let cfg = apply_defaults raw in
        case parseDuration L ''timeout'' (r_Timeout raw) DefaultTimeout of Inl e \<Rightarrow> Inl e
      | Inr timeout \<Rightarrow> (case parseDuration L ''clock_skew'' (r_ClockSkew raw) DefaultClockSkew of Inl e \<Rightarrow> Inl e
      | Inr skew \<Rightarrow> (case parseDuration L ''http_timeout'' (r_HTTPTimeout raw) DefaultHTTPTimeout of Inl e \<Rightarrow> Inl e
      | Inr http \<Rightarrow> (case parseDuration L ''cache_ttl'' (r_CacheTTL raw) DefaultCacheTTL of Inl e \<Rightarrow> Inl e
      | Inr ttl \<Rightarrow> (case expandHostname (c_DeviceName cfg) hostname of Inl e \<Rightarrow> Inl e
      | Inr device \<Rightarrow> validate L (cfg\<lparr>c_Timeout := timeout, c_ClockSkew := skew, c_HTTPTimeout := http,
            c_CacheTTL := ttl, c_DeviceName := device\<rparr>)))))))"

definition Parse :: "golib \<Rightarrow> (string \<Rightarrow> string + rawConfig) \<Rightarrow> (go_error + string) \<Rightarrow> string \<Rightarrow> go_error + Config" where
  "Parse L yaml hostname data = parseWithHostname L yaml data hostname"

definition Load :: "golib \<Rightarrow> (string \<Rightarrow> string + rawConfig) \<Rightarrow> (go_error + string) \<Rightarrow> string \<Rightarrow> os \<Rightarrow> (go_error + Config) \<times> os" where
  "Load L yaml hostname p w =
     (case os_ReadFile p w of
        (Inl e, w') \<Rightarrow> (Inl (wrapf (''config: read '' @ p @ '': '') e []), w')
      | (Inr data, w') \<Rightarrow> (case Parse L yaml hostname data of
          Inl e \<Rightarrow> (Inl (wrapf [] e ('' (file '' @ p @ '')'')), w')
        | Inr cfg \<Rightarrow> (Inr cfg, w')))"

fun find_loop :: "string list \<Rightarrow> os \<Rightarrow> (go_error + string) option \<times> os" where
  "find_loop [] w = (None, w)"
| "find_loop (p # ps) w =
     (case os_Stat p w of
        (Inr i, w') \<Rightarrow> (Some (Inr p), w')
      | (Inl e, w') \<Rightarrow> if Is e OsErrNotExist then find_loop ps w'
                     else (Some (Inl (wrapf (''config: stat '' @ p @ '': '') e [])), w'))"

definition findFirst :: "string list \<Rightarrow> os \<Rightarrow> (go_error + string) \<times> os" where
  "findFirst paths w =
     (case find_loop paths w of
        (Some r, w') \<Rightarrow> (r, w')
      | (None, w') \<Rightarrow> (Inl (wrapf ''config: '' (config_error ErrNoConfigFile)
          ('': none of '' @ Join '', '' paths @ '' exists'')), w'))"

definition loadFirst :: "golib \<Rightarrow> (string \<Rightarrow> string + rawConfig) \<Rightarrow> (go_error + string) \<Rightarrow> string list \<Rightarrow> os \<Rightarrow> (go_error + Config) \<times> os" where
  "loadFirst L yaml hostname paths w =
     (case findFirst paths w of (Inl e, w') \<Rightarrow> (Inl e, w') | (Inr p, w') \<Rightarrow> Load L yaml hostname p w')"

definition LoadDefault :: "golib \<Rightarrow> (string \<Rightarrow> string + rawConfig) \<Rightarrow> (go_error + string) \<Rightarrow> os \<Rightarrow> (go_error + Config) \<times> os" where
  "LoadDefault L yaml hostname = loadFirst L yaml hostname defaultPaths"

definition FindDefault :: "os \<Rightarrow> (go_error + string) \<times> os" where
  "FindDefault = findFirst defaultPaths"

definition LookupUser :: "Config option \<Rightarrow> string \<Rightarrow> string option" where
  "LookupUser c name = (case c of None \<Rightarrow> None | Some cfg \<Rightarrow> map_of (c_Users cfg) name)"

section \<open>The user table\<close>

definition trim_entry :: "string \<times> string \<Rightarrow> string \<times> string" where
  "trim_entry x = (TrimSpace (fst x), TrimSpace (snd x))"

definition entry_ok :: "string \<times> string \<Rightarrow> bool" where
  "entry_ok x = (TrimSpace (fst x) \<noteq> [] \<and> TrimSpace (snd x) \<noteq> [])"

lemma normalise_loop_Inr:
  "distinct (map fst out) \<Longrightarrow>
   (\<exists>us. normalise_loop L out m = Inr us) \<longleftrightarrow> list_all entry_ok m \<and> distinct (map fst (out @ map trim_entry m))"
proof (induction L out m rule: normalise_loop.induct)
  case (2 L out u g rest)
  show ?case
  proof (cases "entry_ok (u, g) \<and> map_of out (TrimSpace u) = None")
    case True
    then have "distinct (map fst (out @ [(TrimSpace u, TrimSpace g)]))"
      using 2(2) by (auto simp: map_of_eq_None_iff)
    with 2 True show ?thesis by (simp add: entry_ok_def trim_entry_def)
  next
    case False
    then show ?thesis by (auto simp: entry_ok_def trim_entry_def Let_def map_of_eq_None_iff)
  qed
qed simp

lemma normalise_loop_value: "normalise_loop L out m = Inr us \<Longrightarrow> us = out @ map trim_entry m"
  by (induction L out m rule: normalise_loop.induct) (auto simp: Let_def trim_entry_def split: if_splits)

definition users_ok :: "strmap \<Rightarrow> bool" where
  "users_ok us = (us \<noteq> [] \<and> distinct (map fst us)
     \<and> list_all (\<lambda>(u, g). u \<noteq> [] \<and> g \<noteq> [] \<and> TrimSpace u = u \<and> TrimSpace g = g) us)"

lemma normaliseUsers_iff:
  "normaliseUsers L m = Inr us \<longleftrightarrow>
    m \<noteq> [] \<and> list_all entry_ok m \<and> distinct (map fst (map trim_entry m)) \<and> us = map trim_entry m"
  using normalise_loop_Inr [of "[]" L m] normalise_loop_value [of L "[]" m]
  by (auto simp: normaliseUsers_def)

lemma normaliseUsers_ok: "normaliseUsers L m = Inr us \<Longrightarrow> users_ok us"
  by (auto simp: normaliseUsers_iff users_ok_def list_all_iff entry_ok_def trim_entry_def)

section \<open>What validation guarantees\<close>

lemma validateURL_iff: "validateURL L value insecure field s = None \<longleftrightarrow> url_ok L insecure value"
  by (auto simp: validateURL_def url_ok_def Let_def simp del: not_None_eq split: sum.split)

definition valid_config :: "golib \<Rightarrow> Config \<Rightarrow> bool" where
  "valid_config L c =
     (url_ok L (c_AllowInsecureHTTP c) (c_Issuer c) \<and> c_ClientID c \<noteq> [] \<and> c_Scope c \<noteq> []
      \<and> c_UsernameClaim c \<noteq> [] \<and> c_GroupsClaim c \<noteq> [] \<and> sessionEnvPattern (c_SessionEnv c)
      \<and> 0 < c_Timeout c \<and> 0 < c_HTTPTimeout c \<and> 0 \<le> c_ClockSkew c \<and> 0 \<le> c_CacheTTL c
      \<and> (c_APIBase c = [] \<or> url_ok L (c_AllowInsecureHTTP c) (c_APIBase c))
      \<and> list_all (\<lambda>r. \<not> isSpaceOrControl r) (runes (c_HostID c))
      \<and> filepath_IsAbs (c_IdentityKey c) \<and> filepath_IsAbs (c_CacheDir c) \<and> users_ok (c_Users c))"

lemma validate_Inr:
  assumes "validate L c = Inr c'"
  shows "valid_config L c'" "\<exists>us. c' = c\<lparr>c_Users := us\<rparr> \<and> normaliseUsers L (c_Users c) = Inr us"
proof -
  obtain us where us: "c' = c\<lparr>c_Users := us\<rparr>" "normaliseUsers L (c_Users c) = Inr us"
    using assms by (auto simp: validate_def split: if_splits sum.splits)
  then show "\<exists>us. c' = c\<lparr>c_Users := us\<rparr> \<and> normaliseUsers L (c_Users c) = Inr us" by blast
  show "valid_config L c'"
    using assms normaliseUsers_ok [OF us(2)]
    by (auto simp: valid_config_def us(1) validate_def validateIssuer_def validateURL_iff list_all_iff list_ex_iff
        split: if_splits)
qed

lemma parse_validates:
  "parseWithHostname L yaml data hostname = Inr c \<Longrightarrow> \<exists>c0. validate L c0 = Inr c"
  by (auto simp: parseWithHostname_def Let_def split: sum.splits)

section \<open>Properties\<close>

text \<open>C20: a configuration that parses satisfies every rule the rest of the program relies on: issuer and
  API base are URLs of scheme, authority and path with nothing else (https unless plain HTTP was
  allowed), names and claims are not empty, the session variable is a portable name, durations
  have the right sign, the host id has no blank or control character, the paths are absolute, and
  the users are distinct, trimmed and each has a group.\<close>

theorem parsed_config_is_valid:
  assumes "parseWithHostname L yaml data hostname = Inr c"
  shows "valid_config L c \<and> base_text (c_AllowInsecureHTTP c) (c_Issuer c)
    \<and> (c_APIBase c = [] \<or> base_text (c_AllowInsecureHTTP c) (c_APIBase c))"
proof -
  obtain c0 where "validate L c0 = Inr c" using parse_validates [OF assms] by blast
  then have "valid_config L c" by (rule validate_Inr(1))
  then show ?thesis using url_ok_text by (auto simp: valid_config_def)
qed

definition sample_raw :: rawConfig where
  "sample_raw = \<lparr>r_Issuer = Some ''https://h'', r_ClientID = Some ''ssh'', r_Scope = Some ''openid'', r_DeviceName = Some ''d'',
     r_UsernameClaim = Some ''email'', r_GroupsClaim = Some ''groups'', r_SessionEnv = Some ''U'', r_Timeout = None,
     r_ClockSkew = None, r_HTTPTimeout = None, r_AllowInsecureHTTP = False, r_Users = [(''bob'', ''admins'')],
     r_APIBase = None, r_HostID = None, r_IdentityKey = Some ''/k'', r_CacheDir = Some ''/c'', r_CacheTTL = None\<rparr>"

theorem parsed_config_is_valid_witness:
  "\<exists>c. parseWithHostname plain_lib (\<lambda>d. Inr sample_raw) [] (Inr ''h'') = Inr c \<and> valid_config plain_lib c"
proof -
  have u: "normaliseUsers plain_lib [(''bob'', ''admins'')] = Inr [(''bob'', ''admins'')]"
    by (simp add: normaliseUsers_iff entry_ok_def trim_entry_def TrimSpace_plain byte_def)
  have url: "validateURL plain_lib ''https://h'' False f s = None" for f s
    by (simp add: validateURL_iff url_ok_def url_simps Contains_def)
  have "\<exists>c. parseWithHostname plain_lib (\<lambda>d. Inr sample_raw) [] (Inr ''h'') = Inr c"
    by (simp add: parseWithHostname_def decode_def apply_defaults_def sample_raw_def deref_def TrimSpace_plain byte_def
        parseDuration_def expandHostname_def hostnamePlaceholder_def Contains_def HasPrefix_def validate_def
        validateIssuer_def url u sessionEnvPattern_def is_alpha_def runes_def filepath_IsAbs_def
        DefaultTimeout_def DefaultHTTPTimeout_def DefaultClockSkew_def DefaultCacheTTL_def)
  then obtain c where "parseWithHostname plain_lib (\<lambda>d. Inr sample_raw) [] (Inr ''h'') = Inr c" by blast
  with parsed_config_is_valid [OF this] show ?thesis by blast
qed

lemma mset_distinct: "mset xs = mset ys \<Longrightarrow> distinct xs = distinct ys"
  using mset_eq_setD [of xs ys] by (simp add: distinct_count_atmost_1)

text \<open>The user table does not depend on the order in which Go visits the map: for any two orders of
  the same entries either both are accepted and every lookup gives the same group, or both are
  refused.\<close>

theorem normaliseUsers_order_independent:
  assumes "mset m = mset m'"
  shows "case (normaliseUsers L m, normaliseUsers L m') of
      (Inr us, Inr us') \<Rightarrow> (map_of us = map_of us' \<and> set us = trim_entry ` set m)
    | (Inl e, Inl e') \<Rightarrow> True
    | _ \<Rightarrow> False"
proof -
  have d: "distinct (map fst (map trim_entry m)) = distinct (map fst (map trim_entry m'))"
    by (rule mset_distinct) (simp add: assms)
  have s: "set m = set m'" using assms by (rule mset_eq_setD)
  have e: "(m = []) = (m' = [])" using assms by auto
  have iff: "(\<exists>us. normaliseUsers L m = Inr us) = (\<exists>us. normaliseUsers L m' = Inr us)"
    using d s e by (simp add: normaliseUsers_iff list_all_iff)
  show ?thesis
  proof (cases "normaliseUsers L m")
    case (Inr us)
    with iff obtain us' where us': "normaliseUsers L m' = Inr us'" by auto
    with Inr have "us = map trim_entry m" "us' = map trim_entry m'" "distinct (map fst us)" "distinct (map fst us')"
      by (simp_all add: normaliseUsers_iff)
    then show ?thesis using s Inr us' map_of_perm [of us us'] by simp
  next
    case (Inl e)
    with iff show ?thesis by (cases "normaliseUsers L m'") auto
  qed
qed

theorem normaliseUsers_order_independent_witness:
  "case (normaliseUsers plain_lib [(''a'', ''g''), ('' b '', ''h'')], normaliseUsers plain_lib [('' b '', ''h''), (''a'', ''g'')]) of
      (Inr us, Inr us') \<Rightarrow> (map_of us = map_of us' \<and> set us = trim_entry ` set [(''a'', ''g''), ('' b '', ''h'')])
    | (Inl e, Inl e') \<Rightarrow> True
    | _ \<Rightarrow> False"
  by (rule normaliseUsers_order_independent) simp

end
