(* ===== verification/OidcClient.thy ===== *)
theory OidcClient
  imports Provider
begin

text \<open>
  Package oidc (\<^verbatim>\<open>src/internal/oidc/client.go\<close>): discovery checks, the two requests of the device
  flow with the classification of their errors, and what is read from a verified ID token.
  go-oidc, x/oauth2 and the clock are arguments (record \<open>oidc_env\<close>). A context is its deadline.
  The lemmas show what a client was checked for, what a device request carries, how polling ends
  and what an identity was checked for.
\<close>

section \<open>Values from outside\<close>

datatype json =
    JNull | JBool bool | JNumber string | JString string | JArray "json list" | JObject "(string \<times> json) list"

type_synonym claims = "(string \<times> json) list"
type_synonym ctx = "time option"

text \<open>What errors.As finds of an oauth2.RetrieveError: the HTTP status when there is a response.\<close>

record retrieve_error =
  rt_status :: "int option"
  rt_code :: string
  rt_desc :: string

record oauth_error =
  oa_err :: go_error
  oa_retrieve :: "retrieve_error option"

record DeviceAuthResponse =
  da_DeviceCode :: string
  da_UserCode :: string
  da_VerificationURI :: string
  da_VerificationURIComplete :: string
  da_Expiry :: "time option"
  da_Interval :: int

record Token =
  tk_AccessToken :: string
  tk_Extra :: "string \<Rightarrow> json"

record discoveredEndpoints =
  de_DeviceAuthorizationEndpoint :: string
  de_TokenEndpoint :: string
  de_JWKSURI :: string

record SSHMetadata =
  sm_AccessEndpoint :: string
  sm_ConfirmationSupported :: bool

record oauth_config =
  oc_ClientID :: string
  oc_AuthURL :: string
  oc_TokenURL :: string
  oc_DeviceAuthURL :: string
  oc_Scopes :: "string list"

record id_token =
  it_IssuedAt :: "time option"
  it_Subject :: string
  it_claims :: "go_error + claims"

record verifier_config =
  vc_ClientID :: string
  vc_SupportedSigningAlgs :: "string list"
  vc_NowShift :: duration

text \<open>
  \<open>ox_discover\<close> is gooidc.NewProvider, \<open>ox_endpoints\<close> and \<open>ox_ssh\<close> decode the discovery document,
  \<open>ox_urls\<close> is Endpoint, \<open>ox_device\<close> and \<open>ox_token\<close> are the two requests of oauth2.Config (the
  options in the order they were added), \<open>ox_verify\<close> is the ID token verifier, whose clock is
  shifted by the amount in its configuration.
\<close>

record ('h, 'p, 'w) oidc_env =
  ox_discover :: "'h http_client \<Rightarrow> string \<Rightarrow> ctx \<Rightarrow> 'w \<Rightarrow> (go_error + 'p) \<times> 'w"
  ox_endpoints :: "'p \<Rightarrow> go_error + discoveredEndpoints"
  ox_ssh :: "'p \<Rightarrow> go_error + SSHMetadata"
  ox_urls :: "'p \<Rightarrow> string \<times> string"
  ox_device :: "'h http_client \<Rightarrow> oauth_config \<Rightarrow> ctx \<Rightarrow> (string \<times> string) list \<Rightarrow> 'w
    \<Rightarrow> (oauth_error + DeviceAuthResponse option) \<times> 'w"
  ox_token :: "'h http_client \<Rightarrow> oauth_config \<Rightarrow> ctx \<Rightarrow> DeviceAuthResponse \<Rightarrow> (string \<times> string) list \<Rightarrow> 'w
    \<Rightarrow> (oauth_error + Token option) \<times> 'w"
  ox_verify :: "'h http_client \<Rightarrow> 'p \<Rightarrow> verifier_config \<Rightarrow> ctx \<Rightarrow> string \<Rightarrow> 'w \<Rightarrow> (go_error + id_token) \<times> 'w"
  ox_now :: "'w \<Rightarrow> time"
  ox_time :: "time \<Rightarrow> string"

section \<open>The package\<close>

definition oidc_error :: "sentinel \<Rightarrow> go_error" where
  "oidc_error s = sentinel_error s (case s of
       ErrDiscovery \<Rightarrow> ''oidc: discovery failed''
     | ErrNoDeviceFlow \<Rightarrow> ''oidc: provider does not advertise device_authorization_endpoint''
     | ErrAccessDenied \<Rightarrow> ''oidc: access denied''
     | ErrExpired \<Rightarrow> ''oidc: device code expired''
     | ErrTimeout \<Rightarrow> ''oidc: timed out waiting for authorization''
     | ErrNoIDToken \<Rightarrow> ''oidc: token response has no id_token''
     | _ \<Rightarrow> ''oidc: invalid id_token'')"

definition supportedSigningAlgs :: "string list" where
  "supportedSigningAlgs = [''RS256'', ''ES256'']"

definition defaultPollInterval :: int where "defaultPollInterval = 5"
definition maxPollInterval :: int where "maxPollInterval = 60"
definition maxErrorCodeLen :: int where "maxErrorCodeLen = 40"
definition maxErrorDescriptionLen :: int where "maxErrorDescriptionLen = 200"

record 'h Options =
  oo_Issuer :: string
  oo_ClientID :: string
  oo_Scope :: string
  oo_HTTPTimeout :: duration
  oo_AllowInsecureHTTP :: bool
  oo_HTTPClient :: "'h option"

record ('h, 'p) Client =
  oc_httpClient :: "'h http_client"
  oc_provider :: 'p
  oc_oauth :: oauth_config

record Identity =
  id_Subject :: string
  id_Username :: string
  id_Groups :: "string list"
  id_Claims :: claims

text \<open>strings.Fields: the words of the text, white space dropped.\<close>

definition Fields :: "string \<Rightarrow> string list" where
  "Fields s = map (\<lambda>w. concat (map snd w)) (words_by (\<lambda>c. IsSpace (fst c)) (chunks s))"

fun check_endpoints :: "golib \<Rightarrow> (string \<times> string) list \<Rightarrow> go_error option" where
  "check_endpoints L [] = None"
| "check_endpoints L ((name, value) # rest) =
     (if value = [] then Some (errors_New (''provider metadata has no '' @ name @ '' (an https URL is required)''))
      else case url_Parse L value of
        Inl e \<Rightarrow> Some (wrapf (''provider metadata has an invalid '' @ name @ '': '') e [])
      | Inr u \<Rightarrow>
          if map lower_char (u_scheme u) \<noteq> ''https'' then
            Some (errors_New (''provider metadata '' @ name @ '' must use https, got scheme '' @ quoted L (u_scheme u)))
          else check_endpoints L rest)"

definition checkEndpointsHTTPS :: "golib \<Rightarrow> discoveredEndpoints \<Rightarrow> bool \<Rightarrow> go_error option" where
  "checkEndpointsHTTPS L meta allowInsecure =
     (if allowInsecure then None
      else check_endpoints L
        [(''device_authorization_endpoint'', de_DeviceAuthorizationEndpoint meta),
         (''token_endpoint'', de_TokenEndpoint meta),
         (''jwks_uri'', de_JWKSURI meta)])"

definition discovery_failed :: "go_error \<Rightarrow> go_error" where
  "discovery_failed e = wrap2 (oidc_error ErrDiscovery) '': '' e"

definition discovered_client :: "golib \<Rightarrow> ('h, 'p, 'w) oidc_env \<Rightarrow> 'h Options \<Rightarrow> 'h http_client \<Rightarrow> 'p \<Rightarrow> go_error + ('h, 'p) Client" where
  "discovered_client L X opts http provider =
     (case ox_endpoints X provider of
        Inl e \<Rightarrow> Inl (discovery_failed e)
      | Inr meta \<Rightarrow>
          if de_DeviceAuthorizationEndpoint meta = [] then Inl (oidc_error ErrNoDeviceFlow)
          else (case checkEndpointsHTTPS L meta (oo_AllowInsecureHTTP opts) of
              Some e \<Rightarrow> Inl (discovery_failed e)
            | None \<Rightarrow> Inr
                \<lparr>oc_httpClient = http, oc_provider = provider,
                 oc_oauth = \<lparr>oc_ClientID = oo_ClientID opts, oc_AuthURL = fst (ox_urls X provider),
                   oc_TokenURL = snd (ox_urls X provider), oc_DeviceAuthURL = de_DeviceAuthorizationEndpoint meta,
                   oc_Scopes = Fields (oo_Scope opts)\<rparr>\<rparr>))"

definition New :: "golib \<Rightarrow> ('h, 'p, 'w) oidc_env \<Rightarrow> ctx \<Rightarrow> 'h Options \<Rightarrow> 'w \<Rightarrow> (go_error + ('h, 'p) Client) \<times> 'w" where
  "New L X ctx opts w =
     (case url_Parse L (oo_Issuer opts) of
        Inl e \<Rightarrow> (Inl (wrap2 (wrapf [] (oidc_error ErrDiscovery) ('': invalid issuer '' @ quoted L (oo_Issuer opts))) '': '' e), w)
      | Inr u \<Rightarrow>
          if u_scheme u \<noteq> ''https'' \<and> \<not> oo_AllowInsecureHTTP opts then
            (Inl (wrapf [] (oidc_error ErrDiscovery) ('': issuer '' @ quoted L (oo_Issuer opts) @ '' must use https'')), w)
          else if oo_HTTPClient opts = None \<and> oo_HTTPTimeout opts \<le> 0 then
            (Inl (wrapf [] (oidc_error ErrDiscovery) ('': http timeout must be positive, got ''
               @ Duration_String (oo_HTTPTimeout opts))), w)
          else (let http = (case oo_HTTPClient opts of Some h \<Rightarrow> GivenClient h | None \<Rightarrow> NoRedirectClient (oo_HTTPTimeout opts)) in
            case ox_discover X http (oo_Issuer opts) ctx w of
              (Inl e, w') \<Rightarrow> (Inl (discovery_failed e), w')
            | (Inr provider, w') \<Rightarrow> (discovered_client L X opts http provider, w')))"

subsection \<open>Text and errors from the provider\<close>

fun text_loop :: "(rune \<Rightarrow> bool) \<Rightarrow> rune list \<Rightarrow> bool \<Rightarrow> rune list \<Rightarrow> rune list" where
  "text_loop tbl out pendingSpace [] = out"
| "text_loop tbl out pendingSpace (r # rs) =
     (if IsSpace r \<or> \<not> IsPrint tbl r then text_loop tbl out True rs
      else text_loop tbl ((if pendingSpace \<and> 0 < length out then out @ [0x20] else out) @ [r]) False rs)"

definition sanitizeProviderText :: "golib \<Rightarrow> string \<Rightarrow> int \<Rightarrow> string" where
  "sanitizeProviderText L s limit =
     (let out = text_loop (lib_print L) [] False (runes s) in
      if limit < int (length out) then of_runes (take (nat limit) out) @ ''...'' else of_runes out)"

definition summarizeRetrieveError :: "golib \<Rightarrow> retrieve_error \<Rightarrow> string" where
  "summarizeRetrieveError L re =
     (let code = sanitizeProviderText L (rt_code re) maxErrorCodeLen;
          desc = sanitizeProviderText L (rt_desc re) maxErrorDescriptionLen
      in ''provider returned''
         @ (case rt_status re of Some st \<Rightarrow> '' HTTP '' @ deci st | None \<Rightarrow> '' an error'')
         @ (if code \<noteq> [] then '' ('' @ code @ '')'' else [])
         @ (if desc \<noteq> [] then '': '' @ desc else []))"

text \<open>The summary unwraps to the RetrieveError itself, which wraps nothing.\<close>

definition sanitizeProviderError :: "golib \<Rightarrow> oauth_error \<Rightarrow> go_error" where
  "sanitizeProviderError L e =
     (case oa_retrieve e of None \<Rightarrow> oa_err e | Some re \<Rightarrow> errors_New (summarizeRetrieveError L re))"

definition wrapProviderError :: "golib \<Rightarrow> string \<Rightarrow> oauth_error \<Rightarrow> go_error" where
  "wrapProviderError L opn e = wrapf (''oidc: '' @ opn @ '' failed: '') (sanitizeProviderError L e) []"

subsection \<open>The device flow\<close>

definition reservedDeviceParams :: "string list" where
  "reservedDeviceParams = [''client_id'', ''scope'', ''device_name'']"

definition checkParamName :: "golib \<Rightarrow> string \<Rightarrow> go_error option" where
  "checkParamName L name =
     (if name = [] then Some (errors_New ''oidc: device authorization parameter with an empty name'')
      else if name \<in> set reservedDeviceParams then
        Some (errors_New (''oidc: device authorization parameter '' @ quoted L name @ '' is reserved''))
      else if list_ex (\<lambda>r. IsSpace r \<or> \<not> IsPrint (lib_print L) r) (runes name) then
        Some (errors_New (''oidc: device authorization parameter name '' @ quoted L name @ '' is not a token''))
      else None)"

fun add_params :: "golib \<Rightarrow> strmap \<Rightarrow> string list \<Rightarrow> (string \<times> string) list \<Rightarrow> go_error + (string \<times> string) list" where
  "add_params L extra [] opts = Inr opts"
| "add_params L extra (name # names) opts =
     (case checkParamName L name of Some e \<Rightarrow> Inl e
      | None \<Rightarrow> (case map_of extra name of
          Some v \<Rightarrow> if v = [] then add_params L extra names opts else add_params L extra names (opts @ [(name, v)])
        | None \<Rightarrow> add_params L extra names opts))"

definition StartDeviceAuth :: "golib \<Rightarrow> ('h, 'p, 'w) oidc_env \<Rightarrow> ('h, 'p) Client \<Rightarrow> ctx \<Rightarrow> string \<Rightarrow> strmap \<Rightarrow> 'w
    \<Rightarrow> (go_error + DeviceAuthResponse option) \<times> 'w" where
  "StartDeviceAuth L X c ctx deviceName extra w =
     (case add_params L extra (sorted_keys extra) (if deviceName \<noteq> [] then [(''device_name'', deviceName)] else []) of
        Inl e \<Rightarrow> (Inl e, w)
      | Inr opts \<Rightarrow>
          (case ox_device X (oc_httpClient c) (oc_oauth c) ctx opts w of
             (Inl e, w') \<Rightarrow> (Inl (wrapProviderError L ''device authorization request'' e), w')
           | (Inr da, w') \<Rightarrow> (Inr da, w')))"

definition clampInterval :: "int \<Rightarrow> int" where
  "clampInterval sec =
     (if sec < 1 then defaultPollInterval else if maxPollInterval < sec then maxPollInterval else sec)"

definition token_error :: "golib \<Rightarrow> oauth_error \<Rightarrow> go_error" where
  "token_error L e =
     (if Is (oa_err e) ContextDeadlineExceeded \<or> Is (oa_err e) ContextCanceled then
        wrap2 (oidc_error ErrTimeout) '': '' (oa_err e)
      else case oa_retrieve e of
        Some re \<Rightarrow>
          if rt_code re = ''access_denied'' then wrap2 (oidc_error ErrAccessDenied) '': '' (sanitizeProviderError L e)
          else if rt_code re = ''expired_token'' then wrap2 (oidc_error ErrExpired) '': '' (sanitizeProviderError L e)
          else wrapProviderError L ''token request'' e
      | None \<Rightarrow> wrapProviderError L ''token request'' e)"

definition WaitForToken :: "golib \<Rightarrow> ('h, 'p, 'w) oidc_env \<Rightarrow> ('h, 'p) Client \<Rightarrow> ctx \<Rightarrow> DeviceAuthResponse option \<Rightarrow> string \<Rightarrow> 'w
    \<Rightarrow> (go_error + Token option) \<times> 'w" where
  "WaitForToken L X c ctx da0 confirmation w =
     (case da0 of None \<Rightarrow> (Inl (errors_New ''oidc: nil device authorization response''), w)
      | Some da \<Rightarrow>
          (let polled = da\<lparr>da_Interval := clampInterval (da_Interval da)\<rparr>;
               opts = (if confirmation \<noteq> [] then [(''user_confirmation'', confirmation)] else []) in
           case ox_token X (oc_httpClient c) (oc_oauth c) ctx polled opts w of
             (Inr tok, w') \<Rightarrow> (Inr tok, w')
           | (Inl e, w') \<Rightarrow> (Inl (token_error L e), w')))"

subsection \<open>Discovery metadata\<close>

definition Metadata :: "('h, 'p, 'w) oidc_env \<Rightarrow> ('h, 'p) Client \<Rightarrow> go_error + SSHMetadata" where
  "Metadata X c = (case ox_ssh X (oc_provider c) of
     Inl e \<Rightarrow> Inl (wrapf ''oidc: decode provider metadata: '' e []) | Inr m \<Rightarrow> Inr m)"

definition SSH :: "('h, 'p, 'w) oidc_env \<Rightarrow> ('h, 'p) Client \<Rightarrow> SSHMetadata" where
  "SSH X c = (case Metadata X c of
     Inl e \<Rightarrow> \<lparr>sm_AccessEndpoint = [], sm_ConfirmationSupported = False\<rparr> | Inr m \<Rightarrow> m)"

subsection \<open>The ID token\<close>

definition IDTokenFrom :: "Token option \<Rightarrow> go_error + string" where
  "IDTokenFrom tok =
     (case tok of None \<Rightarrow> Inl (oidc_error ErrNoIDToken)
      | Some t \<Rightarrow> (case tk_Extra t ''id_token'' of
          JString raw \<Rightarrow> if raw = [] then Inl (oidc_error ErrNoIDToken) else Inr raw
        | _ \<Rightarrow> Inl (oidc_error ErrNoIDToken)))"

definition stringClaim :: "golib \<Rightarrow> claims \<Rightarrow> string \<Rightarrow> go_error + string" where
  "stringClaim L cs name =
     (case map_of cs name of
        None \<Rightarrow> Inr [] | Some JNull \<Rightarrow> Inr [] | Some (JString s) \<Rightarrow> Inr s
      | Some v \<Rightarrow> Inl (wrapf [] (oidc_error ErrInvalidToken) ('': claim '' @ quoted L name @ '' is not a string'')))"

fun slice_loop :: "go_error \<Rightarrow> json list \<Rightarrow> string list \<Rightarrow> go_error + string list" where
  "slice_loop bad [] out = Inr out"
| "slice_loop bad (it # items) out =
     (case it of JString s \<Rightarrow> slice_loop bad items (out @ [s]) | _ \<Rightarrow> Inl bad)"

definition stringSliceClaim :: "golib \<Rightarrow> claims \<Rightarrow> string \<Rightarrow> go_error + string list" where
  "stringSliceClaim L cs name =
     (case map_of cs name of
        None \<Rightarrow> Inr [] | Some JNull \<Rightarrow> Inr []
      | Some (JArray items) \<Rightarrow>
          slice_loop (wrapf [] (oidc_error ErrInvalidToken) ('': claim '' @ quoted L name @ '' contains a non-string element'')) items []
      | Some v \<Rightarrow> Inl (wrapf [] (oidc_error ErrInvalidToken) ('': claim '' @ quoted L name @ '' is not an array'')))"

definition issued_in_future :: "('h, 'p, 'w) oidc_env \<Rightarrow> duration \<Rightarrow> time option \<Rightarrow> 'w \<Rightarrow> go_error option" where
  "issued_in_future X skew issuedAt w =
     (case issuedAt of None \<Rightarrow> None
      | Some iat \<Rightarrow> if ox_now X w + skew < iat
          then Some (wrapf [] (oidc_error ErrInvalidToken) ('': issued in the future (iat '' @ ox_time X iat @ '')''))
          else None)"

definition VerifyIDToken :: "golib \<Rightarrow> ('h, 'p, 'w) oidc_env \<Rightarrow> ('h, 'p) Client \<Rightarrow> ctx \<Rightarrow> string \<Rightarrow> string \<Rightarrow> string \<Rightarrow> duration \<Rightarrow> 'w
    \<Rightarrow> (go_error + Identity) \<times> 'w" where
  "VerifyIDToken L X c ctx raw usernameClaim groupsClaim skew0 w =
     (let skew = (if skew0 < 0 then 0 else skew0);
          vc = \<lparr>vc_ClientID = oc_ClientID (oc_oauth c), vc_SupportedSigningAlgs = supportedSigningAlgs, vc_NowShift = - skew\<rparr> in
      case ox_verify X (oc_httpClient c) (oc_provider c) vc ctx raw w of
        (Inl e, w') \<Rightarrow> (Inl (wrap2 (oidc_error ErrInvalidToken) '': '' e), w')
      | (Inr t, w') \<Rightarrow>
          (case issued_in_future X skew (it_IssuedAt t) w' of Some e \<Rightarrow> (Inl e, w')
           | None \<Rightarrow>
               if it_Subject t = [] then (Inl (wrapf [] (oidc_error ErrInvalidToken) '': empty sub claim''), w')
               else (case it_claims t of Inl e \<Rightarrow> (Inl (wrap2 (oidc_error ErrInvalidToken) '': '' e), w')
                 | Inr cs \<Rightarrow> (case stringClaim L cs usernameClaim of Inl e \<Rightarrow> (Inl e, w')
                 | Inr username \<Rightarrow> (case stringSliceClaim L cs groupsClaim of Inl e \<Rightarrow> (Inl e, w')
                 | Inr groups \<Rightarrow>
                     (Inr \<lparr>id_Subject = it_Subject t, id_Username = username, id_Groups = groups, id_Claims = cs\<rparr>, w'))))))"

section \<open>Sanitised text\<close>

lemma text_loop_same: "OidcClient.text_loop tbl out p rs = Provider.text_loop tbl out p rs"
  by (induction tbl out p rs rule: OidcClient.text_loop.induct) auto

lemma sanitize_same: "OidcClient.sanitizeProviderText = Provider.sanitizeProviderText"
  by (intro ext) (simp add: OidcClient.sanitizeProviderText_def Provider.sanitizeProviderText_def text_loop_same)

lemma control_free_text: "control_free (OidcClient.sanitizeProviderText L s limit)"
proof -
  obtain rs where "Provider.sanitizeProviderText L s limit = of_runes rs" "\<forall>r \<in> set rs. scalar r \<and> \<not> IsControl r"
    by (rule sanitizeProviderText_runes)
  then show ?thesis using control_freeI by (simp add: sanitize_same)
qed

lemma control_free_dec: "control_free (dec n)"
proof (rule control_free_ascii)
  show "list_all (\<lambda>c. 0x20 \<le> byte c \<and> byte c < 0x7F) (dec n)"
    using dec_digits by (fastforce simp: list_all_iff is_digit_def)
qed

lemma control_free_deci: "control_free (deci i)"
  using control_free_append [OF control_free_ascii [of "''-''"] control_free_dec]
  by (simp add: deci_def control_free_dec byte_def)

lemma control_free_if: "control_free a \<Longrightarrow> control_free (if p then a else [])"
  by (simp add: control_free_ascii)

lemma control_free_summary: "control_free (summarizeRetrieveError L re)"
proof -
  have lit: "control_free ''provider returned''" "control_free '' HTTP ''" "control_free '' an error''"
    "control_free '' (''" "control_free '')''" "control_free '': ''"
    by (auto intro!: control_free_ascii simp: byte_def)
  let ?status = "case rt_status re of Some st \<Rightarrow> '' HTTP '' @ deci st | None \<Rightarrow> '' an error''"
  have status: "control_free ?status"
    by (cases "rt_status re") (simp_all only: option.case lit control_free_append control_free_deci)
  show ?thesis
    unfolding summarizeRetrieveError_def Let_def
    by (intro control_free_append control_free_if control_free_text status lit)
qed

section \<open>Device parameters\<close>

definition plain_name :: "golib \<Rightarrow> string \<Rightarrow> bool" where
  "plain_name L name = (name \<noteq> [] \<and> name \<notin> set reservedDeviceParams
     \<and> list_all (\<lambda>r. \<not> IsSpace r \<and> IsPrint (lib_print L) r) (runes name))"

lemma checkParamName_iff: "checkParamName L name = None \<longleftrightarrow> plain_name L name"
  by (auto simp: checkParamName_def plain_name_def list_ex_iff list_all_iff)

definition sent_extra :: "strmap \<Rightarrow> string list \<Rightarrow> (string \<times> string) list" where
  "sent_extra extra names = concat (map (\<lambda>n. case map_of extra n of
     Some v \<Rightarrow> if v = [] then [] else [(n, v)] | None \<Rightarrow> []) names)"

lemma add_params_spec:
  "add_params L extra names opts =
    (case find (\<lambda>n. \<not> plain_name L n) names of
       Some n \<Rightarrow> Inl (the (checkParamName L n)) | None \<Rightarrow> Inr (opts @ sent_extra extra names))"
  by (induction L extra names opts rule: add_params.induct)
    (auto simp: sent_extra_def checkParamName_iff [symmetric] split: option.splits)

section \<open>Discovery\<close>

lemma check_endpoints_None:
  "check_endpoints L eps = None \<longleftrightarrow>
    list_all (\<lambda>(n, v). v \<noteq> [] \<and> (case url_Parse L v of Inl e \<Rightarrow> False | Inr u \<Rightarrow> map lower_char (u_scheme u) = ''https'')) eps"
  by (induction L eps rule: check_endpoints.induct) (auto split: sum.split)

lemma check_endpoints_plain: "check_endpoints L eps = Some e \<Longrightarrow> err_is e = []"
proof (induction L eps rule: check_endpoints.induct)
  case (2 L name v rest)
  have "url_Parse L v = Inl x \<Longrightarrow> err_is x = []" for x
    using url_Parse_plain_error [of L v x] by (metis Is_def list.set_intros(1) neq_Nil_conv)
  with 2 show ?case by (auto simp: errors_New_def wrapf_def split: if_splits sum.splits)
qed simp

lemma oidc_error_is: "Is (oidc_error s) t = (t = s)"
  by (simp add: oidc_error_def)

lemma discovery_failed_is: "Is (discovery_failed e) ErrDiscovery"
  by (simp add: discovery_failed_def oidc_error_is)

section \<open>Claims\<close>

lemma slice_loop_Inr:
  "slice_loop bad items out = Inr gs \<longleftrightarrow> (\<exists>ss. items = map JString ss \<and> gs = out @ ss)"
proof (induction bad items out rule: slice_loop.induct)
  case (2 bad it items out)
  then show ?case by (cases it) (auto simp: map_eq_Cons_conv Cons_eq_map_conv)
qed auto

lemma stringSliceClaim_mem:
  "stringSliceClaim L cs name = Inr gs \<Longrightarrow> g \<in> set gs \<Longrightarrow>
    \<exists>items. map_of cs name = Some (JArray items) \<and> JString g \<in> set items"
  by (auto simp: stringSliceClaim_def slice_loop_Inr split: option.splits json.splits)

lemma stringClaim_nonempty:
  "stringClaim L cs name = Inr s \<Longrightarrow> s \<noteq> [] \<Longrightarrow> map_of cs name = Some (JString s)"
  by (auto simp: stringClaim_def split: option.splits json.splits)

lemma VerifyIDToken_Inr:
  assumes "VerifyIDToken L X c ctx raw uc gc skew w = (Inr i, w')"
  obtains t where
    "ox_verify X (oc_httpClient c) (oc_provider c) \<lparr>vc_ClientID = oc_ClientID (oc_oauth c),
        vc_SupportedSigningAlgs = [''RS256'', ''ES256''], vc_NowShift = - max 0 skew\<rparr> ctx raw w = (Inr t, w')"
    "id_Subject i = it_Subject t" "it_Subject t \<noteq> []" "it_claims t = Inr (id_Claims i)"
    "case it_IssuedAt t of None \<Rightarrow> True | Some iat \<Rightarrow> iat \<le> ox_now X w' + max 0 skew"
    "stringClaim L (id_Claims i) uc = Inr (id_Username i)" "stringSliceClaim L (id_Claims i) gc = Inr (id_Groups i)"
proof -
  have m: "(if skew < 0 then 0 else skew) = max 0 skew" by simp
  from assms that show ?thesis
    unfolding VerifyIDToken_def Let_def m
    by (fastforce simp: supportedSigningAlgs_def issued_in_future_def
        split: sum.splits prod.splits option.splits if_splits)
qed

section \<open>Reading an identity\<close>

definition claim_text :: "claims \<Rightarrow> string \<Rightarrow> string option" where
  "claim_text cs name = (case map_of cs name of None \<Rightarrow> Some [] | Some JNull \<Rightarrow> Some [] | Some (JString s) \<Rightarrow> Some s | _ \<Rightarrow> None)"

definition claim_texts :: "claims \<Rightarrow> string \<Rightarrow> json list option" where
  "claim_texts cs name = (case map_of cs name of None \<Rightarrow> Some [] | Some JNull \<Rightarrow> Some [] | Some (JArray js) \<Rightarrow> Some js | _ \<Rightarrow> None)"

lemma stringClaim_iff: "stringClaim L cs name = Inr s \<longleftrightarrow> claim_text cs name = Some s"
  by (auto simp: stringClaim_def claim_text_def split: option.split json.split)

lemma stringSliceClaim_iff: "stringSliceClaim L cs name = Inr gs \<longleftrightarrow> claim_texts cs name = Some (map JString gs)"
  by (auto simp: stringSliceClaim_def claim_texts_def slice_loop_Inr split: option.split json.split)

section \<open>How polling ends\<close>

definition ctx_ended :: "oauth_error \<Rightarrow> bool" where
  "ctx_ended oe = (Is (oa_err oe) ContextDeadlineExceeded \<or> Is (oa_err oe) ContextCanceled)"

definition provider_code :: "oauth_error \<Rightarrow> string \<Rightarrow> bool" where
  "provider_code oe code = (case oa_retrieve oe of None \<Rightarrow> False | Some re \<Rightarrow> rt_code re = code)"

text \<open>The errors of x/oauth2 do not wrap the sentinels of this package.\<close>

definition foreign_error :: "oauth_error \<Rightarrow> bool" where
  "foreign_error oe = list_all (\<lambda>s. \<not> Is (oa_err oe) s) [ErrTimeout, ErrAccessDenied, ErrExpired]"

lemma sanitizeProviderError_is: "foreign_error oe \<Longrightarrow> s \<in> {ErrTimeout, ErrAccessDenied, ErrExpired} \<Longrightarrow>
    \<not> Is (sanitizeProviderError L oe) s"
  by (auto simp: sanitizeProviderError_def foreign_error_def split: option.split)

lemma token_error_is:
  assumes "foreign_error oe"
  shows "Is (token_error L oe) ErrTimeout = ctx_ended oe"
    and "Is (token_error L oe) ErrAccessDenied = (\<not> ctx_ended oe \<and> provider_code oe ''access_denied'')"
    and "Is (token_error L oe) ErrExpired = (\<not> ctx_ended oe \<and> provider_code oe ''expired_token'')"
  using sanitizeProviderError_is [OF assms] assms
  by (auto simp: token_error_def ctx_ended_def provider_code_def oidc_error_is wrapProviderError_def foreign_error_def
      split: option.split)

lemma token_error_clean:
  assumes "\<not> ctx_ended oe" "oa_retrieve oe \<noteq> None"
  shows "control_free (err_msg (token_error L oe))"
proof -
  obtain re where re: "oa_retrieve oe = Some re" using assms(2) by blast
  have lit: "control_free ''oidc: token request failed: ''" "control_free ''oidc: access denied: ''"
    "control_free ''oidc: device code expired: ''" by (auto intro!: control_free_ascii simp: byte_def)
  note c = lit [THEN control_free_append, OF control_free_summary [of L re]]
  have "err_msg (token_error L oe) \<in> {''oidc: token request failed: '' @ summarizeRetrieveError L re,
      ''oidc: access denied: '' @ summarizeRetrieveError L re, ''oidc: device code expired: '' @ summarizeRetrieveError L re}"
    using assms(1) by (simp add: token_error_def ctx_ended_def re wrapProviderError_def sanitizeProviderError_def
        wrapf_def wrap2_def errors_New_def oidc_error_def sentinel_error_def)
  with c show ?thesis by (metis insertE singletonD)
qed

lemma clampInterval_spec: "1 \<le> clampInterval n \<and> clampInterval n \<le> 60 \<and> (1 \<le> n \<and> n \<le> 60 \<longrightarrow> clampInterval n = n)"
  by (simp add: clampInterval_def defaultPollInterval_def maxPollInterval_def)

section \<open>The device request\<close>

definition device_params :: "string \<Rightarrow> strmap \<Rightarrow> (string \<times> string) list" where
  "device_params deviceName extra =
     (if deviceName = [] then [] else [(''device_name'', deviceName)]) @ sent_extra extra (sorted_keys extra)"

definition carried :: "strmap \<Rightarrow> string \<Rightarrow> bool" where
  "carried extra n = (case map_of extra n of None \<Rightarrow> False | Some v \<Rightarrow> v \<noteq> [])"

lemma sent_extra_map:
  "sent_extra extra names = map (\<lambda>n. (n, the (map_of extra n))) (filter (carried extra) names)"
  by (induction names) (auto simp: sent_extra_def carried_def split: option.split)

lemma sent_extra_names: "map fst (sent_extra extra names) = filter (carried extra) names"
  by (simp add: sent_extra_map comp_def)

lemma sent_extra_mem:
  assumes "distinct (map fst extra)"
  shows "(k, v) \<in> set (sent_extra extra (sorted_keys extra)) \<longleftrightarrow> v \<noteq> [] \<and> (k, v) \<in> set extra"
proof -
  have "(k, v) \<in> set (sent_extra extra (sorted_keys extra)) \<longleftrightarrow> k \<in> fst ` set extra \<and> carried extra k \<and> v = the (map_of extra k)"
    by (auto simp: sent_extra_map)
  also have "\<dots> \<longleftrightarrow> v \<noteq> [] \<and> map_of extra k = Some v"
    by (auto simp: carried_def split: option.splits dest: map_of_SomeD intro: rev_image_eqI)
  finally show ?thesis by (simp add: assms)
qed

lemma StartDeviceAuth_eq:
  "StartDeviceAuth L X c ctx dn extra w =
    (if list_all (plain_name L) (map fst extra) then
       (case ox_device X (oc_httpClient c) (oc_oauth c) ctx (device_params dn extra) w of
          (Inl e, w') \<Rightarrow> (Inl (wrapProviderError L ''device authorization request'' e), w')
        | (Inr da, w') \<Rightarrow> (Inr da, w'))
     else (Inl (the (checkParamName L (the (find (\<lambda>n. \<not> plain_name L n) (sorted_keys extra))))), w))"
proof (cases "find (\<lambda>n. \<not> plain_name L n) (sorted_keys extra)")
  case None
  then have "list_all (plain_name L) (map fst extra)" by (auto simp: find_None_iff list_all_iff)
  with None show ?thesis by (simp add: StartDeviceAuth_def add_params_spec device_params_def)
next
  case (Some n)
  then have "n \<in> set (sorted_keys extra)" "\<not> plain_name L n"
    by (auto simp: find_Some_iff simp del: set_sorted_keys)
  then have "\<not> list_all (plain_name L) (map fst extra)" by (auto simp: list_all_iff)
  with Some show ?thesis by (simp add: StartDeviceAuth_def add_params_spec)
qed

text \<open>A provider world for concrete runs: one answer per operation, the state counts the requests.\<close>

definition sample_discovery :: discoveredEndpoints where
  "sample_discovery = \<lparr>de_DeviceAuthorizationEndpoint = ''https://i/d'', de_TokenEndpoint = ''https://i/t'',
     de_JWKSURI = ''https://i/k''\<rparr>"

definition scripted :: "oauth_error + DeviceAuthResponse option \<Rightarrow> oauth_error + Token option \<Rightarrow> go_error + id_token
    \<Rightarrow> (unit, unit, nat) oidc_env" where
  "scripted device token verified =
     \<lparr>ox_discover = (\<lambda>h i c n. (Inr (), Suc n)), ox_endpoints = (\<lambda>p. Inr sample_discovery),
      ox_ssh = (\<lambda>p. Inr \<lparr>sm_AccessEndpoint = [], sm_ConfirmationSupported = False\<rparr>), ox_urls = (\<lambda>p. ([], ''https://i/t'')),
      ox_device = (\<lambda>h cf c ps n. (device, Suc n)), ox_token = (\<lambda>h cf c d ps n. (token, Suc n)),
      ox_verify = (\<lambda>h p v c raw n. (verified, Suc n)), ox_now = int, ox_time = (\<lambda>t. [])\<rparr>"

definition sample_client :: "(unit, unit) Client" where
  "sample_client = \<lparr>oc_httpClient = GivenClient (), oc_provider = (),
     oc_oauth = \<lparr>oc_ClientID = ''cid'', oc_AuthURL = [], oc_TokenURL = ''https://i/t'', oc_DeviceAuthURL = ''https://i/d'',
       oc_Scopes = []\<rparr>\<rparr>"

definition sample_device :: DeviceAuthResponse where
  "sample_device = \<lparr>da_DeviceCode = ''dc'', da_UserCode = ''U'', da_VerificationURI = ''https://i/v'',
     da_VerificationURIComplete = [], da_Expiry = None, da_Interval = 0\<rparr>"

definition https_url :: "golib \<Rightarrow> string \<Rightarrow> bool" where
  "https_url L s = (case url_Parse L s of Inl e \<Rightarrow> False | Inr u \<Rightarrow> map lower_char (u_scheme u) = ''https'')"

lemma checkEndpointsHTTPS_None:
  "checkEndpointsHTTPS L meta insecure = None \<longleftrightarrow> insecure
    \<or> list_all (\<lambda>v. v \<noteq> [] \<and> https_url L v) [de_DeviceAuthorizationEndpoint meta, de_TokenEndpoint meta, de_JWKSURI meta]"
  by (simp add: checkEndpointsHTTPS_def check_endpoints_None https_url_def del: check_endpoints.simps)

text \<open>The options New refuses, and the HTTP client it takes otherwise.\<close>

definition options_refused :: "golib \<Rightarrow> 'h Options \<Rightarrow> bool" where
  "options_refused L opts = ((case url_Parse L (oo_Issuer opts) of Inl e \<Rightarrow> True
     | Inr u \<Rightarrow> u_scheme u \<noteq> ''https'' \<and> \<not> oo_AllowInsecureHTTP opts)
   \<or> (oo_HTTPClient opts = None \<and> oo_HTTPTimeout opts \<le> 0))"

definition options_client :: "'h Options \<Rightarrow> 'h http_client" where
  "options_client opts = (case oo_HTTPClient opts of Some h \<Rightarrow> GivenClient h | None \<Rightarrow> NoRedirectClient (oo_HTTPTimeout opts))"

lemma discovery_failed_other: "discovery_failed e \<noteq> oidc_error ErrNoDeviceFlow"
proof
  assume "discovery_failed e = oidc_error ErrNoDeviceFlow"
  then have "Is (oidc_error ErrNoDeviceFlow) ErrDiscovery" using discovery_failed_is [of e] by simp
  then show False by (simp add: oidc_error_is)
qed

lemma discovered_client_cases:
  assumes "oo_AllowInsecureHTTP opts \<or> https_url L (oo_Issuer opts)"
  shows "case discovered_client L X opts http p of
      Inl e \<Rightarrow> (e = oidc_error ErrNoDeviceFlow) = (\<exists>meta. ox_endpoints X p = Inr meta \<and> de_DeviceAuthorizationEndpoint meta = [])
        \<and> (e = oidc_error ErrNoDeviceFlow \<or> Is e ErrDiscovery)
    | Inr c \<Rightarrow> oc_provider c = p \<and> oc_httpClient c = http \<and> oc_ClientID (oc_oauth c) = oo_ClientID opts
       \<and> (\<exists>meta. ox_endpoints X p = Inr meta
         \<and> oc_DeviceAuthURL (oc_oauth c) = de_DeviceAuthorizationEndpoint meta \<and> oc_DeviceAuthURL (oc_oauth c) \<noteq> []
         \<and> (oo_AllowInsecureHTTP opts \<or> list_all (https_url L)
             [oo_Issuer opts, de_DeviceAuthorizationEndpoint meta, de_TokenEndpoint meta, de_JWKSURI meta]))"
proof (cases "ox_endpoints X p")
  case (Inl e)
  then show ?thesis by (simp add: discovered_client_def discovery_failed_is discovery_failed_other)
next
  case (Inr meta)
  show ?thesis
  proof (cases "checkEndpointsHTTPS L meta (oo_AllowInsecureHTTP opts)")
    case None
    with Inr assms checkEndpointsHTTPS_None [of L meta "oo_AllowInsecureHTTP opts"] show ?thesis
      by (auto simp: discovered_client_def)
  next
    case (Some e)
    with Inr show ?thesis by (simp add: discovered_client_def discovery_failed_is discovery_failed_other)
  qed
qed

section \<open>Properties\<close>


text \<open>C22: what a device request carries. For parameters that all have a name, nothing is sent when a
  name is reserved, or has white space or characters that do not print; otherwise exactly the
  device name and the parameters with a value are sent, each once, the caller's in sorted order and
  never in the place of a parameter of the flow.\<close>

theorem StartDeviceAuth_sends:
  assumes "distinct (map fst extra)" "[] \<notin> fst ` set extra"
  shows "let ps = device_params dn extra; r = StartDeviceAuth L X c ctx dn extra w in
    (if \<exists>n \<in> fst ` set extra. n \<in> {''client_id'', ''scope'', ''device_name''}
          \<or> (\<exists>x \<in> set (runes n). IsSpace x \<or> \<not> IsPrint (lib_print L) x)
     then isl (fst r) \<and> snd r = w
     else (case ox_device X (oc_httpClient c) (oc_oauth c) ctx ps w of
         (Inl e, w') \<Rightarrow> r = (Inl (wrapProviderError L ''device authorization request'' e), w')
       | (Inr da, w') \<Rightarrow> r = (Inr da, w'))
       \<and> distinct (map fst ps) \<and> set (map fst ps) \<inter> {''client_id'', ''scope''} = {}
       \<and> sorted (map fst (filter (\<lambda>p. fst p \<noteq> ''device_name'') ps))
       \<and> (\<forall>k v. (k, v) \<in> set ps \<longleftrightarrow> v \<noteq> [] \<and> (k = ''device_name'' \<and> v = dn \<or> (k, v) \<in> set extra)))"
proof -
  let ?xs = "sent_extra extra (sorted_keys extra)" and ?ps = "device_params dn extra"
  have names: "map fst ?xs = filter (carried extra) (sorted_keys extra)" by (rule sent_extra_names)
  have "sorted (map id (filter (carried extra) (sorted_keys extra)))"
    by (intro sorted_filter) (simp add: sorted_keys_def)
  then have ord: "sorted (map fst ?xs)" "distinct (map fst ?xs)"
    unfolding names using assms(1) by (simp_all add: sorted_keys_def)
  have refused: "(\<exists>n \<in> fst ` set extra. n \<in> {''client_id'', ''scope'', ''device_name''}
      \<or> (\<exists>x \<in> set (runes n). IsSpace x \<or> \<not> IsPrint (lib_print L) x)) = (\<not> list_all (plain_name L) (map fst extra))"
  proof -
    have "plain_name L n = (\<not> (n \<in> {''client_id'', ''scope'', ''device_name''}
        \<or> (\<exists>x \<in> set (runes n). IsSpace x \<or> \<not> IsPrint (lib_print L) x)))" if "n \<in> fst ` set extra" for n
      using that assms(2) by (cases "n = []") (auto simp: plain_name_def reservedDeviceParams_def list_all_iff)
    then show ?thesis unfolding list_all_iff by auto
  qed
  have "let r = StartDeviceAuth L X c ctx dn extra w in
    (if \<not> list_all (plain_name L) (map fst extra) then isl (fst r) \<and> snd r = w
     else (case ox_device X (oc_httpClient c) (oc_oauth c) ctx ?ps w of
         (Inl e, w') \<Rightarrow> r = (Inl (wrapProviderError L ''device authorization request'' e), w')
       | (Inr da, w') \<Rightarrow> r = (Inr da, w'))
       \<and> distinct (map fst ?ps) \<and> set (map fst ?ps) \<inter> {''client_id'', ''scope''} = {}
       \<and> sorted (map fst (filter (\<lambda>p. fst p \<noteq> ''device_name'') ?ps))
       \<and> (\<forall>k v. (k, v) \<in> set ?ps \<longleftrightarrow> v \<noteq> [] \<and> (k = ''device_name'' \<and> v = dn \<or> (k, v) \<in> set extra)))" (is ?sent)
  proof (cases "list_all (plain_name L) (map fst extra)")
    case True
    have "plain_name L n" if "n \<in> set (map fst ?xs)" for n
      using that True unfolding names by (auto simp: list_all_iff)
    then have "n \<notin> set reservedDeviceParams" if "n \<in> set (map fst ?xs)" for n
      using that by (simp add: plain_name_def)
    then have res: "set (map fst ?xs) \<inter> {''client_id'', ''scope'', ''device_name''} = {}"
      unfolding reservedDeviceParams_def disjoint_iff by simp
    then have "filter (\<lambda>p. fst p \<noteq> ''device_name'') ?xs = ?xs" by (intro filter_True) force
    then have "filter (\<lambda>p. fst p \<noteq> ''device_name'') ?ps = ?xs" by (simp add: device_params_def)
    moreover have "distinct (map fst ?ps)" "set (map fst ?ps) \<inter> {''client_id'', ''scope''} = {}"
      using res ord by (auto simp: device_params_def)
    moreover have "\<forall>k v. (k, v) \<in> set ?ps \<longleftrightarrow> v \<noteq> [] \<and> (k = ''device_name'' \<and> v = dn \<or> (k, v) \<in> set extra)"
      using sent_extra_mem [OF assms(1)] by (auto simp: device_params_def)
    ultimately show ?sent using ord(1) True unfolding Let_def
      by (simp add: StartDeviceAuth_eq split: prod.split sum.split)
  next
    case False
    then show ?sent by (simp add: StartDeviceAuth_eq)
  qed
  then show ?thesis unfolding Let_def refused .
qed

theorem StartDeviceAuth_sends_witness:
  "let extra = [(''scope'', ''x''), (''zone'', ''b''), (''a'', ''1''), (''e'', [])];
       X = scripted (Inr None) (Inr None) (Inl (errors_New [])) in
     isl (fst (StartDeviceAuth plain_lib X sample_client None ''web'' extra 7))
   \<and> snd (StartDeviceAuth plain_lib X sample_client None ''web'' extra 7) = 7"
proof -
  let ?extra = "[(''scope'', ''x''), (''zone'', ''b''), (''a'', ''1''), (''e'', [])]"
  have d: "distinct (map fst ?extra)" "[] \<notin> fst ` set ?extra" by simp_all
  have p: "\<exists>n \<in> fst ` set ?extra. n \<in> {''client_id'', ''scope'', ''device_name''}
      \<or> (\<exists>x \<in> set (runes n). IsSpace x \<or> \<not> IsPrint (lib_print plain_lib) x)"
    by simp
  show ?thesis
    using StartDeviceAuth_sends [OF d, of "''web''" plain_lib "scripted (Inr None) (Inr None) (Inl (errors_New []))"
        sample_client None 7] unfolding Let_def if_P [OF p] .
qed

text \<open>C23: how polling ends. The token endpoint is asked once, with the PIN only when there is one, and
  with the announced interval clamped to 5..60 seconds (for an announced interval of one to four
  seconds, which the code uses as it is, nothing is claimed here). A failure is a timeout exactly
  when a context ended, and otherwise a denial or an expired code exactly when the provider said
  so in its error code; what the provider wrote is shown without control characters.\<close>

theorem WaitForToken_ends:
  "let iv = clampInterval (da_Interval da);
       ask = ox_token X (oc_httpClient c) (oc_oauth c) ctx (da\<lparr>da_Interval := iv\<rparr>)
         (if pin = [] then [] else [(''user_confirmation'', pin)]) w;
       r = WaitForToken L X c ctx (Some da) pin w in
   (da_Interval da \<in> {1..4} \<or> iv = max 5 (min 60 (da_Interval da))) \<and> snd r = snd ask
   \<and> (case fst ask of Inr tok \<Rightarrow> fst r = Inr tok
      | Inl oe \<Rightarrow> (\<exists>e. fst r = Inl e
          \<and> (foreign_error oe \<longrightarrow> Is e ErrTimeout = ctx_ended oe
             \<and> Is e ErrAccessDenied = (\<not> ctx_ended oe \<and> provider_code oe ''access_denied'')
             \<and> Is e ErrExpired = (\<not> ctx_ended oe \<and> provider_code oe ''expired_token''))
          \<and> (\<not> ctx_ended oe \<and> oa_retrieve oe \<noteq> None \<longrightarrow> control_free (err_msg e))))"
proof -
  obtain x w' where t: "ox_token X (oc_httpClient c) (oc_oauth c) ctx (da\<lparr>da_Interval := clampInterval (da_Interval da)\<rparr>)
      (if pin = [] then [] else [(''user_confirmation'', pin)]) w = (x, w')" by fastforce
  then have r: "WaitForToken L X c ctx (Some da) pin w =
      (case x of Inr tok \<Rightarrow> (Inr tok, w') | Inl e \<Rightarrow> (Inl (token_error L e), w'))"
    by (cases "pin = []") (simp_all add: WaitForToken_def split: sum.split)
  have iv: "da_Interval da \<in> {1..4} \<or> clampInterval (da_Interval da) = max 5 (min 60 (da_Interval da))"
    by (auto simp: clampInterval_def defaultPollInterval_def maxPollInterval_def)
  show ?thesis
  proof (cases x)
    case (Inl oe)
    show ?thesis using iv token_error_is [of oe L] token_error_clean [of oe L] unfolding Let_def t r Inl by simp
  next
    case (Inr tok)
    show ?thesis using iv unfolding Let_def t r Inr by simp
  qed
qed

theorem WaitForToken_ends_witness:
  "let oe = \<lparr>oa_err = errors_New ''raw'', oa_retrieve = Some \<lparr>rt_status = None, rt_code = ''access_denied'', rt_desc = [NL]\<rparr>\<rparr>
    in case fst (WaitForToken plain_lib (scripted (Inr None) (Inl oe) (Inl (errors_New []))) sample_client None
         (Some sample_device) [] 0) of
       Inl e \<Rightarrow> Is e ErrAccessDenied \<and> \<not> Is e ErrTimeout \<and> control_free (err_msg e) | Inr t \<Rightarrow> False"
proof -
  let ?oe = "\<lparr>oa_err = errors_New ''raw'', oa_retrieve = Some \<lparr>rt_status = None, rt_code = ''access_denied'', rt_desc = [NL]\<rparr>\<rparr>"
  have "foreign_error ?oe" "\<not> ctx_ended ?oe" "provider_code ?oe ''access_denied''"
    by (simp_all add: foreign_error_def ctx_ended_def provider_code_def)
  then show ?thesis
    using WaitForToken_ends [of sample_device "scripted (Inr None) (Inl ?oe) (Inl (errors_New []))" sample_client None "[]" 0 plain_lib]
    by (auto simp: Let_def scripted_def)
qed


text \<open>C24: an identity is exactly what a verified token says. A token is accepted if and only if the
  verifier, asked for this client, RS256 or ES256 and a clock shifted back by a non-negative
  skew, accepts it, it was not issued further in the future than the skew, and its subject is not
  empty; the name is the string claim, the groups the array of strings, of the configured names,
  an absent or null claim counting as empty and one of another type as a failure.\<close>

theorem VerifyIDToken_iff:
  "VerifyIDToken L X c ctx raw uc gc skew w = (Inr i, w') \<longleftrightarrow>
    (\<exists>t. ox_verify X (oc_httpClient c) (oc_provider c)
           \<lparr>vc_ClientID = oc_ClientID (oc_oauth c), vc_SupportedSigningAlgs = [''RS256'', ''ES256''], vc_NowShift = - max 0 skew\<rparr>
           ctx raw w = (Inr t, w')
      \<and> (case it_IssuedAt t of None \<Rightarrow> True | Some iat \<Rightarrow> iat \<le> ox_now X w' + max 0 skew)
      \<and> it_Subject t \<noteq> [] \<and> it_claims t = Inr (id_Claims i) \<and> id_Subject i = it_Subject t
      \<and> claim_text (id_Claims i) uc = Some (id_Username i)
      \<and> claim_texts (id_Claims i) gc = Some (map JString (id_Groups i)))"
proof -
  have m: "(if skew < 0 then 0 else skew) = max 0 skew" by simp
  obtain x v where x: "ox_verify X (oc_httpClient c) (oc_provider c)
      \<lparr>vc_ClientID = oc_ClientID (oc_oauth c), vc_SupportedSigningAlgs = [''RS256'', ''ES256''], vc_NowShift = - max 0 skew\<rparr>
      ctx raw w = (x, v)" by fastforce
  have fut: "issued_in_future X s a u = None \<longleftrightarrow> (case a of None \<Rightarrow> True | Some iat \<Rightarrow> iat \<le> ox_now X u + s)" for s a u
    by (auto simp: issued_in_future_def split: option.split)
  note eq = VerifyIDToken_def Let_def m supportedSigningAlgs_def x
  show ?thesis
  proof (cases x)
    case (Inl e)
    then show ?thesis unfolding eq by simp
  next
    case (Inr t)
    show ?thesis
    proof (cases "issued_in_future X (max 0 skew) (it_IssuedAt t) v")
      case None
      note n = None [unfolded fut]
      show ?thesis
        unfolding eq Inr prod.case sum.case None option.case
        using n by (cases i) (auto simp flip: stringClaim_iff [of L] stringSliceClaim_iff [of L] split: sum.split)
    next
      case (Some e)
      then have "\<not> (case it_IssuedAt t of None \<Rightarrow> True | Some iat \<Rightarrow> iat \<le> ox_now X v + max 0 skew)"
        unfolding fut [symmetric] by simp
      then show ?thesis unfolding eq Inr prod.case sum.case Some option.case by auto
    qed
  qed
qed

end
