(* ===== verification/Auth.thy ===== *)
theory Auth
  imports Config OidcClient
begin

text \<open>
  Package auth (\<^verbatim>\<open>src/internal/auth/authenticator.go\<close>): one login attempt. The interfaces Flow and
  Prompter are records of operations on a state \<open>'w\<close> of the world, which every call may change;
  the two clocks (the injectable one and the one contexts use) read it. Authenticate is written
  with the early returns of the source. The lemmas give the shape of every result, what success
  implies, and that a broken conversation does not change the outcome.
\<close>

section \<open>The package\<close>

datatype Code = Unknown | Success | Ignore | AuthErr | AuthInfoUnavail

fun Code_String :: "Code \<Rightarrow> string" where
  "Code_String Unknown = ''unknown''"
| "Code_String Success = ''success''"
| "Code_String Ignore = ''ignore''"
| "Code_String AuthErr = ''auth_err''"
| "Code_String AuthInfoUnavail = ''authinfo_unavail''"

definition ReasonNotMapped :: string where "ReasonNotMapped = ''not_mapped''"
definition ReasonProviderUnavailable :: string where "ReasonProviderUnavailable = ''provider_unavailable''"
definition ReasonDenied :: string where "ReasonDenied = ''denied''"
definition ReasonTimeout :: string where "ReasonTimeout = ''timeout''"
definition ReasonExpired :: string where "ReasonExpired = ''expired''"
definition ReasonNoIDToken :: string where "ReasonNoIDToken = ''no_id_token''"
definition ReasonInvalidToken :: string where "ReasonInvalidToken = ''invalid_token''"
definition ReasonMissingGroup :: string where "ReasonMissingGroup = ''missing_group''"
definition ReasonEmptyUsername :: string where "ReasonEmptyUsername = ''empty_username''"
definition ReasonNoConfirmation :: string where "ReasonNoConfirmation = ''no_confirmation''"

lemmas reason_defs = ReasonNotMapped_def ReasonProviderUnavailable_def ReasonDenied_def ReasonTimeout_def
  ReasonExpired_def ReasonNoIDToken_def ReasonInvalidToken_def ReasonMissingGroup_def ReasonEmptyUsername_def
  ReasonNoConfirmation_def

definition MsgProviderUnavailable :: string where
  "MsgProviderUnavailable = ''Identity provider unavailable, cannot continue.''"
definition msgOpenURL :: string where
  "msgOpenURL = ''Open the following URL in a browser and approve this login:''"
definition msgDenied :: string where "msgDenied = ''Login denied.''"
definition msgExpired :: string where "msgExpired = ''The code expired before approval; try again.''"
definition msgTimeout :: string where "msgTimeout = ''No approval received in time.''"
definition msgNotAllowed :: "string \<Rightarrow> string" where
  "msgNotAllowed user = ''Not allowed to log in as '' @ user @ '' on this host.''"
definition msgCodePromptFmt :: "string \<Rightarrow> string" where
  "msgCodePromptFmt code = ''Code: '' @ code @ ''. Press Enter after approving in the browser: ''"
definition msgPinPromptFmt :: "string \<Rightarrow> string" where
  "msgPinPromptFmt code = ''Code: '' @ code @ ''. Approve in the browser, then type the PIN it shows: ''"
definition msgPinMissing :: string where
  "msgPinMissing = ''No PIN given; the login cannot be completed.''"
definition msgPinRejected :: string where
  "msgPinRejected = ''The PIN does not match, or the login was denied. This attempt is void; run ssh again.''"

definition EnvSubject :: string where "EnvSubject = ''OIDC_SUB''"

record Result =
  res_Code :: Code
  res_Reason :: string
  res_Username :: string
  res_Subject :: string
  res_Group :: string
  res_Env :: "strmap option"
  res_Err :: "go_error option"

definition zero_result :: Result where
  "zero_result = \<lparr>res_Code = Unknown, res_Reason = [], res_Username = [], res_Subject = [], res_Group = [],
     res_Env = None, res_Err = None\<rparr>"

record 'w Prompter =
  pr_Info :: "string \<Rightarrow> 'w \<Rightarrow> go_error option \<times> 'w"
  pr_Prompt :: "string \<Rightarrow> 'w \<Rightarrow> go_error option \<times> 'w"
  pr_Ask :: "string \<Rightarrow> 'w \<Rightarrow> (go_error + string) \<times> 'w"

record 'w Flow =
  fl_StartDeviceAuth :: "ctx \<Rightarrow> string \<Rightarrow> strmap \<Rightarrow> 'w \<Rightarrow> (go_error + DeviceAuthResponse option) \<times> 'w"
  fl_WaitForToken :: "ctx \<Rightarrow> DeviceAuthResponse option \<Rightarrow> string \<Rightarrow> 'w \<Rightarrow> (go_error + Token option) \<times> 'w"
  fl_VerifyIDToken :: "ctx \<Rightarrow> string \<Rightarrow> string \<Rightarrow> string \<Rightarrow> duration \<Rightarrow> 'w \<Rightarrow> (go_error + Identity) \<times> 'w"

record 'w Authenticator =
  au_cfg :: "Config option"
  au_flow :: "'w Flow"
  au_prompt :: "'w Prompter option"
  au_now :: "'w \<Rightarrow> time"
  au_wall :: "'w \<Rightarrow> time"
  au_deviceExtra :: strmap
  au_confirm :: bool

definition New :: "Config option \<Rightarrow> 'w Flow \<Rightarrow> 'w Prompter option \<Rightarrow> ('w \<Rightarrow> time) \<Rightarrow> 'w Authenticator" where
  "New cfg flow prompt clock =
     \<lparr>au_cfg = cfg, au_flow = flow, au_prompt = prompt, au_now = clock, au_wall = clock,
      au_deviceExtra = [], au_confirm = False\<rparr>"

definition WithDeviceAuthParams :: "'w Authenticator \<Rightarrow> strmap \<Rightarrow> 'w Authenticator" where
  "WithDeviceAuthParams a extra = a\<lparr>au_deviceExtra := extra\<rparr>"

definition WithConfirmation :: "'w Authenticator \<Rightarrow> bool \<Rightarrow> 'w Authenticator" where
  "WithConfirmation a on = a\<lparr>au_confirm := on\<rparr>"

text \<open>The error of a failing conversation is dropped.\<close>

definition info :: "'w Authenticator \<Rightarrow> string \<Rightarrow> 'w \<Rightarrow> 'w" where
  "info a msg w = (case au_prompt a of None \<Rightarrow> w | Some p \<Rightarrow> snd (pr_Info p msg w))"

definition fail :: "Result \<Rightarrow> Code \<Rightarrow> string \<Rightarrow> go_error \<Rightarrow> Result" where
  "fail res code reason e = res\<lparr>res_Code := code, res_Reason := reason, res_Err := Some e\<rparr>"

definition expired :: "'w Authenticator \<Rightarrow> DeviceAuthResponse \<Rightarrow> 'w \<Rightarrow> bool" where
  "expired a da w = (case da_Expiry da of None \<Rightarrow> False | Some t \<Rightarrow> \<not> au_now a w < t)"

definition with_timeout :: "'w Authenticator \<Rightarrow> ctx \<Rightarrow> duration \<Rightarrow> 'w \<Rightarrow> ctx" where
  "with_timeout a ctx wait w =
     Some (case ctx of None \<Rightarrow> au_wall a w + wait | Some d \<Rightarrow> min d (au_wall a w + wait))"

definition wait_time :: "'w Authenticator \<Rightarrow> Config \<Rightarrow> DeviceAuthResponse \<Rightarrow> 'w \<Rightarrow> duration" where
  "wait_time a cfg da w =
     (case da_Expiry da of None \<Rightarrow> c_Timeout cfg
      | Some t \<Rightarrow> (let remaining = time_Sub t (au_now a w)
                  in if remaining < c_Timeout cfg then remaining else c_Timeout cfg))"

definition waitForToken :: "'w Authenticator \<Rightarrow> Config \<Rightarrow> ctx \<Rightarrow> DeviceAuthResponse \<Rightarrow> string \<Rightarrow> 'w
    \<Rightarrow> (go_error + Token option) \<times> 'w" where
  "waitForToken a cfg ctx da confirmation w =
     fl_WaitForToken (au_flow a) (with_timeout a ctx (wait_time a cfg da w) w) (Some da) confirmation w"

definition waitFailure :: "'w Authenticator \<Rightarrow> Result \<Rightarrow> go_error \<Rightarrow> 'w \<Rightarrow> Result \<times> 'w" where
  "waitFailure a res e w =
     (if Is e ErrAccessDenied then
        (fail res AuthErr ReasonDenied e, info a (if au_confirm a then msgPinRejected else msgDenied) w)
      else if Is e ErrExpired then (fail res AuthErr ReasonExpired e, info a msgExpired w)
      else if Is e ErrTimeout then (fail res AuthErr ReasonTimeout e, info a msgTimeout w)
      else (fail res AuthInfoUnavail ReasonProviderUnavailable (wrapf ''wait for token: '' e []), w))"

definition askApproval :: "'w Authenticator \<Rightarrow> DeviceAuthResponse \<Rightarrow> 'w \<Rightarrow> (go_error + string) \<times> 'w" where
  "askApproval a da w =
     (let uri = (if da_VerificationURIComplete da = [] then da_VerificationURI da else da_VerificationURIComplete da);
          w1 = info a (''  '' @ uri) (info a msgOpenURL w)
      in if \<not> au_confirm a then
           (case au_prompt a of None \<Rightarrow> (Inr [], w1)
            | Some p \<Rightarrow> (Inr [], snd (pr_Prompt p (msgCodePromptFmt (da_UserCode da)) w1)))
         else case au_prompt a of
           None \<Rightarrow> (Inl (errors_New ''no conversation available to ask for the PIN''), w1)
         | Some p \<Rightarrow>
             (case pr_Ask p (msgPinPromptFmt (da_UserCode da)) w1 of
                (Inl e, w2) \<Rightarrow> (Inl (wrapf ''ask for the confirmation PIN: '' e []), w2)
              | (Inr pin, w2) \<Rightarrow>
                  if TrimSpace pin = [] then (Inl (errors_New ''no confirmation PIN given''), w2)
                  else (Inr (TrimSpace pin), w2)))"

definition session_env :: "Config \<Rightarrow> Identity \<Rightarrow> strmap" where
  "session_env cfg i =
     (if c_SessionEnv cfg = EnvSubject then [(EnvSubject, id_Subject i)]
      else [(c_SessionEnv cfg, id_Username i), (EnvSubject, id_Subject i)])"

text \<open>From the verified identity on.\<close>

definition decide :: "golib \<Rightarrow> 'w Authenticator \<Rightarrow> Config \<Rightarrow> string \<Rightarrow> Result \<Rightarrow> Identity \<Rightarrow> 'w \<Rightarrow> Result \<times> 'w" where
  "decide L a cfg localUser res0 i w =
     (let res = res0\<lparr>res_Username := id_Username i, res_Subject := id_Subject i\<rparr>; group = res_Group res0 in
      if id_Username i = [] then
        (fail res AuthErr ReasonEmptyUsername (errors_New (''id_token for subject '' @ quoted L (id_Subject i)
            @ '' has no '' @ quoted L (c_UsernameClaim cfg) @ '' claim'')), w)
      else if group \<notin> set (id_Groups i) then
        (fail res AuthErr ReasonMissingGroup (errors_New (''user '' @ quoted L (id_Username i) @ '' (subject ''
            @ quoted L (id_Subject i) @ '') is not a member of group '' @ quoted L group)),
         info a (msgNotAllowed localUser) w)
      else (res\<lparr>res_Code := Success, res_Env := Some (session_env cfg i)\<rparr>, w))"

text \<open>From the token on.\<close>

definition redeem :: "golib \<Rightarrow> 'w Authenticator \<Rightarrow> Config \<Rightarrow> ctx \<Rightarrow> string \<Rightarrow> Result \<Rightarrow> Token option \<Rightarrow> 'w \<Rightarrow> Result \<times> 'w" where
  "redeem L a cfg ctx localUser res tok w =
     (case IDTokenFrom tok of
        Inl e \<Rightarrow> (fail res AuthErr ReasonNoIDToken e, w)
      | Inr raw \<Rightarrow>
          (case fl_VerifyIDToken (au_flow a) ctx raw (c_UsernameClaim cfg) (c_GroupsClaim cfg) (c_ClockSkew cfg) w of
             (Inl e, w1) \<Rightarrow> (fail res AuthErr ReasonInvalidToken (wrapf ''verify id_token: '' e []), w1)
           | (Inr i, w1) \<Rightarrow> decide L a cfg localUser res i w1))"

text \<open>From the device code on.\<close>

definition approve :: "golib \<Rightarrow> 'w Authenticator \<Rightarrow> Config \<Rightarrow> ctx \<Rightarrow> string \<Rightarrow> Result \<Rightarrow> DeviceAuthResponse \<Rightarrow> 'w \<Rightarrow> Result \<times> 'w" where
  "approve L a cfg ctx localUser res da w =
     (if expired a da w then
        (fail res AuthErr ReasonExpired
           (wrapf (''device code expired at '' @ Format_RFC3339 (case da_Expiry da of Some t \<Rightarrow> t | None \<Rightarrow> 0)
              @ '' before polling started: '') (oidc_error ErrExpired) []),
         info a msgExpired w)
      else case askApproval a da w of
        (Inl e, w1) \<Rightarrow> (fail res AuthErr ReasonNoConfirmation e, info a msgPinMissing w1)
      | (Inr pin, w1) \<Rightarrow>
          (case waitForToken a cfg ctx da pin w1 of
             (Inl e, w2) \<Rightarrow> waitFailure a res e w2
           | (Inr tok, w2) \<Rightarrow> redeem L a cfg ctx localUser res tok w2))"

definition Authenticate :: "golib \<Rightarrow> 'w Authenticator \<Rightarrow> ctx \<Rightarrow> string \<Rightarrow> 'w \<Rightarrow> Result \<times> 'w" where
  "Authenticate L a ctx localUser w =
     (case au_cfg a of None \<Rightarrow> (zero_result\<lparr>res_Code := Ignore, res_Reason := ReasonNotMapped\<rparr>, w)
      | Some cfg \<Rightarrow> (case LookupUser (au_cfg a) localUser of
          None \<Rightarrow> (zero_result\<lparr>res_Code := Ignore, res_Reason := ReasonNotMapped\<rparr>, w)
        | Some grp \<Rightarrow>
            (let res = zero_result\<lparr>res_Group := grp\<rparr>;
                 unavailable = (\<lambda>e w. (fail res AuthInfoUnavail ReasonProviderUnavailable
                    (wrapf ''start device authorization: '' e []), info a MsgProviderUnavailable w)) in
             case fl_StartDeviceAuth (au_flow a) ctx (c_DeviceName cfg) (au_deviceExtra a) w of
               (Inl e, w1) \<Rightarrow> unavailable e w1
             | (Inr None, w1) \<Rightarrow> unavailable (errors_New ''no device authorization response'') w1
             | (Inr (Some da), w1) \<Rightarrow> approve L a cfg ctx localUser res da w1)))"

section \<open>Every result\<close>

text \<open>The result of an attempt for a user whose group is \<open>g\<close>, by outcome.\<close>

definition result_ok :: "Config \<Rightarrow> string \<Rightarrow> Result \<Rightarrow> bool" where
  "result_ok cfg g r = (res_Group r = g \<and> (case res_Code r of
       Success \<Rightarrow> res_Reason r = [] \<and> res_Err r = None \<and> res_Username r \<noteq> []
         \<and> (\<exists>i. res_Env r = Some (session_env cfg i) \<and> id_Username i = res_Username r \<and> id_Subject i = res_Subject r)
     | AuthErr \<Rightarrow> res_Env r = None \<and> (case res_Err r of None \<Rightarrow> False | Some e \<Rightarrow>
         res_Reason r \<in> {ReasonDenied, ReasonExpired, ReasonTimeout, ReasonNoIDToken, ReasonInvalidToken,
            ReasonMissingGroup, ReasonEmptyUsername, ReasonNoConfirmation}
         \<and> (res_Reason r = ReasonDenied \<longrightarrow> Is e ErrAccessDenied) \<and> (res_Reason r = ReasonExpired \<longrightarrow> Is e ErrExpired)
         \<and> (res_Reason r = ReasonTimeout \<longrightarrow> Is e ErrTimeout)
         \<and> (res_Username r \<noteq> [] \<longrightarrow> res_Reason r = ReasonMissingGroup)
         \<and> (res_Subject r \<noteq> [] \<longrightarrow> res_Reason r \<in> {ReasonMissingGroup, ReasonEmptyUsername}))
     | AuthInfoUnavail \<Rightarrow> res_Env r = None \<and> res_Err r \<noteq> None \<and> res_Reason r = ReasonProviderUnavailable
         \<and> res_Username r = [] \<and> res_Subject r = []
     | _ \<Rightarrow> False))"

definition attempt :: "string \<Rightarrow> Result" where
  "attempt g = zero_result\<lparr>res_Group := g\<rparr>"

lemma decide_ok: "result_ok cfg g (fst (decide L a cfg u (attempt g) i w))"
  by (auto simp: decide_def result_ok_def attempt_def zero_result_def fail_def reason_defs Let_def)

lemma redeem_ok: "result_ok cfg g (fst (redeem L a cfg ctx u (attempt g) tok w))"
  using decide_ok [of cfg g L a u]
  by (auto simp: redeem_def split: sum.split prod.split)
    (auto simp: result_ok_def attempt_def zero_result_def fail_def reason_defs)

lemma waitFailure_ok: "result_ok cfg g (fst (waitFailure a (attempt g) e w))"
  by (auto simp: waitFailure_def result_ok_def attempt_def zero_result_def fail_def reason_defs)

lemma approve_ok: "result_ok cfg g (fst (approve L a cfg ctx u (attempt g) da w))"
  using redeem_ok [of cfg g L a] waitFailure_ok [of cfg g a]
  by (auto simp: approve_def split: sum.split prod.split)
    (auto simp: result_ok_def attempt_def zero_result_def fail_def reason_defs oidc_error_is)

text \<open>The reason of a missing PIN arises nowhere else.\<close>

lemma approve_confirmed:
  assumes "\<And>da v. \<exists>pin v'. askApproval a da v = (Inr pin, v')"
  shows "res_Reason (fst (approve L a cfg ctx u (attempt g) da w)) \<noteq> ReasonNoConfirmation"
proof -
  have d: "res_Reason (fst (decide L a cfg u (attempt g) i v)) \<noteq> ReasonNoConfirmation" for i v
    by (auto simp: decide_def attempt_def zero_result_def fail_def reason_defs Let_def)
  have r: "res_Reason (fst (redeem L a cfg ctx u (attempt g) tok v)) \<noteq> ReasonNoConfirmation" for tok v
    using d by (auto simp: redeem_def attempt_def zero_result_def fail_def split: sum.split prod.split) (auto simp: reason_defs)
  have f: "res_Reason (fst (waitFailure a (attempt g) e v)) \<noteq> ReasonNoConfirmation" for e v
    by (auto simp: waitFailure_def attempt_def zero_result_def fail_def reason_defs)
  obtain pin v where "askApproval a da w = (Inr pin, v)" using assms by blast
  with r f show ?thesis
    by (auto simp: approve_def attempt_def zero_result_def fail_def split: sum.split prod.split) (auto simp: reason_defs)
qed

lemma result_ok_reasons:
  "result_ok cfg g r \<Longrightarrow> res_Reason r \<noteq> ReasonNoConfirmation \<Longrightarrow> res_Reason r \<in>
     {[], ''provider_unavailable'', ''denied'', ''timeout'', ''expired'', ''no_id_token'', ''invalid_token'',
      ''missing_group'', ''empty_username''}"
  by (auto simp: result_ok_def reason_defs split: Code.splits option.splits)

definition not_mapped :: Result where
  "not_mapped = zero_result\<lparr>res_Code := Ignore, res_Reason := ReasonNotMapped\<rparr>"

definition unavailable :: "'w Authenticator \<Rightarrow> string \<Rightarrow> go_error \<Rightarrow> 'w \<Rightarrow> Result \<times> 'w" where
  "unavailable a g e w = (fail (attempt g) AuthInfoUnavail ReasonProviderUnavailable
     (wrapf ''start device authorization: '' e []), info a MsgProviderUnavailable w)"

lemma unavailable_ok: "result_ok cfg g (fst (unavailable a g e w))"
  by (simp add: unavailable_def result_ok_def fail_def attempt_def zero_result_def)

lemma Authenticate_cases:
  obtains "LookupUser (au_cfg a) u = None" "Authenticate L a ctx u w = (not_mapped, w)"
  | cfg g e w1 where "au_cfg a = Some cfg" "LookupUser (au_cfg a) u = Some g"
      "Authenticate L a ctx u w = unavailable a g e w1"
      "\<And>da v. fl_StartDeviceAuth (au_flow a) ctx (c_DeviceName cfg) (au_deviceExtra a) w \<noteq> (Inr (Some da), v)"
  | cfg g da w1 where "au_cfg a = Some cfg" "LookupUser (au_cfg a) u = Some g"
      "fl_StartDeviceAuth (au_flow a) ctx (c_DeviceName cfg) (au_deviceExtra a) w = (Inr (Some da), w1)"
      "Authenticate L a ctx u w = approve L a cfg ctx u (attempt g) da w1"
proof (cases "au_cfg a")
  case None
  then have "LookupUser (au_cfg a) u = None" by (simp add: LookupUser_def)
  then show ?thesis using that(1) None by (simp add: Authenticate_def not_mapped_def)
next
  case (Some cfg)
  show ?thesis
  proof (cases "LookupUser (au_cfg a) u")
    case None
    then show ?thesis using that(1) Some by (simp add: Authenticate_def not_mapped_def)
  next
    case g: (Some g)
    obtain x w1 where x: "fl_StartDeviceAuth (au_flow a) ctx (c_DeviceName cfg) (au_deviceExtra a) w = (x, w1)" by fastforce
    note eq = Authenticate_def Some option.case g [unfolded Some] Let_def x prod.case
    show ?thesis
    proof (cases x)
      case (Inl e)
      then show ?thesis using that(2) [OF Some g, of e w1] x unfolding eq unavailable_def attempt_def by simp
    next
      case (Inr d)
      then show ?thesis using that(2) [OF Some g, of "errors_New ''no device authorization response''" w1]
          that(3) [OF Some g, of _ w1] x unfolding eq unavailable_def attempt_def by (cases d) simp_all
    qed
  qed
qed

section \<open>What a success rests on\<close>

definition granted :: "Config \<Rightarrow> string \<Rightarrow> Identity \<Rightarrow> Result" where
  "granted cfg g i = \<lparr>res_Code = Success, res_Reason = [], res_Username = id_Username i, res_Subject = id_Subject i,
     res_Group = g, res_Env = Some (session_env cfg i), res_Err = None\<rparr>"

lemma fail_not_success: "c \<noteq> Success \<Longrightarrow> res_Code (fail r c s e) \<noteq> Success"
  by (simp add: fail_def)

lemma decide_success:
  "decide L a cfg u (attempt g) i w = (r, w') \<and> res_Code r = Success \<longleftrightarrow>
    id_Username i \<noteq> [] \<and> g \<in> set (id_Groups i) \<and> r = granted cfg g i \<and> w' = w"
  by (auto simp: decide_def Let_def attempt_def zero_result_def granted_def fail_def)

lemma redeem_success:
  "redeem L a cfg ctx u (attempt g) tok w = (r, w') \<and> res_Code r = Success \<longleftrightarrow>
    (\<exists>raw i. IDTokenFrom tok = Inr raw
      \<and> fl_VerifyIDToken (au_flow a) ctx raw (c_UsernameClaim cfg) (c_GroupsClaim cfg) (c_ClockSkew cfg) w = (Inr i, w')
      \<and> id_Username i \<noteq> [] \<and> g \<in> set (id_Groups i) \<and> r = granted cfg g i)"
proof (cases "IDTokenFrom tok")
  case (Inr raw)
  obtain x v where x: "fl_VerifyIDToken (au_flow a) ctx raw (c_UsernameClaim cfg) (c_GroupsClaim cfg) (c_ClockSkew cfg) w = (x, v)"
    by fastforce
  show ?thesis
    using decide_success [of L a cfg u g _ v r w']
    by (cases x) (auto simp: redeem_def Inr x fail_def)
qed (auto simp: redeem_def fail_def)

lemma approve_success:
  "approve L a cfg ctx u (attempt g) da w = (r, w') \<and> res_Code r = Success \<longleftrightarrow>
    \<not> expired a da w \<and> (\<exists>pin w1 tok w2. askApproval a da w = (Inr pin, w1)
      \<and> waitForToken a cfg ctx da pin w1 = (Inr tok, w2)
      \<and> redeem L a cfg ctx u (attempt g) tok w2 = (r, w') \<and> res_Code r = Success)"
proof (cases "askApproval a da w")
  case (Pair x v)
  show ?thesis
  proof (cases x)
    case (Inr pin)
    obtain y v' where y: "waitForToken a cfg ctx da pin v = (y, v')" by fastforce
    have "waitFailure a (attempt g) e v' = (r, w') \<Longrightarrow> res_Code r \<noteq> Success" for e
      by (auto simp: waitFailure_def fail_def split: if_splits)
    then show ?thesis by (cases y) (auto simp: approve_def Pair Inr y fail_def)
  qed (auto simp: approve_def Pair fail_def)
qed

lemma askApproval_pin:
  assumes "askApproval a da w = (Inr pin, w')"
  shows "if au_confirm a then pin \<noteq> [] \<and> (\<exists>p typed v. au_prompt a = Some p \<and> pin = TrimSpace typed
      \<and> pr_Ask p (msgPinPromptFmt (da_UserCode da)) v = (Inr typed, w')) else pin = []"
  using assms by (fastforce simp: askApproval_def Let_def split: if_splits option.splits sum.splits prod.splits)

section \<open>The conversation\<close>

text \<open>Two prompters that do the same to the world, whatever errors they report, and answer alike
  when they are asked for a PIN.\<close>

definition same_effect :: "bool \<Rightarrow> 'w Prompter \<Rightarrow> 'w Prompter \<Rightarrow> bool" where
  "same_effect pin p q \<longleftrightarrow> (\<forall>m w. snd (pr_Info p m w) = snd (pr_Info q m w)) \<and> (\<forall>m w. snd (pr_Prompt p m w) = snd (pr_Prompt q m w))
     \<and> (pin \<longrightarrow> pr_Ask p = pr_Ask q)"

lemma info_same: "same_effect b p q \<Longrightarrow> info (a\<lparr>au_prompt := Some p\<rparr>) = info (a\<lparr>au_prompt := Some q\<rparr>)"
  by (intro ext) (simp add: info_def same_effect_def)

lemma askApproval_same:
  "same_effect (au_confirm a) p q \<Longrightarrow> askApproval (a\<lparr>au_prompt := Some p\<rparr>) da w = askApproval (a\<lparr>au_prompt := Some q\<rparr>) da w"
  by (cases "au_confirm a") (simp_all add: askApproval_def Let_def info_same [of "au_confirm a" p q], simp_all add: same_effect_def)

lemma waitFailure_same:
  "same_effect (au_confirm a) p q \<Longrightarrow> waitFailure (a\<lparr>au_prompt := Some p\<rparr>) = waitFailure (a\<lparr>au_prompt := Some q\<rparr>)"
  by (intro ext) (simp add: waitFailure_def info_same [of "au_confirm a" p q])

lemma decide_same:
  "same_effect (au_confirm a) p q \<Longrightarrow> decide L (a\<lparr>au_prompt := Some p\<rparr>) = decide L (a\<lparr>au_prompt := Some q\<rparr>)"
  by (intro ext) (simp add: decide_def Let_def info_same [of "au_confirm a" p q] cong: option.case_cong sum.case_cong prod.case_cong if_cong)

lemma redeem_same:
  "same_effect (au_confirm a) p q \<Longrightarrow> redeem L (a\<lparr>au_prompt := Some p\<rparr>) = redeem L (a\<lparr>au_prompt := Some q\<rparr>)"
  by (intro ext) (simp add: redeem_def decide_same [of a p q] cong: option.case_cong sum.case_cong prod.case_cong if_cong)

lemma waitForToken_same: "waitForToken (a\<lparr>au_prompt := p\<rparr>) = waitForToken a"
  by (intro ext) (simp add: waitForToken_def with_timeout_def wait_time_def cong: option.case_cong sum.case_cong prod.case_cong if_cong)

lemma approve_same:
  "same_effect (au_confirm a) p q \<Longrightarrow> approve L (a\<lparr>au_prompt := Some p\<rparr>) = approve L (a\<lparr>au_prompt := Some q\<rparr>)"
  by (intro ext) (simp add: approve_def expired_def info_same [of "au_confirm a" p q] askApproval_same [of a p q]
      waitFailure_same [of a p q] redeem_same [of a p q] waitForToken_same
      cong: option.case_cong sum.case_cong prod.case_cong if_cong)

section \<open>The identity a flow vouches for\<close>

text \<open>What the decision relies on: a verified identity has a subject, and its name and groups are those
  of the claims the caller named.\<close>

locale identity_source =
  fixes verify :: "ctx \<Rightarrow> string \<Rightarrow> string \<Rightarrow> string \<Rightarrow> duration \<Rightarrow> 'w \<Rightarrow> (go_error + Identity) \<times> 'w"
  assumes subject: "verify ctx raw uc gc skew w = (Inr i, w') \<Longrightarrow> id_Subject i \<noteq> []"
    and username: "verify ctx raw uc gc skew w = (Inr i, w') \<Longrightarrow> id_Username i \<noteq> [] \<Longrightarrow>
      map_of (id_Claims i) uc = Some (JString (id_Username i))"
    and groups: "verify ctx raw uc gc skew w = (Inr i, w') \<Longrightarrow> g \<in> set (id_Groups i) \<Longrightarrow>
      \<exists>items. map_of (id_Claims i) gc = Some (JArray items) \<and> JString g \<in> set items"
begin

definition asserts :: "Config \<Rightarrow> string \<Rightarrow> Identity \<Rightarrow> bool" where
  "asserts cfg g i \<longleftrightarrow> id_Subject i \<noteq> [] \<and> map_of (id_Claims i) (c_UsernameClaim cfg) = Some (JString (id_Username i))
     \<and> (\<exists>items. map_of (id_Claims i) (c_GroupsClaim cfg) = Some (JArray items) \<and> JString g \<in> set items)"

lemma redeem_asserts:
  assumes "fl_VerifyIDToken (au_flow a) = verify"
    and "redeem L a cfg ctx u (attempt g) tok w = (r, w')" "res_Code r = Success"
  shows "\<exists>raw i. IDTokenFrom tok = Inr raw
      \<and> verify ctx raw (c_UsernameClaim cfg) (c_GroupsClaim cfg) (c_ClockSkew cfg) w = (Inr i, w')
      \<and> r = granted cfg g i \<and> asserts cfg g i"
proof -
  obtain raw i where i: "IDTokenFrom tok = Inr raw"
      "verify ctx raw (c_UsernameClaim cfg) (c_GroupsClaim cfg) (c_ClockSkew cfg) w = (Inr i, w')"
      "id_Username i \<noteq> []" "g \<in> set (id_Groups i)" "r = granted cfg g i"
    using redeem_success [of L a cfg ctx u g tok w r w'] assms by auto
  then show ?thesis
    using subject [OF i(2)] username [OF i(2) i(3)] groups [OF i(2) i(4)] by (auto simp: asserts_def)
qed

lemma login_asserts:
  assumes "fl_VerifyIDToken (au_flow a) = verify"
    and "Authenticate L a ctx u w = (r, w')" "res_Code r = Success"
  shows "\<exists>cfg g raw i v. au_cfg a = Some cfg \<and> map_of (c_Users cfg) u = Some g
      \<and> verify ctx raw (c_UsernameClaim cfg) (c_GroupsClaim cfg) (c_ClockSkew cfg) v = (Inr i, w')
      \<and> r = granted cfg g i \<and> asserts cfg g i"
proof (cases rule: Authenticate_cases [of a u L ctx w])
  case 1
  then show ?thesis using assms by (simp add: not_mapped_def)
next
  case (2 cfg g e w1)
  then show ?thesis using assms by (auto simp: unavailable_def fail_def)
next
  case (3 cfg g da w1)
  from 3(4) assms(2,3) have "approve L a cfg ctx u (attempt g) da w1 = (r, w') \<and> res_Code r = Success" by simp
  then obtain tok v where "redeem L a cfg ctx u (attempt g) tok v = (r, w')"
    unfolding approve_success by blast
  from redeem_asserts [OF assms(1) this assms(3)] 3(1,2) show ?thesis by (auto simp: LookupUser_def)
qed

end

text \<open>The client of package oidc as a flow.\<close>

definition oidc_flow :: "golib \<Rightarrow> ('h, 'p, 'w) oidc_env \<Rightarrow> ('h, 'p) Client \<Rightarrow> 'w Flow" where
  "oidc_flow L X c = \<lparr>fl_StartDeviceAuth = StartDeviceAuth L X c, fl_WaitForToken = WaitForToken L X c,
     fl_VerifyIDToken = VerifyIDToken L X c\<rparr>"

interpretation oidc: identity_source "VerifyIDToken L X c" for L X c
proof
  fix ctx raw uc gc skew w i w' g
  assume "VerifyIDToken L X c ctx raw uc gc skew w = (Inr i, w')"
  note v = VerifyIDToken_Inr [OF this]
  show "id_Subject i \<noteq> []" by (rule v) simp
  show "map_of (id_Claims i) uc = Some (JString (id_Username i))" if "id_Username i \<noteq> []"
    by (rule v) (rule stringClaim_nonempty [OF _ that])
  show "\<exists>items. map_of (id_Claims i) gc = Some (JArray items) \<and> JString g \<in> set items" if "g \<in> set (id_Groups i)"
    by (rule v) (rule stringSliceClaim_mem [OF _ that])
qed

section \<open>The deadline of a login\<close>

lemma wait_deadline:
  assumes "\<not> expired a da w" "0 < c_Timeout cfg"
  shows "au_wall a w < au_wall a w + wait_time a cfg da w"
    and "wait_time a cfg da w \<le> c_Timeout cfg"
    and "da_Expiry da = Some t \<Longrightarrow> au_now a w + wait_time a cfg da w \<le> t"
  using assms by (auto simp: wait_time_def expired_def time_Sub_def Let_def split: option.splits)

section \<open>A concrete login\<close>

definition sample_config :: Config where
  "sample_config = \<lparr>c_Issuer = ''https://i'', c_ClientID = ''cid'', c_Scope = ''openid'', c_DeviceName = ''web'',
     c_UsernameClaim = ''email'', c_GroupsClaim = ''groups'', c_SessionEnv = ''OIDC_USER'', c_Timeout = 180,
     c_ClockSkew = 2, c_HTTPTimeout = 10, c_AllowInsecureHTTP = False, c_Users = [(''deploy'', ''ops'')], c_APIBase = [],
     c_HostID = [], c_IdentityKey = ''/k'', c_CacheDir = ''/c'', c_CacheTTL = 0\<rparr>"

definition sample_token :: "id_token" where
  "sample_token = \<lparr>it_IssuedAt = None, it_Subject = ''s1'',
     it_claims = Inr [(''email'', JString ''bob''), (''groups'', JArray [JString ''dev'', JString ''ops''])]\<rparr>"

definition sample_env :: "(unit, unit, nat) oidc_env" where
  "sample_env = scripted (Inr (Some sample_device))
     (Inr (Some \<lparr>tk_AccessToken = [], tk_Extra = (\<lambda>k. if k = ''id_token'' then JString ''jwt'' else JNull)\<rparr>)) (Inr sample_token)"

definition sample_auth :: "nat Authenticator" where
  "sample_auth = Auth.New (Some sample_config) (oidc_flow plain_lib sample_env sample_client) None int"

lemma sample_login:
  "Authenticate plain_lib (sample_auth\<lparr>au_flow := oidc_flow plain_lib sample_env sample_client\<rparr>) None ''deploy'' 0 =
    (\<lparr>res_Code = Success, res_Reason = [], res_Username = ''bob'', res_Subject = ''s1'', res_Group = ''ops'',
      res_Env = Some [(''OIDC_USER'', ''bob''), (''OIDC_SUB'', ''s1'')], res_Err = None\<rparr>, 3)"
  by (simp add: sample_auth_def Auth.New_def Authenticate_def LookupUser_def sample_config_def oidc_flow_def StartDeviceAuth_def
      sorted_keys_def sample_env_def scripted_def approve_def expired_def sample_device_def askApproval_def info_def
      waitForToken_def with_timeout_def wait_time_def WaitForToken_def redeem_def IDTokenFrom_def VerifyIDToken_def
      sample_token_def issued_in_future_def stringClaim_def stringSliceClaim_def decide_def zero_result_def
      session_env_def EnvSubject_def Let_def)

section \<open>Properties\<close>

text \<open>C5: every attempt ends in one of the documented outcomes. A user who is not in the configuration
  is ignored before anything is sent. For a mapped one, as long as the conversation yields a PIN
  wherever the PIN flow asks for one, the result names the group and is one of three: a success,
  with the session variables of a named identity and no error; a denial, with one of the seven
  documented reasons and an error of the kind the reason states; or an unreachable provider, which
  leaves the decision open. (Without the PIN flow the conversation is never asked for one.)\<close>

theorem login_outcomes:
  assumes "\<And>da v. \<exists>pin v'. askApproval a da v = (Inr pin, v')"
  shows "case LookupUser (au_cfg a) u of
     None \<Rightarrow> Authenticate L a ctx u w = (\<lparr>res_Code = Ignore, res_Reason = ''not_mapped'', res_Username = [],
         res_Subject = [], res_Group = [], res_Env = None, res_Err = None\<rparr>, w)
   | Some g \<Rightarrow> (case au_cfg a of None \<Rightarrow> False
       | Some cfg \<Rightarrow> result_ok cfg g (fst (Authenticate L a ctx u w)) \<and> res_Reason (fst (Authenticate L a ctx u w)) \<in>
           {[], ''provider_unavailable'', ''denied'', ''timeout'', ''expired'', ''no_id_token'', ''invalid_token'',
            ''missing_group'', ''empty_username''})"
proof (cases rule: Authenticate_cases [of a u L ctx w])
  case 1
  then show ?thesis by (simp add: not_mapped_def zero_result_def ReasonNotMapped_def)
next
  case (2 cfg g e w1)
  then show ?thesis using unavailable_ok by (simp add: unavailable_def fail_def reason_defs)
next
  case (3 cfg g da w1)
  note ok = approve_ok [of cfg g L a ctx u da w1]
  from result_ok_reasons [OF ok approve_confirmed [OF assms]] 3 ok show ?thesis by simp
qed

theorem login_outcomes_witness:
  "result_ok sample_config ''ops'' (fst (Authenticate plain_lib sample_auth None ''deploy'' 0))
   \<and> res_Reason (fst (Authenticate plain_lib sample_auth None ''deploy'' 0)) \<noteq> ''no_confirmation''"
proof -
  have "\<exists>pin v'. askApproval sample_auth da v = (Inr pin, v')" for da v
    by (simp add: askApproval_def sample_auth_def Auth.New_def Let_def split: option.split)
  from login_outcomes [OF this, where u = "''deploy''" and L = plain_lib and ctx = None and w = 0] show ?thesis
    by (simp add: LookupUser_def sample_auth_def Auth.New_def sample_config_def) auto
qed

text \<open>C1: when a login succeeds, and only then, every step of the device flow succeeded in order: the
  user is mapped to a group, the provider gave a device code that had not expired, the
  conversation produced what the mode needs (a PIN that is not blank in the PIN flow, nothing
  otherwise), the token response carried an ID token, it verified with the configured claims and
  skew, and the identity it names is a member of exactly that group.\<close>

theorem login_success_iff:
  "(\<exists>r. Authenticate L a ctx u w = (r, w') \<and> res_Code r = Success \<and> res_Group r = g \<and> res_Env r = Some env) \<longleftrightarrow>
    (\<exists>cfg da w1 pin w2 tok w3 raw i. au_cfg a = Some cfg \<and> map_of (c_Users cfg) u = Some g
      \<and> fl_StartDeviceAuth (au_flow a) ctx (c_DeviceName cfg) (au_deviceExtra a) w = (Inr (Some da), w1)
      \<and> (case da_Expiry da of None \<Rightarrow> True | Some t \<Rightarrow> au_now a w1 < t)
      \<and> askApproval a da w1 = (Inr pin, w2) \<and> (pin \<noteq> []) = au_confirm a
      \<and> waitForToken a cfg ctx da pin w2 = (Inr tok, w3) \<and> IDTokenFrom tok = Inr raw
      \<and> fl_VerifyIDToken (au_flow a) ctx raw (c_UsernameClaim cfg) (c_GroupsClaim cfg) (c_ClockSkew cfg) w3 = (Inr i, w')
      \<and> id_Username i \<noteq> [] \<and> g \<in> set (id_Groups i) \<and> env = session_env cfg i)" (is "?l = ?r")
proof (cases rule: Authenticate_cases [of a u L ctx w])
  case 1
  then show ?thesis by (auto simp: not_mapped_def LookupUser_def)
next
  case (2 cfg h e w1)
  then show ?thesis by (auto simp: unavailable_def fail_def LookupUser_def)
next
  case (3 cfg h da w1)
  have "?l \<longleftrightarrow> (\<exists>r. (approve L a cfg ctx u (attempt h) da w1 = (r, w') \<and> res_Code r = Success)
      \<and> res_Group r = g \<and> res_Env r = Some env)"
    using 3(4) by auto
  also have "\<dots> \<longleftrightarrow> (\<exists>r pin w2 tok w3 raw i. \<not> expired a da w1 \<and> askApproval a da w1 = (Inr pin, w2)
      \<and> waitForToken a cfg ctx da pin w2 = (Inr tok, w3) \<and> IDTokenFrom tok = Inr raw
      \<and> fl_VerifyIDToken (au_flow a) ctx raw (c_UsernameClaim cfg) (c_GroupsClaim cfg) (c_ClockSkew cfg) w3 = (Inr i, w')
      \<and> id_Username i \<noteq> [] \<and> h \<in> set (id_Groups i) \<and> r = granted cfg h i \<and> res_Group r = g \<and> res_Env r = Some env)"
    unfolding approve_success redeem_success by blast
  also have "\<dots> \<longleftrightarrow> ?r"
  proof -
    have "\<not> expired a da w1 \<longleftrightarrow> (case da_Expiry da of None \<Rightarrow> True | Some t \<Rightarrow> au_now a w1 < t)"
      by (simp add: expired_def split: option.split)
    moreover have "askApproval a da w1 = (Inr pin, w2) \<Longrightarrow> (pin \<noteq> []) = au_confirm a" for pin w2
      using askApproval_pin [of a da w1 pin w2] by (auto split: if_splits)
    ultimately show ?thesis using 3(1-3) by (auto simp: granted_def LookupUser_def)
  qed
  finally show ?thesis .
qed

text \<open>C6: driven by the OIDC client, a login is granted only on the word of the provider about this
  user: the verifier accepted the token for this client id with RS256 or ES256, the name that is
  exported is the configured string claim of that token, the configured array claim contains the
  group of the user table, and the exported subject is not empty.\<close>

theorem login_rests_on_token:
  assumes "Authenticate L (a\<lparr>au_flow := oidc_flow L X c\<rparr>) ctx u w = (r, w')" "res_Code r = Success"
  shows "\<exists>cfg g raw i v. au_cfg a = Some cfg \<and> map_of (c_Users cfg) u = Some g
    \<and> VerifyIDToken L X c ctx raw (c_UsernameClaim cfg) (c_GroupsClaim cfg) (c_ClockSkew cfg) v = (Inr i, w')
    \<and> res_Env r = Some (session_env cfg i) \<and> res_Subject r = id_Subject i \<and> res_Subject r \<noteq> []
    \<and> map_of (id_Claims i) (c_UsernameClaim cfg) = Some (JString (res_Username r))
    \<and> (\<exists>items. map_of (id_Claims i) (c_GroupsClaim cfg) = Some (JArray items) \<and> JString g \<in> set items)"
  using oidc.login_asserts [OF _ assms] unfolding oidc.asserts_def by (fastforce simp: oidc_flow_def granted_def)

theorem login_rests_on_token_witness:
  "res_Code (fst (Authenticate plain_lib (sample_auth\<lparr>au_flow := oidc_flow plain_lib sample_env sample_client\<rparr>)
     None ''deploy'' 0)) = Success
   \<and> (\<exists>i raw v. VerifyIDToken plain_lib sample_env sample_client None raw ''email'' ''groups'' 2 v = (Inr i, 3)
        \<and> id_Subject i = ''s1'')"
proof -
  obtain cfg raw i v where i: "au_cfg sample_auth = Some cfg"
    "VerifyIDToken plain_lib sample_env sample_client None raw (c_UsernameClaim cfg) (c_GroupsClaim cfg) (c_ClockSkew cfg) v
      = (Inr i, 3)" "''s1'' = id_Subject i"
    using login_rests_on_token [OF sample_login] by fastforce
  then have "cfg = sample_config" by (simp add: sample_auth_def Auth.New_def)
  with i sample_login show ?thesis by (auto simp: sample_config_def)
qed

text \<open>A broken conversation changes nothing but the PIN flow. Two prompters that have the same effect
  on the world, whatever errors they report, lead to the same result; in the PIN flow this takes
  the same answer to the question for the PIN.\<close>

theorem conversation_errors_ignored:
  assumes "same_effect (au_confirm a) p q"
  shows "Authenticate L (a\<lparr>au_prompt := Some p\<rparr>) ctx u w = Authenticate L (a\<lparr>au_prompt := Some q\<rparr>) ctx u w"
  by (simp add: Authenticate_def info_same [OF assms] approve_same [OF assms]
      cong: option.case_cong sum.case_cong prod.case_cong)

theorem conversation_errors_ignored_witness:
  "(let quiet = \<lparr>pr_Info = (\<lambda>m n. (None, n + 1)), pr_Prompt = (\<lambda>m n. (None, n)), pr_Ask = (\<lambda>m n. (Inr [], n))\<rparr>;
        broken = \<lparr>pr_Info = (\<lambda>m n. (Some (errors_New ''closed''), n + 1)), pr_Prompt = (\<lambda>m n. (Some (errors_New ''closed''), n)),
          pr_Ask = (\<lambda>m n. (Inl (errors_New ''closed''), n))\<rparr>
    in Authenticate plain_lib (sample_auth\<lparr>au_prompt := Some quiet\<rparr>) None ''deploy'' 0
       = Authenticate plain_lib (sample_auth\<lparr>au_prompt := Some broken\<rparr>) None ''deploy'' 0)"
  unfolding Let_def
  by (rule conversation_errors_ignored) (simp add: same_effect_def sample_auth_def Auth.New_def)

text \<open>C7: the one token request of a login is bounded on every side. Whatever the provider says, it is
  made with a polling interval between one and sixty seconds and with a deadline no later than
  the configured timeout from now, than the deadline of the caller, and than the end of the
  lifetime of the device code (as far as the difference of the two times can be represented).\<close>

theorem token_request_bounded:
  "\<exists>d iv. 1 \<le> iv \<and> iv \<le> 60 \<and> d \<le> au_wall a w + c_Timeout cfg
    \<and> (case ctx of None \<Rightarrow> True | Some p \<Rightarrow> d \<le> p)
    \<and> (case da_Expiry da of None \<Rightarrow> True | Some t \<Rightarrow> d \<le> au_wall a w + max (- (2 ^ 63)) (t - au_now a w))
    \<and> waitForToken (a\<lparr>au_flow := oidc_flow L X c\<rparr>) cfg ctx da pin w =
      (case ox_token X (oc_httpClient c) (oc_oauth c) (Some d) (da\<lparr>da_Interval := iv\<rparr>)
          (if pin = [] then [] else [(''user_confirmation'', pin)]) w of
         (Inr tok, v) \<Rightarrow> (Inr tok, v) | (Inl e, v) \<Rightarrow> (Inl (token_error L e), v))"
proof -
  let ?b = "a\<lparr>au_flow := oidc_flow L X c\<rparr>"
  have flow: "fl_WaitForToken (au_flow ?b) = WaitForToken L X c" by (simp add: oidc_flow_def)
  obtain d where d: "with_timeout ?b ctx (wait_time ?b cfg da w) w = Some d"
    "d \<le> au_wall a w + wait_time a cfg da w" "case ctx of None \<Rightarrow> True | Some p \<Rightarrow> d \<le> p"
    by (cases ctx) (simp_all add: with_timeout_def wait_time_def Let_def cong: option.case_cong)
  have "wait_time a cfg da w \<le> c_Timeout cfg"
      "case da_Expiry da of None \<Rightarrow> True | Some t \<Rightarrow> wait_time a cfg da w \<le> max (- (2 ^ 63)) (t - au_now a w)"
    by (auto simp: wait_time_def time_Sub_def Let_def split: option.split)
  then have "d \<le> au_wall a w + c_Timeout cfg"
    "case da_Expiry da of None \<Rightarrow> True | Some t \<Rightarrow> d \<le> au_wall a w + max (- (2 ^ 63)) (t - au_now a w)"
    using d(2) by (simp, cases "da_Expiry da") simp_all
  moreover have "waitForToken ?b cfg ctx da pin w = (case ox_token X (oc_httpClient c) (oc_oauth c) (Some d)
      (da\<lparr>da_Interval := clampInterval (da_Interval da)\<rparr>) (if pin = [] then [] else [(''user_confirmation'', pin)]) w of
         (Inr tok, v) \<Rightarrow> (Inr tok, v) | (Inl e, v) \<Rightarrow> (Inl (token_error L e), v))"
    using flow by (cases "pin = []") (simp_all add: waitForToken_def d(1) WaitForToken_def)
  ultimately show ?thesis using d(3) clampInterval_spec [of "da_Interval da"] by blast
qed

end
