(* ===== verification/Hostid.thy ===== *)
theory Hostid
  imports Fs GoTime
begin

text \<open>
  Package hostid (\<^verbatim>\<open>src/internal/hostid/hostid.go\<close>): the key pair of a host on disk and the
  assertions signed with it. The cryptography, the PEM and OpenSSH formats and the JSON encoder
  are the functions of record \<open>key_lib\<close>; a key is its bytes. The random source is an argument of
  the operations that use it. The lemmas show that generating a key never touches an existing
  file, that what it writes loads again, and what an assertion says.
\<close>

section \<open>Libraries\<close>

record pem_block =
  pem_Type :: string
  pem_Bytes :: string

datatype parsed_key = EdKey string | EdKeyPtr string | OtherKey string

record assertionClaims =
  ac_Issuer :: string
  ac_Subject :: string
  ac_Audience :: string
  ac_IssuedAt :: int
  ac_Expiry :: int
  ac_ID :: string

text \<open>
  \<open>kl_outer\<close> reads the cipher name and the private section of an OpenSSH key file, \<open>kl_inner\<close> the
  comment of that section; \<open>kl_line\<close> is the line MarshalAuthorizedKey makes of a public key and
  \<open>kl_sign\<close> the compact serialisation, with type JWT and algorithm EdDSA, of a signed payload.
\<close>

record key_lib =
  kl_marshal :: "string \<Rightarrow> string \<Rightarrow> go_error + pem_block"
  kl_pem_encode :: "pem_block \<Rightarrow> string"
  kl_pem_decode :: "string \<Rightarrow> pem_block option"
  kl_parse :: "string \<Rightarrow> go_error + parsed_key"
  kl_public :: "string \<Rightarrow> string"
  kl_outer :: "string \<Rightarrow> (string \<times> string) option"
  kl_inner :: "string \<Rightarrow> string option"
  kl_line :: "string \<Rightarrow> go_error + string"
  kl_fingerprint :: "string \<Rightarrow> string"
  kl_json :: "assertionClaims \<Rightarrow> go_error + string"
  kl_signer :: "string \<Rightarrow> go_error option"
  kl_sign :: "string \<Rightarrow> string \<Rightarrow> go_error + string"
  kl_serialize :: "string \<Rightarrow> go_error + string"

section \<open>The package\<close>

definition AssertionLifetime :: duration where "AssertionLifetime = 60 * 1000000000"
definition keyFileMode :: nat where "keyFileMode = 416"
definition PrivateKeySize :: nat where "PrivateKeySize = 64"

definition hostid_error :: "sentinel \<Rightarrow> go_error" where
  "hostid_error s = sentinel_error s
     (if s = ErrExists then ''hostid: key file already exists'' else ''hostid: key is not ed25519'')"

record HostIdentity =
  hi_Private :: string
  hi_Public :: string
  hi_PublicKeyLine :: string
  hi_Fingerprint :: string

definition newIdentity :: "key_lib \<Rightarrow> string \<Rightarrow> string \<Rightarrow> string \<Rightarrow> go_error + HostIdentity" where
  "newIdentity K priv pub comment =
     (case kl_line K pub of
        Inl e \<Rightarrow> Inl (wrapf ''hostid: build ssh public key: '' e [])
      | Inr marshalled \<Rightarrow>
          (let line = TrimRightBytes marshalled [NL] in
           Inr \<lparr>hi_Private = priv, hi_Public = pub,
                hi_PublicKeyLine = (if comment \<noteq> [] then line @ '' '' @ comment else line),
                hi_Fingerprint = kl_fingerprint K pub\<rparr>))"

text \<open>The file is always synced and closed; the first error in the order write, sync, close is reported.\<close>

definition writeKeyFile :: "ofile \<Rightarrow> string \<Rightarrow> os \<Rightarrow> go_error option \<times> os" where
  "writeKeyFile f data w =
     (let ((writeErr, f'), w1) = f_Write f data w;
          (syncErr, w2) = f_Sync f' w1;
          (closeErr, w3) = f_Close f' w2
      in (case writeErr of Some e \<Rightarrow> Some (wrapf ''hostid: write key file: '' e [])
          | None \<Rightarrow> (case syncErr of Some e \<Rightarrow> Some (wrapf ''hostid: sync key file: '' e [])
          | None \<Rightarrow> (case closeErr of Some e \<Rightarrow> Some (wrapf ''hostid: close key file: '' e [])
          | None \<Rightarrow> None)), w3))"

definition Generate :: "key_lib \<Rightarrow> go_error + (string \<times> string) \<Rightarrow> string \<Rightarrow> string \<Rightarrow> os \<Rightarrow> (go_error + HostIdentity) \<times> os" where
  "Generate K generated p comment w =
     (case generated of Inl e \<Rightarrow> (Inl (wrapf ''hostid: generate key: '' e []), w)
      | Inr (pub, priv) \<Rightarrow> (case kl_marshal K priv comment of
        Inl e \<Rightarrow> (Inl (wrapf ''hostid: marshal private key: '' e []), w)
      | Inr block \<Rightarrow> (case os_OpenExcl p keyFileMode w of
        (Inl e, w1) \<Rightarrow> (Inl (if Is e OsErrExist then wrapf [] (hostid_error ErrExists) ('': '' @ p)
                          else wrapf ''hostid: create key file: '' e []), w1)
      | (Inr f, w1) \<Rightarrow> (case f_Chmod f keyFileMode w1 of
        (Some e, w2) \<Rightarrow> (Inl (wrapf ''hostid: chmod key file: '' e []), snd (os_Remove p (snd (f_Close f w2))))
      | (None, w2) \<Rightarrow> (case writeKeyFile f (kl_pem_encode K block) w2 of
        (Some e, w3) \<Rightarrow> (Inl e, snd (os_Remove p w3))
      | (None, w3) \<Rightarrow> (newIdentity K priv pub comment, w3))))))"

definition key_magic :: string where
  "key_magic = ''openssh-key-v1'' @ [CHR 0x00]"

definition keyComment :: "key_lib \<Rightarrow> string \<Rightarrow> string" where
  "keyComment K raw =
     (case kl_pem_decode K raw of None \<Rightarrow> []
      | Some block \<Rightarrow>
          if pem_Type block \<noteq> ''OPENSSH PRIVATE KEY'' then []
          else if \<not> HasPrefix (pem_Bytes block) key_magic then []
          else (case kl_outer K (drop (length key_magic) (pem_Bytes block)) of None \<Rightarrow> []
            | Some (cipher, private) \<Rightarrow>
                if cipher \<noteq> ''none'' then []
                else (case kl_inner K private of None \<Rightarrow> [] | Some comment \<Rightarrow> comment)))"

definition load_ed25519 :: "key_lib \<Rightarrow> string \<Rightarrow> string \<Rightarrow> string \<Rightarrow> go_error + HostIdentity" where
  "load_ed25519 K p raw priv =
     (if length priv \<noteq> PrivateKeySize then
        Inl (wrapf [] (hostid_error ErrKeyType) ('': '' @ p @ '' has '' @ dec (length priv) @ ''-byte key''))
      else newIdentity K priv (kl_public K priv) (keyComment K raw))"

definition Load :: "key_lib \<Rightarrow> string \<Rightarrow> os \<Rightarrow> (go_error + HostIdentity) \<times> os" where
  "Load K p w =
     (case os_ReadFile p w of
        (Inl e, w') \<Rightarrow> (Inl (wrapf ''hostid: read key file: '' e []), w')
      | (Inr raw, w') \<Rightarrow>
          ((case kl_parse K raw of
              Inl e \<Rightarrow> Inl (wrapf (''hostid: parse key file '' @ p @ '': '') e [])
            | Inr (EdKey priv) \<Rightarrow> load_ed25519 K p raw priv
            | Inr (EdKeyPtr priv) \<Rightarrow> load_ed25519 K p raw priv
            | Inr (OtherKey ty) \<Rightarrow> Inl (wrapf [] (hostid_error ErrKeyType) ('': '' @ p @ '' holds '' @ ty))), w'))"

subsection \<open>base64.RawURLEncoding\<close>

definition b64_char :: "nat \<Rightarrow> char" where
  "b64_char n = char_of (if n < 26 then 65 + n else if n < 52 then 97 + (n - 26) else if n < 62 then 48 + (n - 52)
     else if n = 62 then 45 else 95 :: nat)"

fun RawURLEncoding :: "nat list \<Rightarrow> string" where
  "RawURLEncoding [] = []"
| "RawURLEncoding [a] = [b64_char (a div 4), b64_char (a mod 4 * 16)]"
| "RawURLEncoding [a, b] = [b64_char (a div 4), b64_char (a mod 4 * 16 + b div 16), b64_char (b mod 16 * 4)]"
| "RawURLEncoding (a # b # c # rest) =
     [b64_char (a div 4), b64_char (a mod 4 * 16 + b div 16), b64_char (b mod 16 * 4 + c div 64), b64_char (c mod 64)]
     @ RawURLEncoding rest"

subsection \<open>Assertions\<close>

definition Unix :: "time \<Rightarrow> int" where
  "Unix t = t div 1000000000"

definition assertion_claims :: "string \<Rightarrow> string \<Rightarrow> time \<Rightarrow> nat list \<Rightarrow> assertionClaims" where
  "assertion_claims hostID audience now nonce =
     (let issued = Unix now in
      \<lparr>ac_Issuer = hostID, ac_Subject = hostID, ac_Audience = audience, ac_IssuedAt = issued,
       ac_Expiry = issued + AssertionLifetime div 1000000000, ac_ID = RawURLEncoding nonce\<rparr>)"

definition Assertion :: "key_lib \<Rightarrow> HostIdentity \<Rightarrow> string \<Rightarrow> string \<Rightarrow> time \<Rightarrow> go_error + nat list \<Rightarrow> go_error + string" where
  "Assertion K i hostID audience now random =
     (if hostID = [] then Inl (errors_New ''hostid: assertion needs a host id'')
      else if audience = [] then Inl (errors_New ''hostid: assertion needs an audience'')
      else (case random of Inl e \<Rightarrow> Inl (wrapf ''hostid: generate jti: '' e [])
      | Inr nonce \<Rightarrow> (case kl_json K (assertion_claims hostID audience now nonce) of
        Inl e \<Rightarrow> Inl (wrapf ''hostid: encode claims: '' e [])
      | Inr payload \<Rightarrow> (case kl_signer K (hi_Private i) of
        Some e \<Rightarrow> Inl (wrapf ''hostid: create signer: '' e [])
      | None \<Rightarrow> (case kl_sign K (hi_Private i) payload of
        Inl e \<Rightarrow> Inl (wrapf ''hostid: sign assertion: '' e [])
      | Inr jws \<Rightarrow> (case kl_serialize K jws of
        Inl e \<Rightarrow> Inl (wrapf ''hostid: serialize assertion: '' e [])
      | Inr token \<Rightarrow> Inr token))))))"

section \<open>Creating a file\<close>

lemma OpenExcl_spec:
  assumes "stable h (holds_at q x) w" "p \<noteq> q" "os_OpenExcl p m w = (r, w')"
  shows "stable h (holds_at q x) w'"
    and "r = Inr f \<Longrightarrow> ent (dsk w) p = None \<and> f_off f = 0 \<and> opened p f (\<lambda>n. i_data n = []) w'"
proof -
  have d: "wf_disk (dsk w)" "file_at (dsk w) q = x" using assms(1) by (auto simp: stable_def holds_at_def)
  have nf: "holds_at q x (snd (new_file p n own (dsk w)))" for n own
    using wf_new_file [OF d(1), of p n own] d(2) assms(2) file_at_new_file_other [OF d(1), of q p n own]
    by (simp add: holds_at_def)
  have "stable h (holds_at q x) (snd (os_OpenExcl p m w))"
    unfolding os_OpenExcl_def
  proof (rule stable_commit [OF assms(1)])
    fix g d'
    assume "(case ent (dsk w) p of None \<Rightarrow> if is_dir (dsk w) (filepath_Dir p)
        then Inr (new_file p (umasked w m) (euser w) (dsk w)) else Inl (enoent ''open'' p)
      | Some e \<Rightarrow> Inl (path_error ''open'' p [OsErrExist] ''file exists'')) = Inr (g, d')"
    then have "d' = snd (new_file p (umasked w m) (euser w) (dsk w))"
      by (auto split: option.splits if_splits simp: new_file_def)
    then show "holds_at q x d'" using nf by simp
  qed
  with assms(3) show "stable h (holds_at q x) w'" by simp
  show "r = Inr f \<Longrightarrow> ent (dsk w) p = None \<and> f_off f = 0 \<and> opened p f (\<lambda>n. i_data n = []) w'"
    using assms(3) by (auto simp: os_OpenExcl_def commit_def opened_def new_file_def split: option.splits if_splits)
qed

lemma OpenExcl_exists:
  assumes "ent (dsk w) p \<noteq> None" "os_OpenExcl p m w = (r, w')"
  shows "isl r \<and> dsk w' = dsk w \<and> hist w' = hist w @ [dsk w]"
  using assms by (auto simp: os_OpenExcl_def commit_def advance_def split: option.splits)

lemma writeKeyFile_spec:
  assumes "stable h (holds_at q x) w" "p \<noteq> q" "opened p f (\<lambda>n. i_data n = [] \<and> i_mode n = m) w" "f_off f = 0"
    and "writeKeyFile f data w = (r, w')"
  shows "stable h (holds_at q x) w'"
    and "r = None \<Longrightarrow> opened p f (\<lambda>n. i_data n = data \<and> i_mode n = m) w'"
proof -
  obtain e1 f' w1 where 1: "f_Write f data w = ((e1, f'), w1)" by (metis prod.exhaust)
  obtain e2 w2 where 2: "f_Sync f' w1 = (e2, w2)" by fastforce
  obtain e3 w3 where 3: "f_Close f' w2 = (e3, w3)" by fastforce
  note s1 = Write_spec [OF assms(1-3) 1]
  have w': "w' = w3" "r = None \<Longrightarrow> e1 = None"
    using assms(5) by (auto simp: writeKeyFile_def 1 2 3 split: option.splits)
  have s: "stable h (holds_at q x) w3" "dsk w3 = dsk w1"
    using stable_sync_close(1) [OF s1(1), of f'] stable_sync_close(3) [of f' w1] 2
      stable_sync_close(2) [of h "holds_at q x" w2 f'] stable_sync_close(4) [of f' w2] 3 by simp_all
  show "stable h (holds_at q x) w'" using s w' by simp
  show "opened p f (\<lambda>n. i_data n = data \<and> i_mode n = m) w'" if "r = None"
    using s1(2) [OF w'(2) [OF that] assms(4)] opened_dsk [OF s(2)] w'(1) by simp
qed

text \<open>Every run of Generate that got as far as the file: the three places where it can end.\<close>

lemma Generate_run:
  assumes "stable h (holds_at q x) w" "p \<noteq> q" "Generate K generated p comment w = (r, w')"
  shows "stable h (holds_at q x) w'"
    and "r = Inr i \<Longrightarrow> \<exists>pub priv block n. generated = Inr (pub, priv) \<and> kl_marshal K priv comment = Inr block
      \<and> ent (dsk w) p = None \<and> file_at (dsk w') p = Some n \<and> i_data n = kl_pem_encode K block
      \<and> i_mode n = keyFileMode \<and> newIdentity K priv pub comment = Inr i"
proof -
  have "stable h (holds_at q x) w' \<and> (\<forall>i. r = Inr i \<longrightarrow> (\<exists>pub priv block n. generated = Inr (pub, priv)
      \<and> kl_marshal K priv comment = Inr block \<and> ent (dsk w) p = None \<and> file_at (dsk w') p = Some n
      \<and> i_data n = kl_pem_encode K block \<and> i_mode n = keyFileMode \<and> newIdentity K priv pub comment = Inr i))"
  proof (cases "\<exists>pub priv block. generated = Inr (pub, priv) \<and> kl_marshal K priv comment = Inr block")
    case False
    with assms(1,3) show ?thesis by (auto simp: Generate_def split: sum.splits)
  next
    case True
    then obtain pub priv block where k: "generated = Inr (pub, priv)" "kl_marshal K priv comment = Inr block" by blast
    note run = assms(3) [unfolded Generate_def k sum.case prod.case]
    obtain o1 w1 where 1: "os_OpenExcl p keyFileMode w = (o1, w1)" by fastforce
    note s1 = OpenExcl_spec [OF assms(1,2) 1]
    show ?thesis
    proof (cases o1)
      case (Inl e)
      with run 1 s1(1) show ?thesis by auto
    next
      case (Inr f)
      then have f: "ent (dsk w) p = None" "f_off f = 0" "opened p f (\<lambda>n. i_data n = []) w1" using s1(2) [OF Inr] by auto
      obtain o2 w2 where 2: "f_Chmod f keyFileMode w1 = (o2, w2)" by fastforce
      note s2 = Chmod_spec [OF s1(1) assms(2) f(3) 2]
      show ?thesis
      proof (cases o2)
        case (Some e)
        with run 1 2 Inr have "r = Inl (wrapf ''hostid: chmod key file: '' e [])" "w' = snd (os_Remove p (snd (f_Close f w2)))"
          by simp_all
        then show ?thesis using stable_Remove [OF _ assms(2)] stable_sync_close(2) [OF s2(1)] by simp
      next
        case None
        have o: "opened p f (\<lambda>n. i_data n = [] \<and> i_mode n = keyFileMode) w2" by (rule s2(2) [OF None]) simp
        obtain o3 w3 where 3: "writeKeyFile f (kl_pem_encode K block) w2 = (o3, w3)" by fastforce
        note s3 = writeKeyFile_spec [OF s2(1) assms(2) o f(2) 3]
        show ?thesis
        proof (cases o3)
          case (Some e)
          with run 1 2 3 Inr None have "r = Inl e" "w' = snd (os_Remove p w3)" by simp_all
          then show ?thesis using stable_Remove [OF s3(1) assms(2)] by simp
        next
          case None': None
          with run 1 2 3 Inr None have r: "r = newIdentity K priv pub comment" "w' = w3" by simp_all
          obtain n where "file_at (dsk w3) p = Some n" "i_data n = kl_pem_encode K block" "i_mode n = keyFileMode"
            using opened_file_at [OF _ s3(2) [OF None']] stable_dsk [OF s3(1)] by (auto simp: holds_at_def)
          with r k f(1) s3(1) show ?thesis by simp
        qed
      qed
    qed
  qed
  then show "stable h (holds_at q x) w'"
    and "r = Inr i \<Longrightarrow> \<exists>pub priv block n. generated = Inr (pub, priv) \<and> kl_marshal K priv comment = Inr block
      \<and> ent (dsk w) p = None \<and> file_at (dsk w') p = Some n \<and> i_data n = kl_pem_encode K block
      \<and> i_mode n = keyFileMode \<and> newIdentity K priv pub comment = Inr i" by blast+
qed

lemma Generate_exists:
  assumes "ent (dsk w) p \<noteq> None" "Generate K generated p comment w = (r, w')"
  shows "isl r \<and> stable (hist w) (\<lambda>d. d = dsk w) w'"
proof -
  obtain o1 w1 where 1: "os_OpenExcl p keyFileMode w = (o1, w1)" by fastforce
  from OpenExcl_exists [OF assms(1) 1] obtain e where e: "o1 = Inl e" "dsk w1 = dsk w" "hist w1 = hist w @ [dsk w]"
    by (cases o1) auto
  show ?thesis using assms(2) 1 e
    by (auto simp: Generate_def stable_def split: sum.splits)
qed

section \<open>Keys that load again\<close>

text \<open>
  What the libraries promise about a marshalled key: its PEM form parses to the key, the public
  half follows from it, and the OpenSSH container carries the comment in the clear.
\<close>

definition key_format :: "key_lib \<Rightarrow> string \<Rightarrow> string \<Rightarrow> bool" where
  "key_format K priv pub \<longleftrightarrow> length priv = PrivateKeySize \<and> kl_public K priv = pub
     \<and> (\<forall>comment block. kl_marshal K priv comment = Inr block \<longrightarrow>
         kl_parse K (kl_pem_encode K block) \<in> {Inr (EdKey priv), Inr (EdKeyPtr priv)}
       \<and> kl_pem_decode K (kl_pem_encode K block) = Some block \<and> pem_Type block = ''OPENSSH PRIVATE KEY''
       \<and> (\<exists>body private. pem_Bytes block = key_magic @ body \<and> kl_outer K body = Some (''none'', private)
           \<and> kl_inner K private = Some comment))"

lemma keyComment_marshalled:
  "key_format K priv pub \<Longrightarrow> kl_marshal K priv comment = Inr block \<Longrightarrow> keyComment K (kl_pem_encode K block) = comment"
  by (fastforce simp: key_format_def keyComment_def HasPrefix_def)

lemma Load_marshalled:
  assumes "key_format K priv pub" "kl_marshal K priv comment = Inr block"
    and "file_at (dsk w) p = Some n" "i_data n = kl_pem_encode K block" "fault w = None"
  shows "fst (Load K p w) = newIdentity K priv pub comment"
proof -
  have "os_ReadFile p w = (Inr (kl_pem_encode K block), advance (dsk w) w)"
    using assms(3-5) by (simp add: os_ReadFile_def observe_def)
  moreover have "load_ed25519 K p (kl_pem_encode K block) priv = newIdentity K priv pub comment"
    using assms(1) keyComment_marshalled [OF assms(1,2)] by (simp add: load_ed25519_def key_format_def)
  moreover have "kl_parse K (kl_pem_encode K block) \<in> {Inr (EdKey priv), Inr (EdKeyPtr priv)}"
    using assms(1,2) by (simp add: key_format_def)
  ultimately show ?thesis by (auto simp: Load_def)
qed

section \<open>Reading an identifier back\<close>

definition b64_val :: "char \<Rightarrow> nat" where
  "b64_val c = (let b = byte c in if 97 \<le> b then b - 97 + 26 else if b = 95 then 63 else if 65 \<le> b then b - 65
     else if 48 \<le> b then b - 48 + 52 else 62)"

fun b64_decode :: "string \<Rightarrow> nat list" where
  "b64_decode (p # q # r # s # rest) =
     [b64_val p * 4 + b64_val q div 16, b64_val q mod 16 * 16 + b64_val r div 4, b64_val r mod 4 * 64 + b64_val s]
     @ b64_decode rest"
| "b64_decode [p, q, r] = [b64_val p * 4 + b64_val q div 16, b64_val q mod 16 * 16 + b64_val r div 4]"
| "b64_decode [p, q] = [b64_val p * 4 + b64_val q div 16]"
| "b64_decode cs = []"

lemma b64_val_char [simp]: "n < 64 \<Longrightarrow> b64_val (b64_char n) = n"
  by (auto simp: b64_char_def b64_val_def byte_def Let_def)

lemma b64_small [simp]: "b < 256 \<Longrightarrow> b div 16 < (16::nat)" "c < 256 \<Longrightarrow> c div 64 < (4::nat)" "a < 256 \<Longrightarrow> a div 4 < (64::nat)"
  by (simp_all add: less_mult_imp_div_less)

lemma b64_fits [simp]:
  "b < 256 \<Longrightarrow> a mod 4 * 16 + b div 16 < (64::nat)" "c < 256 \<Longrightarrow> b mod 16 * 4 + c div 64 < (64::nat)"
  "a mod 4 * 16 < (64::nat)" "b mod 16 * 4 < (64::nat)"
proof -
  have "a mod 4 \<le> 3" "b mod 16 \<le> 15" using mod_less_divisor [of 4 a] mod_less_divisor [of 16 b] by linarith+
  then show "b < 256 \<Longrightarrow> a mod 4 * 16 + b div 16 < (64::nat)" "c < 256 \<Longrightarrow> b mod 16 * 4 + c div 64 < (64::nat)"
    "a mod 4 * 16 < (64::nat)" "b mod 16 * 4 < (64::nat)"
    using b64_small(1) [of b] b64_small(2) [of c] by linarith+
qed

lemma b64_decode_encode: "list_all (\<lambda>b. b < 256) bs \<Longrightarrow> b64_decode (RawURLEncoding bs) = bs"
  by (induction bs rule: RawURLEncoding.induct) auto

lemma RawURLEncoding_length: "length (RawURLEncoding bs) = (4 * length bs + 2) div 3"
  by (induction bs rule: RawURLEncoding.induct) auto

definition url_safe :: "char \<Rightarrow> bool" where
  "url_safe c = ((97 \<le> byte c \<and> byte c \<le> 122) \<or> (65 \<le> byte c \<and> byte c \<le> 90) \<or> is_digit c \<or> byte c = 45 \<or> byte c = 95)"

lemma b64_char_safe: "n < 64 \<Longrightarrow> url_safe (b64_char n)"
  by (auto simp: url_safe_def b64_char_def is_digit_def byte_def)

lemma RawURLEncoding_safe: "list_all (\<lambda>b. b < 256) bs \<Longrightarrow> list_all url_safe (RawURLEncoding bs)"
  by (induction bs rule: RawURLEncoding.induct) (auto intro!: b64_char_safe)

section \<open>A library for concrete runs\<close>

text \<open>A key file that is the magic, the 64 bytes of the key and the comment; signing tags the payload.\<close>

definition plain_keys :: key_lib where
  "plain_keys = \<lparr>
     kl_marshal = (\<lambda>priv comment. if length priv = 64
        then Inr \<lparr>pem_Type = ''OPENSSH PRIVATE KEY'', pem_Bytes = key_magic @ priv @ comment\<rparr> else Inl (errors_New ''short key'')),
     kl_pem_encode = pem_Bytes,
     kl_pem_decode = (\<lambda>s. Some \<lparr>pem_Type = ''OPENSSH PRIVATE KEY'', pem_Bytes = s\<rparr>),
     kl_parse = (\<lambda>s. Inr (EdKey (take 64 (drop 15 s)))),
     kl_public = drop 32,
     kl_outer = (\<lambda>s. Some (''none'', s)),
     kl_inner = (\<lambda>s. Some (drop 64 s)),
     kl_line = (\<lambda>pub. Inr (''ssh-ed25519 '' @ pub @ [NL])),
     kl_fingerprint = (\<lambda>pub. ''SHA256:'' @ pub),
     kl_json = (\<lambda>c. Inr (ac_ID c)),
     kl_signer = (\<lambda>k. None),
     kl_sign = (\<lambda>k payload. Inr payload),
     kl_serialize = Inr\<rparr>"

definition sample_key :: string where
  "sample_key = replicate 64 (CHR ''k'')"

lemma plain_keys_simps:
  "kl_marshal plain_keys priv comment = (if length priv = 64
     then Inr \<lparr>pem_Type = ''OPENSSH PRIVATE KEY'', pem_Bytes = key_magic @ priv @ comment\<rparr> else Inl (errors_New ''short key''))"
  "kl_pem_encode plain_keys = pem_Bytes"
  "kl_pem_decode plain_keys s = Some \<lparr>pem_Type = ''OPENSSH PRIVATE KEY'', pem_Bytes = s\<rparr>"
  "kl_parse plain_keys s = Inr (EdKey (take 64 (drop 15 s)))" "kl_public plain_keys = drop 32"
  "kl_outer plain_keys s = Some (''none'', s)" "kl_inner plain_keys s = Some (drop 64 s)"
  "kl_line plain_keys pub = Inr (''ssh-ed25519 '' @ pub @ [NL])" "kl_fingerprint plain_keys pub = ''SHA256:'' @ pub"
  "kl_json plain_keys c = Inr (ac_ID c)" "kl_signer plain_keys k = None" "kl_sign plain_keys k t = Inr t"
  "kl_serialize plain_keys = Inr"
  by (simp_all add: plain_keys_def)

lemma length_key_magic: "length key_magic = 15"
  by (simp add: key_magic_def)

lemma length_sample_key: "length sample_key = 64"
  by (simp add: sample_key_def)

lemma plain_keys_format: "key_format plain_keys sample_key (drop 32 sample_key)"
  unfolding key_format_def plain_keys_simps
  by (simp add: length_key_magic length_sample_key PrivateKeySize_def)

definition calm :: "disk \<Rightarrow> os" where
  "calm d = \<lparr>dsk = d, tick = 0, sched = (\<lambda>n. (None, 0)), hist = [], umasked = (\<lambda>m. m), euser = (0, 0)\<rparr>"

definition etc_disk :: disk where
  "etc_disk = \<lparr>ents = [(''/e'', DirEnt 493)], inodes = []\<rparr>"

lemma wf_etc_disk [simp]: "wf_disk etc_disk"
  by (simp add: wf_disk_def etc_disk_def file_inos_def)

lemma calm_simps [simp]: "dsk (calm d) = d" "hist (calm d) = []"
  by (simp_all add: calm_def)

lemma Dir_ek: "filepath_Dir ''/e/k'' = ''/e''"
  by code_simp

lemma sample_generate:
  "\<exists>i w'. Generate plain_keys (Inr (drop 32 sample_key, sample_key)) ''/e/k'' ''c'' (calm etc_disk) = (Inr i, w')"
proof -
  have d: "ent etc_disk ''/e/k'' = None" "is_dir etc_disk ''/e''" by (simp_all add: etc_disk_def ent_def is_dir_def)
  have calm: "fault (advance x w) = None" if "fault w = None" "sched w = (\<lambda>n. (None, 0))" for x w
    using that by (simp add: fault_def advance_def)
  show ?thesis
    by (simp add: Generate_def plain_keys_simps length_sample_key os_OpenExcl_def commit_def fault_def calm_def d Dir_ek
        new_file_def f_Chmod_def unit_result_def advance_def writeKeyFile_def f_Write_def f_Sync_def f_Close_def
        observe_def Let_def newIdentity_def)
qed

section \<open>Properties\<close>

text \<open>C29: generating a key never destroys one. When something exists at the path the call fails and the
  disk is the same at every point; on success there was nothing, and the file holds the marshalled
  key with mode 0640; in no case, crashes and failing calls included, does any other file change.\<close>

theorem Generate_never_overwrites:
  assumes "wf_disk (dsk w)" "Generate K generated p comment w = (r, w')"
  shows "(case ent (dsk w) p of Some e \<Rightarrow> isl r \<and> stable (hist w) (\<lambda>d. d = dsk w) w' | None \<Rightarrow> True)
    \<and> (case r of Inl e \<Rightarrow> True | Inr i \<Rightarrow> ent (dsk w) p = None \<and> (\<exists>pub priv block. generated = Inr (pub, priv)
        \<and> kl_marshal K priv comment = Inr block \<and> read_file (dsk w') p = Some (kl_pem_encode K block)
        \<and> map_option i_mode (file_at (dsk w') p) = Some 416))
    \<and> (q = p \<or> stable (hist w) (holds_at q (file_at (dsk w) q)) w')"
proof -
  have s: "stable (hist w) (holds_at u (file_at (dsk w) u)) w" for u
    using assms(1) by (intro stable_start) (simp add: holds_at_def)
  have "p \<noteq> CHR ''x'' # p" by (rule not_Cons_self)
  note ok = Generate_run(2) [OF s this assms(2)]
  have content: "case r of Inl e \<Rightarrow> True | Inr i \<Rightarrow> ent (dsk w) p = None \<and> (\<exists>pub priv block. generated = Inr (pub, priv)
        \<and> kl_marshal K priv comment = Inr block \<and> read_file (dsk w') p = Some (kl_pem_encode K block)
        \<and> map_option i_mode (file_at (dsk w') p) = Some 416)"
  proof (cases r)
    case (Inr i)
    from ok [OF Inr] Inr show ?thesis by (auto simp: read_file_def keyFileMode_def)
  qed simp
  have exists: "case ent (dsk w) p of Some e \<Rightarrow> isl r \<and> stable (hist w) (\<lambda>d. d = dsk w) w' | None \<Rightarrow> True"
    using Generate_exists [OF _ assms(2)] by (simp split: option.split)
  have frame: "q = p \<or> stable (hist w) (holds_at q (file_at (dsk w) q)) w'"
  proof (cases "q = p")
    case False
    from Generate_run(1) [OF s not_sym [OF False] assms(2)] show ?thesis ..
  qed simp
  show ?thesis by (rule conjI [OF exists conjI [OF content frame]])
qed

theorem Generate_never_overwrites_witness:
  "isl (fst (Generate plain_keys (Inr (drop 32 sample_key, sample_key)) ''/e'' ''c'' (calm etc_disk)))"
proof -
  obtain r w' where r: "Generate plain_keys (Inr (drop 32 sample_key, sample_key)) ''/e'' ''c'' (calm etc_disk) = (r, w')"
    by fastforce
  have "ent etc_disk ''/e'' = Some (DirEnt 493)" by (simp add: etc_disk_def ent_def)
  with Generate_never_overwrites [OF _ r] r show ?thesis by simp
qed

text \<open>C30: what Generate wrote, Load reads back as the same identity, comment included, given that the
  formats are faithful.\<close>

theorem Generate_then_Load:
  assumes "wf_disk (dsk w)" "Generate K (Inr (pub, priv)) p comment w = (Inr i, w')"
    and "key_format K priv pub" "dsk v = dsk w'" "fault v = None"
  shows "fst (Load K p v) = Inr i \<and> hi_Private i = priv \<and> hi_Public i = pub"
proof -
  have s: "stable (hist w) (holds_at (CHR ''x'' # p) (file_at (dsk w) (CHR ''x'' # p))) w"
    using assms(1) by (intro stable_start) (simp add: holds_at_def)
  have "p \<noteq> CHR ''x'' # p" by (rule not_Cons_self)
  from Generate_run(2) [OF s this assms(2) refl] obtain block n where
    b: "kl_marshal K priv comment = Inr block" "file_at (dsk w') p = Some n" "i_data n = kl_pem_encode K block"
      "newIdentity K priv pub comment = Inr i" by auto
  have "fst (Load K p v) = newIdentity K priv pub comment"
    using Load_marshalled [OF assms(3) b(1) _ b(3) assms(5)] b(2) assms(4) by simp
  with b(4) show ?thesis by (auto simp: newIdentity_def Let_def split: sum.splits)
qed

theorem Generate_then_Load_witness:
  "\<exists>i w'. Generate plain_keys (Inr (drop 32 sample_key, sample_key)) ''/e/k'' ''c'' (calm etc_disk) = (Inr i, w')
    \<and> fst (Load plain_keys ''/e/k'' (calm (dsk w'))) = Inr i"
proof -
  obtain i w' where g: "Generate plain_keys (Inr (drop 32 sample_key, sample_key)) ''/e/k'' ''c'' (calm etc_disk) = (Inr i, w')"
    using sample_generate by blast
  have "fault (calm (dsk w')) = None" by (simp add: fault_def calm_def)
  from Generate_then_Load [OF _ g plain_keys_format _ this] g show ?thesis by simp
qed

text \<open>What an assertion says. It is made only for a host id and an audience; it names the host as
  issuer and subject and the audience as given, expires sixty seconds after the second it was
  issued in, and its identifier is the nonce in URL-safe base64, 22 characters for 16 bytes, from
  which the nonce can be read back, so that fresh nonces give fresh identifiers.\<close>

theorem assertion_says:
  assumes "Assertion K i hostID audience now random = Inr token"
  shows "hostID \<noteq> [] \<and> audience \<noteq> [] \<and> (\<exists>nonce claims payload jws. random = Inr nonce
    \<and> kl_json K claims = Inr payload \<and> kl_sign K (hi_Private i) payload = Inr jws \<and> kl_serialize K jws = Inr token
    \<and> ac_Issuer claims = hostID \<and> ac_Subject claims = hostID \<and> ac_Audience claims = audience
    \<and> ac_IssuedAt claims = now div 1000000000 \<and> ac_Expiry claims = ac_IssuedAt claims + 60
    \<and> length (ac_ID claims) = (4 * length nonce + 2) div 3
    \<and> (list_all (\<lambda>b. b < 256) nonce \<longrightarrow> list_all url_safe (ac_ID claims) \<and> b64_decode (ac_ID claims) = nonce))"
proof -
  obtain nonce payload jws where r: "random = Inr nonce" "hostID \<noteq> []" "audience \<noteq> []"
    "kl_json K (assertion_claims hostID audience now nonce) = Inr payload"
    "kl_sign K (hi_Private i) payload = Inr jws" "kl_serialize K jws = Inr token"
    using assms by (auto simp: Assertion_def split: if_splits sum.splits option.splits)
  show ?thesis
  proof (intro conjI exI)
    show "list_all (\<lambda>b. b < 256) nonce \<longrightarrow> list_all url_safe (ac_ID (assertion_claims hostID audience now nonce))
        \<and> b64_decode (ac_ID (assertion_claims hostID audience now nonce)) = nonce"
      by (simp add: assertion_claims_def Let_def RawURLEncoding_safe b64_decode_encode)
  qed (use r in \<open>simp_all add: assertion_claims_def Let_def Unix_def AssertionLifetime_def RawURLEncoding_length\<close>)
qed

theorem assertion_says_witness:
  "\<exists>token. Assertion plain_keys \<lparr>hi_Private = [], hi_Public = [], hi_PublicKeyLine = [], hi_Fingerprint = []\<rparr> ''h'' ''https://a''
      7000000000 (Inr (replicate 16 255)) = Inr token \<and> length token = 22"
proof -
  let ?i = "\<lparr>hi_Private = [], hi_Public = [], hi_PublicKeyLine = [], hi_Fingerprint = []\<rparr>"
  have a: "Assertion plain_keys ?i ''h'' ''https://a'' 7000000000 (Inr (replicate 16 255)) = Inr (RawURLEncoding (replicate 16 255))"
    by (simp add: Assertion_def plain_keys_simps assertion_claims_def Let_def)
  from assertion_says [OF a] a show ?thesis by (auto simp: plain_keys_simps)
qed

end
