(* ===== verification/SshEnv.thy ===== *)
theory SshEnv
  imports Provider Config Hostid Keycache
begin

text \<open>
  The ground of package sshcmd (\<^verbatim>\<open>src/internal/sshcmd/sshcmd.go\<close>): the environment of a command with
  the defaults fill applies, and the helpers every command uses. A running command changes a
  \<open>proc\<close>: the files and system calls of theory Fs, the world behind the network, the two output
  streams and the lines handed to the logger. Write errors on the streams are ignored by the
  source, so a stream is the text written to it.
\<close>

section \<open>The process\<close>

record 'w proc =
  ps_os :: os
  ps_net :: 'w
  ps_out :: string
  ps_err :: string
  ps_log :: "string list"

definition on_os :: "(os \<Rightarrow> 'a \<times> os) \<Rightarrow> 'w proc \<Rightarrow> 'a \<times> 'w proc" where
  "on_os f p = (case f (ps_os p) of (r, w) \<Rightarrow> (r, p\<lparr>ps_os := w\<rparr>))"

definition on_net :: "('w \<Rightarrow> 'a \<times> 'w) \<Rightarrow> 'w proc \<Rightarrow> 'a \<times> 'w proc" where
  "on_net f p = (case f (ps_net p) of (r, w) \<Rightarrow> (r, p\<lparr>ps_net := w\<rparr>))"

text \<open>What the commands take from the libraries and from the machine: \<open>sl_hostname\<close> is what
  os.Hostname answers, \<open>sl_random\<close> the bytes read for a jti, \<open>sl_wall\<close> the time the cache reads.\<close>

record ('h, 'w) sshlibs =
  sl_go :: golib
  sl_yaml :: "string \<Rightarrow> string + rawConfig"
  sl_hostname :: "go_error + string"
  sl_keys :: key_lib
  sl_provider :: "('h, 'w) provider_env"
  sl_random :: "go_error + nat list"
  sl_wall :: time

section \<open>The environment of a command\<close>

definition Version :: string where "Version = ''dev''"

definition not_root :: go_error where
  "not_root = sentinel_error ErrNotRoot ''oidc-ssh: enrolment must run as root''"

datatype writer = Stream | Discard
datatype logger = Syslog | NopLogger

record Env =
  ev_Stdout :: "writer option"
  ev_Stderr :: "writer option"
  ev_Stdin :: "string option"
  ev_ConfigPath :: string
  ev_Log :: "logger option"
  ev_Now :: "time option"
  ev_Geteuid :: "int option"
  ev_Hostname :: "(go_error + string) option"
  ev_Executable :: "(go_error + string) option"

text \<open>The process-wide defaults, and the environment with every field set.\<close>

record defaults =
  df_Stdin :: string
  df_Now :: time
  df_Geteuid :: int
  df_Hostname :: "go_error + string"
  df_Executable :: "go_error + string"

record env =
  fe_Stdout :: writer
  fe_Stderr :: writer
  fe_Stdin :: string
  fe_ConfigPath :: string
  fe_Log :: logger
  fe_Now :: time
  fe_Geteuid :: int
  fe_Hostname :: "go_error + string"
  fe_Executable :: "go_error + string"

definition or_default :: "'a option \<Rightarrow> 'a \<Rightarrow> 'a" where
  "or_default x d = (case x of None \<Rightarrow> d | Some y \<Rightarrow> y)"

definition fill :: "defaults \<Rightarrow> Env \<Rightarrow> env" where
  "fill d e =
     \<lparr>fe_Stdout = or_default (ev_Stdout e) Discard, fe_Stderr = or_default (ev_Stderr e) Discard,
      fe_Stdin = or_default (ev_Stdin e) (df_Stdin d), fe_ConfigPath = ev_ConfigPath e,
      fe_Log = or_default (ev_Log e) NopLogger, fe_Now = or_default (ev_Now e) (df_Now d),
      fe_Geteuid = or_default (ev_Geteuid e) (df_Geteuid d),
      fe_Hostname = or_default (ev_Hostname e) (df_Hostname d),
      fe_Executable = or_default (ev_Executable e) (df_Executable d)\<rparr>"

definition Log :: "env \<Rightarrow> string \<Rightarrow> 'w proc \<Rightarrow> 'w proc" where
  "Log env line p = (case fe_Log env of NopLogger \<Rightarrow> p | Syslog \<Rightarrow> p\<lparr>ps_log := ps_log p @ [line]\<rparr>)"

definition configPath :: "env \<Rightarrow> 'w proc \<Rightarrow> (go_error + string) \<times> 'w proc" where
  "configPath env p = (if fe_ConfigPath env \<noteq> [] then (Inr (fe_ConfigPath env), p) else on_os FindDefault p)"

text \<open>On an error the path is returned as well when it is known.\<close>

definition loadConfig :: "('h, 'w) sshlibs \<Rightarrow> env \<Rightarrow> 'w proc \<Rightarrow> ((go_error + Config) \<times> string) \<times> 'w proc" where
  "loadConfig L env p =
     (case configPath env p of
        (Inl e, p1) \<Rightarrow> ((Inl e, []), p1)
      | (Inr file, p1) \<Rightarrow> (case on_os (Config.Load (sl_go L) (sl_yaml L) (sl_hostname L) file) p1 of
          (Inl e, p2) \<Rightarrow> ((Inl e, file), p2)
        | (Inr cfg, p2) \<Rightarrow> ((Inr cfg, file), p2)))"

definition newProviderClient :: "golib \<Rightarrow> Config \<Rightarrow> string \<Rightarrow> go_error + 'h Provider.Client" where
  "newProviderClient G cfg base = Provider.New G
     \<lparr>o_Base = base, o_HTTPTimeout = c_HTTPTimeout cfg, o_AllowInsecureHTTP = c_AllowInsecureHTTP cfg, o_HTTPClient = None\<rparr>"

definition printf :: "env \<Rightarrow> string \<Rightarrow> 'w proc \<Rightarrow> 'w proc" where
  "printf env text p = (case fe_Stdout env of Discard \<Rightarrow> p | Stream \<Rightarrow> p\<lparr>ps_out := ps_out p @ text\<rparr>)"

definition warnf :: "env \<Rightarrow> string \<Rightarrow> 'w proc \<Rightarrow> 'w proc" where
  "warnf env text p =
     (case fe_Stderr env of Discard \<Rightarrow> p | Stream \<Rightarrow> p\<lparr>ps_err := ps_err p @ ''warning: '' @ text @ [NL]\<rparr>)"

definition sanitize :: "string \<Rightarrow> string" where
  "sanitize s = Sanitize s MaxValueLen"

section \<open>What a step leaves alone\<close>

lemma on_os_simps [simp]:
  "ps_net (snd (on_os f p)) = ps_net p" "ps_out (snd (on_os f p)) = ps_out p"
  "ps_err (snd (on_os f p)) = ps_err p" "ps_log (snd (on_os f p)) = ps_log p"
  "ps_os (snd (on_os f p)) = snd (f (ps_os p))" "fst (on_os f p) = fst (f (ps_os p))"
  by (simp_all add: on_os_def split: prod.split)

lemma on_net_simps [simp]:
  "ps_os (snd (on_net f p)) = ps_os p" "ps_out (snd (on_net f p)) = ps_out p"
  "ps_err (snd (on_net f p)) = ps_err p" "ps_log (snd (on_net f p)) = ps_log p"
  "ps_net (snd (on_net f p)) = snd (f (ps_net p))" "fst (on_net f p) = fst (f (ps_net p))"
  by (simp_all add: on_net_def split: prod.split)

text \<open>Two processes with the same output so far.\<close>

definition same_streams :: "'w proc \<Rightarrow> 'w proc \<Rightarrow> bool" where
  "same_streams p q = (ps_out p = ps_out q \<and> ps_err p = ps_err q \<and> ps_log p = ps_log q)"

lemma same_streams_refl [simp]: "same_streams p p"
  by (simp add: same_streams_def)

lemma same_streams_trans: "same_streams p q \<Longrightarrow> same_streams q r \<Longrightarrow> same_streams p r"
  by (simp add: same_streams_def)

lemma same_streams_on [simp]: "same_streams p (snd (on_os f p))" "same_streams p (snd (on_net g p))"
  by (simp_all add: same_streams_def)

end
