(* ===== verification/AuthorizedKeysCmd.thy ===== *)
theory AuthorizedKeysCmd
  imports SshEnv
begin

text \<open>
  The AuthorizedKeysCommand of package sshcmd (\<^verbatim>\<open>src/internal/sshcmd/authorized_keys.go\<close>): one query
  per public-key login. The model has the whole command except its recovery from a panic, which
  cannot arise in total functions, and the deadline of the query, which is part of what the
  transport answers. The lemmas show which lines can reach sshd, what the cache may serve over
  any sequence of logins, and what the audit line looks like.
\<close>

section \<open>The command\<close>

definition resultOK :: string where "resultOK = ''ok''"
definition resultEmpty :: string where "resultEmpty = ''empty''"
definition resultDenied :: string where "resultDenied = ''denied''"
definition resultCache :: string where "resultCache = ''cache''"
definition resultError :: string where "resultError = ''error''"

lemmas result_defs = resultOK_def resultEmpty_def resultDenied_def resultCache_def resultError_def

record keysAudit =
  ka_account :: string
  ka_fingerprint :: string
  ka_result :: string
  ka_users :: "string list"
  ka_lines :: nat
  ka_source :: string
  ka_age :: duration
  ka_dropped :: nat
  ka_capped :: bool
  ka_truncated :: bool
  ka_err :: "go_error option"

definition new_audit :: "string \<Rightarrow> string \<Rightarrow> keysAudit" where
  "new_audit account fingerprint =
     \<lparr>ka_account = account, ka_fingerprint = fingerprint, ka_result = resultError, ka_users = [], ka_lines = 0,
      ka_source = [], ka_age = 0, ka_dropped = 0, ka_capped = False, ka_truncated = False, ka_err = None\<rparr>"

definition audit_fail :: "keysAudit \<Rightarrow> go_error \<Rightarrow> keysAudit" where
  "audit_fail a e = a\<lparr>ka_result := resultError, ka_err := Some e\<rparr>"

definition account_char :: "char \<Rightarrow> bool" where
  "account_char c = (is_lower c \<or> is_upper c \<or> is_digit c \<or> c = CHR ''_'')"

text \<open>The regular expression \<^verbatim>\<open>^[A-Za-z0-9_][A-Za-z0-9._-]{0,63}$\<close>.\<close>

definition accountRE :: "string \<Rightarrow> bool" where
  "accountRE s = (case s of [] \<Rightarrow> False
     | c # t \<Rightarrow> account_char c \<and> length t \<le> 63
         \<and> list_all (\<lambda>d. account_char d \<or> d = CHR ''.'' \<or> d = CHR ''-'') t)"

definition validAccount :: "string \<Rightarrow> bool" where
  "validAccount account = accountRE account"

definition newCache :: "Config \<Rightarrow> Cache" where
  "newCache cfg = \<lparr>c_dir = c_CacheDir cfg, c_ttl = c_CacheTTL cfg\<rparr>"

definition writeLines :: "env \<Rightarrow> string list \<Rightarrow> 'w proc \<Rightarrow> 'w proc" where
  "writeLines env ls p = (if ls = [] then p else printf env (unlines ls) p)"

definition maxLoggedUsers :: nat where "maxLoggedUsers = 8"

definition env_prefix :: "string \<Rightarrow> string" where
  "env_prefix envName = ''environment='' @ [DQ] @ envName @ ''=''"

text \<open>The scan of one line; the flag tells of the early return with a full list.\<close>

function scan_line :: "string \<Rightarrow> string \<Rightarrow> string list \<Rightarrow> string list \<times> bool" where
  "scan_line envName rest out =
     (case Index rest (env_prefix envName) of None \<Rightarrow> (out, False)
      | Some i \<Rightarrow>
          (let rest1 = drop (i + length (env_prefix envName)) rest in
           case IndexByte rest1 DQ of None \<Rightarrow> (out, False)
           | Some j \<Rightarrow>
               (let v = take j rest1 in
                if v \<noteq> [] \<and> v \<notin> set out then
                  (if length out = maxLoggedUsers then (out, True) else scan_line envName (drop j rest1) (out @ [v]))
                else scan_line envName (drop j rest1) out)))"
  by pat_completeness auto
termination
  by (relation "measure (\<lambda>(envName, rest, out). length rest)") (auto dest!: Index_Some simp: env_prefix_def)

declare scan_line.simps [simp del]

fun scan_lines :: "string \<Rightarrow> string list \<Rightarrow> string list \<Rightarrow> string list" where
  "scan_lines envName [] out = out"
| "scan_lines envName (l # ls) out =
     (case scan_line envName l out of (out', full) \<Rightarrow> if full then out' else scan_lines envName ls out')"

definition identitiesIn :: "string list \<Rightarrow> string \<Rightarrow> string list" where
  "identitiesIn ls envName = (if envName = [] then [] else scan_lines envName ls [])"

definition keysAfterError :: "('h, 'w) sshlibs \<Rightarrow> Config \<Rightarrow> keysAudit \<Rightarrow> go_error \<Rightarrow> 'w proc
    \<Rightarrow> (string list \<times> keysAudit) \<times> 'w proc" where
  "keysAfterError L cfg a e p =
     (if Is e ErrUnauthorized \<or> Is e ErrForbidden then (([], a\<lparr>ka_result := resultDenied, ka_err := Some e\<rparr>), p)
      else if \<not> Is e ErrUnavailable then (([], audit_fail a e), p)
      else case on_os (Get (sl_go L) (newCache cfg) (sl_wall L) (ka_account a) (ka_fingerprint a)) p of
        (None, p1) \<Rightarrow> (([], audit_fail a e), p1)
      | (Some (ls, age), p1) \<Rightarrow>
          ((ls, a\<lparr>ka_result := resultCache, ka_err := Some e, ka_source := ''cache'', ka_age := age,
                  ka_users := identitiesIn ls (c_SessionEnv cfg)\<rparr>), p1))"

text \<open>What follows an answer of the provider.\<close>

definition keysAnswered :: "('h, 'w) sshlibs \<Rightarrow> Config \<Rightarrow> keysAudit \<Rightarrow> Keys \<Rightarrow> 'w proc
    \<Rightarrow> (string list \<times> keysAudit) \<times> 'w proc" where
  "keysAnswered L cfg a0 keys p =
     (let a = a0\<lparr>ka_dropped := k_Dropped keys, ka_capped := k_Capped keys, ka_truncated := k_Truncated keys\<rparr> in
      if k_Lines keys = [] then (([], a\<lparr>ka_result := resultEmpty\<rparr>), p)
      else case on_os (Put (sl_go L) (newCache cfg) (sl_wall L) (ka_account a) (ka_fingerprint a) (k_Lines keys)) p of
        (stored, p1) \<Rightarrow>
          ((k_Lines keys,
            (case stored of None \<Rightarrow> a | Some e \<Rightarrow> a\<lparr>ka_err := Some e\<rparr>)
              \<lparr>ka_result := resultOK, ka_users := identitiesIn (k_Lines keys) (c_SessionEnv cfg)\<rparr>), p1))"

definition fetchKeys :: "('h, 'w) sshlibs \<Rightarrow> env \<Rightarrow> keysAudit \<Rightarrow> 'w proc \<Rightarrow> (string list \<times> keysAudit) \<times> 'w proc" where
  "fetchKeys L env a p =
     (if \<not> validAccount (ka_account a) then
        (([], audit_fail a (errors_New ''not a plausible local account name'')), p)
      else case loadConfig L env p of
        ((Inl e, file), p1) \<Rightarrow> (([], audit_fail a e), p1)
      | ((Inr cfg, file), p1) \<Rightarrow>
          if c_HostID cfg = [] then
            (([], audit_fail a (errors_New ''host is not enrolled (no host_id in the configuration)'')), p1)
          else (let base = ResolveBase (c_APIBase cfg) (c_Issuer cfg) [] in
            case newProviderClient (sl_go L) cfg base of
              Inl e \<Rightarrow> (([], audit_fail a e), p1)
            | Inr client \<Rightarrow> (case on_os (Hostid.Load (sl_keys L) (c_IdentityKey cfg)) p1 of
              (Inl e, p2) \<Rightarrow> (([], audit_fail a e), p2)
            | (Inr i, p2) \<Rightarrow> (case Assertion (sl_keys L) i (c_HostID cfg) base (fe_Now env) (sl_random L) of
              Inl e \<Rightarrow> (([], audit_fail a e), p2)
            | Inr assertion \<Rightarrow>
                (case on_net (FetchAuthorizedKeys (sl_go L) (sl_provider L) client assertion (ka_account a)
                    (ka_fingerprint a) (c_SessionEnv cfg)) p2 of
                   (Inl e, p3) \<Rightarrow> keysAfterError L cfg a e p3
                 | (Inr keys, p3) \<Rightarrow> keysAnswered L cfg a keys p3)))))"

definition valueOrDash :: "string \<Rightarrow> string" where
  "valueOrDash v = (let s = sanitize v in if s \<noteq> [] then s else ''-'')"

definition audit_line :: "keysAudit \<Rightarrow> string" where
  "audit_line a =
     ''account='' @ valueOrDash (ka_account a) @ '' fingerprint='' @ valueOrDash (ka_fingerprint a)
     @ '' result='' @ valueOrDash (ka_result a) @ '' lines='' @ dec (ka_lines a)
     @ (if ka_users a \<noteq> [] then '' user='' @ sanitize (Join '','' (ka_users a)) else [])
     @ (if ka_source a \<noteq> [] then '' source='' @ sanitize (ka_source a) @ '' age='' @ Duration_String (round_second (ka_age a))
        else [])
     @ (if 0 < ka_dropped a then '' dropped='' @ dec (ka_dropped a) else [])
     @ (if ka_capped a then '' capped=true'' else [])
     @ (if ka_truncated a then '' truncated=true'' else [])
     @ (case ka_err a of None \<Rightarrow> [] | Some e \<Rightarrow> '' err='' @ Sanitize (err_msg e) MaxErrLen)"

definition AuthorizedKeys :: "('h, 'w) sshlibs \<Rightarrow> defaults \<Rightarrow> Env \<Rightarrow> string \<Rightarrow> string \<Rightarrow> 'w proc \<Rightarrow> 'w proc" where
  "AuthorizedKeys L d e account fingerprint p =
     (let env = fill d e in
      case fetchKeys L env (new_audit account fingerprint) p of
        ((ls, a), p1) \<Rightarrow> Log env (audit_line (a\<lparr>ka_lines := length ls\<rparr>)) (writeLines env ls p1))"

section \<open>The identities of the served lines\<close>

text \<open>Every value the option carries in a text, and the reference for the list that is logged: its
  first occurrences, without the empty value.\<close>

function values_in :: "string \<Rightarrow> string \<Rightarrow> string list" where
  "values_in envName rest =
     (case Index rest (env_prefix envName) of None \<Rightarrow> []
      | Some i \<Rightarrow>
          (let rest1 = drop (i + length (env_prefix envName)) rest in
           case IndexByte rest1 DQ of None \<Rightarrow> [] | Some j \<Rightarrow> take j rest1 # values_in envName (drop j rest1)))"
  by pat_completeness auto
termination
  by (relation "measure (\<lambda>(envName, rest). length rest)") (auto dest!: Index_Some simp: env_prefix_def)

declare values_in.simps [simp del]

definition first_occurrences :: "string list \<Rightarrow> string list" where
  "first_occurrences vs = rev (remdups (rev (filter (\<lambda>v. v \<noteq> []) vs)))"

fun firsts :: "string list \<Rightarrow> string list \<Rightarrow> string list" where
  "firsts acc [] = acc"
| "firsts acc (v # vs) = firsts (if v \<noteq> [] \<and> v \<notin> set acc then acc @ [v] else acc) vs"

lemma remdups_snoc: "remdups (xs @ [v]) = remdups (filter (\<lambda>x. x \<noteq> v) xs) @ [v]"
  by (induction xs) auto

lemma firsts_spec: "firsts acc vs = acc @ rev (remdups (rev (filter (\<lambda>v. v \<noteq> [] \<and> v \<notin> set acc) vs)))"
proof (induction acc vs rule: firsts.induct)
  case (2 acc v vs)
  have "filter (\<lambda>x. x \<noteq> v) (rev (filter (\<lambda>u. u \<noteq> [] \<and> u \<notin> set acc) vs)) =
      rev (filter (\<lambda>u. u \<noteq> [] \<and> u \<notin> set (acc @ [v])) vs)"
    by (simp add: rev_filter [symmetric] conj_ac)
  with 2 show ?case by (auto simp: remdups_snoc)
qed simp

lemma firsts_append: "firsts acc (us @ vs) = firsts (firsts acc us) vs"
  by (induction acc us rule: firsts.induct) auto

lemma firsts_keeps: "take (length acc) (firsts acc vs) = acc \<and> length acc \<le> length (firsts acc vs)"
  by (simp add: firsts_spec)

lemma scan_line_firsts:
  "length out \<le> 8 \<Longrightarrow>
   scan_line envName rest out = (take 8 (firsts out (values_in envName rest)), 8 < length (firsts out (values_in envName rest)))"
proof (induction envName rest out rule: scan_line.induct)
  case (1 envName rest out)
  note unfold = scan_line.simps [of envName rest out] values_in.simps [of envName rest]
  show ?case
  proof (cases "Index rest (env_prefix envName)")
    case None
    then show ?thesis using "1.prems" by (simp add: unfold)
  next
    case (Some i)
    define r where "r = drop (i + length (env_prefix envName)) rest"
    show ?thesis
    proof (cases "IndexByte r DQ")
      case None
      then show ?thesis using "1.prems" by (simp add: unfold Some r_def Let_def)
    next
      case j: (Some j)
      let ?v = "take j r" and ?vs = "values_in envName (drop j r)"
      note IH = "1.IH" [OF Some r_def j refl]
      note eqs = unfold Some option.case Let_def r_def [symmetric] j
      show ?thesis
      proof (cases "?v \<noteq> [] \<and> ?v \<notin> set out")
        case True
        show ?thesis
        proof (cases "length out = 8")
          case full: True
          have "take 9 (firsts (out @ [?v]) ?vs) = out @ [?v] \<and> 9 \<le> length (firsts (out @ [?v]) ?vs)"
            using firsts_keeps [of "out @ [?v]" ?vs] full by simp
          then have "take 8 (firsts (out @ [?v]) ?vs) = out \<and> 8 < length (firsts (out @ [?v]) ?vs)"
            using full by (metis One_nat_def Suc_le_lessD append_eq_conv_conj eval_nat_numeral(3) le_SucI
                min.absorb1 numeral_eq_Suc order_refl pred_numeral_simps(3) take_take)
          then show ?thesis using True full unfolding eqs by (simp add: maxLoggedUsers_def)
        next
          case False
          then have "length (out @ [?v]) \<le> 8" using "1.prems" by simp
          with IH(1) True False show ?thesis unfolding eqs by (simp add: maxLoggedUsers_def)
        qed
      next
        case False
        with IH(2) "1.prems" show ?thesis unfolding eqs by auto
      qed
    qed
  qed
qed

lemma IndexByte_Some: "IndexByte s b = Some j \<Longrightarrow> b \<notin> set (take j s) \<and> drop j s = b # drop (Suc j) s"
  by (induction s arbitrary: j) (auto split: if_splits)

lemma values_in_sound:
  "v \<in> set (values_in envName rest) \<Longrightarrow> DQ \<notin> set v \<and> Contains rest (env_prefix envName @ v @ [DQ])"
proof (induction envName rest rule: values_in.induct)
  case (1 envName rest)
  show ?case
  proof (cases "Index rest (env_prefix envName)")
    case None
    with "1.prems" show ?thesis by (simp add: values_in.simps [of envName rest])
  next
    case (Some i)
    define r where "r = drop (i + length (env_prefix envName)) rest"
    show ?thesis
    proof (cases "IndexByte r DQ")
      case None
      with "1.prems" Some show ?thesis by (simp add: values_in.simps [of envName rest] r_def)
    next
      case j: (Some j)
      have rest: "rest = take i rest @ env_prefix envName @ r"
        using Index_Some [OF Some] by (metis append_take_drop_id drop_drop add.commute r_def)
      have r: "r = take j r @ [DQ] @ drop (Suc j) r" "DQ \<notin> set (take j r)"
        using IndexByte_Some [OF j] by (metis append_Cons append_Nil append_take_drop_id, simp)
      have "v = take j r \<or> v \<in> set (values_in envName (drop j r))"
        using "1.prems" Some j by (simp add: values_in.simps [of envName rest] r_def)
      then show ?thesis
      proof
        assume v: "v = take j r"
        have "rest = take i rest @ (env_prefix envName @ v @ [DQ]) @ drop (Suc j) r"
          using rest r(1) v by simp
        with r(2) v show ?thesis unfolding Contains_iff by blast
      next
        assume "v \<in> set (values_in envName (drop j r))"
        from "1.IH" [OF Some r_def j this] obtain a b where
          v: "DQ \<notin> set v" "drop j r = a @ (env_prefix envName @ v @ [DQ]) @ b" unfolding Contains_iff by blast
        have "rest = (take i rest @ env_prefix envName @ take j r @ a) @ (env_prefix envName @ v @ [DQ]) @ b"
          using rest append_take_drop_id [of j r] v(2) by (metis append_assoc)
        with v(1) show ?thesis unfolding Contains_iff by blast
      qed
    qed
  qed
qed

lemma take_firsts:
  "length out \<le> 8 \<Longrightarrow> scan_lines envName ls out = take 8 (firsts out (concat (map (values_in envName) ls)))"
proof (induction ls arbitrary: out)
  case (Cons l ls)
  let ?f = "firsts out (values_in envName l)"
  show ?case
  proof (cases "8 < length ?f")
    case True
    have "take (length ?f) (firsts ?f (concat (map (values_in envName) ls))) = ?f" using firsts_keeps by blast
    then have "take 8 (firsts ?f (concat (map (values_in envName) ls))) = take 8 ?f"
      using True by (metis less_imp_le min.absorb1 take_take)
    then show ?thesis using True Cons.prems by (simp add: scan_line_firsts firsts_append)
  next
    case False
    then show ?thesis using Cons.IH [of ?f] Cons.prems by (simp add: scan_line_firsts firsts_append)
  qed
qed simp

section \<open>The audit line\<close>

definition audit_fields :: "keysAudit \<Rightarrow> (string \<times> string) list" where
  "audit_fields a =
     [(''account'', valueOrDash (ka_account a)), (''fingerprint'', valueOrDash (ka_fingerprint a)),
      (''result'', valueOrDash (ka_result a)), (''lines'', dec (ka_lines a))]
     @ (if ka_users a \<noteq> [] then [(''user'', sanitize (Join '','' (ka_users a)))] else [])
     @ (if ka_source a \<noteq> [] then [(''source'', sanitize (ka_source a)), (''age'', Duration_String (round_second (ka_age a)))]
        else [])
     @ (if 0 < ka_dropped a then [(''dropped'', dec (ka_dropped a))] else [])
     @ (if ka_capped a then [(''capped'', ''true'')] else [])
     @ (if ka_truncated a then [(''truncated'', ''true'')] else [])
     @ (case ka_err a of None \<Rightarrow> [] | Some e \<Rightarrow> [(''err'', Sanitize (err_msg e) MaxErrLen)])"

definition field :: "string \<times> string \<Rightarrow> string" where
  "field f = fst f @ ''='' @ snd f"

lemma audit_line_Join: "audit_line a = Join '' '' (map field (audit_fields a))"
  by (cases "ka_err a") (simp_all add: audit_line_def audit_fields_def field_def Join_sep_concat)

text \<open>Plain text: no blank, and nothing outside printable ASCII.\<close>

definition word_char :: "char \<Rightarrow> bool" where
  "word_char c = (0x20 < byte c \<and> byte c < 0x7F)"

definition clean_value :: "string \<Rightarrow> bool" where
  "clean_value s = (SP \<notin> set s \<and> control_free s)"

lemma clean_ascii: "list_all word_char s \<Longrightarrow> clean_value s"
proof -
  assume s: "list_all word_char s"
  then have "list_all (\<lambda>c. 0x20 \<le> byte c \<and> byte c < 0x7F) s" by (auto simp: word_char_def list_all_iff)
  moreover have "\<not> word_char SP" by (simp add: word_char_def byte_def)
  ultimately show ?thesis using s by (auto simp: clean_value_def list_all_iff intro: control_free_ascii)
qed

lemma digit_word: "is_digit c \<Longrightarrow> word_char c"
  by (simp add: is_digit_def word_char_def)

lemma dec_word: "list_all word_char (dec n)"
  using dec_digits digit_word by (auto simp: list_all_iff)

lemma frac_word: "list_all word_char (frac_str v n)"
proof -
  have w: "word_char (CHR ''0'')" "word_char (CHR ''.'')" by (simp_all add: word_char_def byte_def)
  have trim: "list_all word_char z \<Longrightarrow> list_all word_char (rev (dropWhile P (rev z)))" for P z
    by (simp add: list_all_iff) (metis set_dropWhileD set_rev)
  have z: "list_all word_char (replicate k (CHR ''0'') @ dec m)" for k m
    using dec_word [of m] w by (induction k) simp_all
  show ?thesis
    unfolding frac_str_def Let_def using trim [OF z] w by (simp del: rev_append)
qed

lemma Duration_word:
  assumes "d = 0 \<or> Second \<le> \<bar>d\<bar>"
  shows "list_all word_char (Duration_String d)"
proof -
  have w: "word_char (CHR ''-'')" "word_char (CHR ''0'')" "word_char (CHR ''s'')" "word_char (CHR ''m'')" "word_char (CHR ''h'')"
    by (simp_all add: word_char_def byte_def)
  define u where "u = nat \<bar>d\<bar>"
  have u: "u = 0 \<or> \<not> u < 1000" "u = 0 \<or> \<not> u < 1000000" "u = 0 \<or> \<not> u < 1000000000"
    using assms by (auto simp: u_def)
  show ?thesis
    unfolding Duration_String_def Let_def u_def [symmetric]
    using u by (cases "u = 0") (simp_all add: w dec_word frac_word)
qed

lemma round_second_large: "round_second d = 0 \<or> Second \<le> \<bar>round_second d\<bar>"
proof -
  have x: "x * Second = 0 \<or> Second \<le> \<bar>x * Second\<bar>" for x :: int by (cases "x = 0") (auto simp: abs_mult)
  show ?thesis
  proof (cases "d < 0")
    case True
    with x [of "(- d + 500000000) div Second"] show ?thesis by (simp add: round_second_def)
  next
    case False
    with x [of "(d + 500000000) div Second"] show ?thesis by (simp add: round_second_def)
  qed
qed

lemma clean_Sanitize: "clean_value (Sanitize s n)"
  by (simp add: clean_value_def Sanitize_no_space control_free_Sanitize)

lemma clean_valueOrDash: "clean_value (valueOrDash v)"
  using clean_ascii [of "''-''"] clean_Sanitize
  by (simp add: valueOrDash_def sanitize_def Let_def word_char_def byte_def)

lemma clean_field: "list_all word_char k \<Longrightarrow> clean_value v \<Longrightarrow> clean_value (field (k, v))"
proof -
  assume "list_all word_char k" "clean_value v"
  moreover have "list_all word_char ''=''" by (simp add: word_char_def byte_def)
  ultimately have "clean_value k" "clean_value v" "clean_value ''=''" using clean_ascii by blast+
  then show ?thesis
    unfolding field_def clean_value_def fst_conv snd_conv set_append by (blast intro: control_free_append)
qed

lemma audit_fields_clean: "f \<in> set (audit_fields a) \<Longrightarrow> clean_value (field f)"
proof -
  assume f: "f \<in> set (audit_fields a)"
  have "list_all word_char (fst f) \<and> clean_value (snd f)"
    using f clean_Sanitize clean_valueOrDash clean_ascii [OF dec_word] clean_ascii [of "''true''"]
      clean_ascii [OF Duration_word [OF round_second_large]]
    unfolding audit_fields_def
    by (auto simp: sanitize_def word_char_def byte_def split: if_splits option.splits)
  then show ?thesis using clean_field [of "fst f" "snd f"] by simp
qed

section \<open>One login\<close>

text \<open>Everything before the query: the configuration, the client and the assertion to ask with.\<close>

definition prepare :: "('h, 'w) sshlibs \<Rightarrow> env \<Rightarrow> string \<Rightarrow> 'w proc
    \<Rightarrow> (go_error + (Config \<times> 'h Provider.Client \<times> string)) \<times> 'w proc" where
  "prepare L env account p =
     (if \<not> validAccount account then (Inl (errors_New ''not a plausible local account name''), p)
      else case loadConfig L env p of
        ((Inl e, file), p1) \<Rightarrow> (Inl e, p1)
      | ((Inr cfg, file), p1) \<Rightarrow>
          if c_HostID cfg = [] then
            (Inl (errors_New ''host is not enrolled (no host_id in the configuration)''), p1)
          else (let base = ResolveBase (c_APIBase cfg) (c_Issuer cfg) [] in
            case newProviderClient (sl_go L) cfg base of
              Inl e \<Rightarrow> (Inl e, p1)
            | Inr client \<Rightarrow> (case on_os (Hostid.Load (sl_keys L) (c_IdentityKey cfg)) p1 of
              (Inl e, p2) \<Rightarrow> (Inl e, p2)
            | (Inr i, p2) \<Rightarrow> (case Assertion (sl_keys L) i (c_HostID cfg) base (fe_Now env) (sl_random L) of
              Inl e \<Rightarrow> (Inl e, p2)
            | Inr assertion \<Rightarrow> (Inr (cfg, client, assertion), p2)))))"

definition ask :: "('h, 'w) sshlibs \<Rightarrow> Config \<Rightarrow> 'h Provider.Client \<Rightarrow> string \<Rightarrow> string \<Rightarrow> string \<Rightarrow> 'w
    \<Rightarrow> (go_error + Keys) \<times> 'w" where
  "ask L cfg client assertion account fingerprint =
     FetchAuthorizedKeys (sl_go L) (sl_provider L) client assertion account fingerprint (c_SessionEnv cfg)"

lemma fetchKeys_prepare:
  "fetchKeys L env a p =
     (case prepare L env (ka_account a) p of
        (Inl e, p1) \<Rightarrow> (([], audit_fail a e), p1)
      | (Inr (cfg, client, assertion), p1) \<Rightarrow>
          (case on_net (ask L cfg client assertion (ka_account a) (ka_fingerprint a)) p1 of
             (Inl e, p2) \<Rightarrow> keysAfterError L cfg a e p2
           | (Inr keys, p2) \<Rightarrow> keysAnswered L cfg a keys p2))"
  by (simp add: fetchKeys_def prepare_def ask_def Let_def split: prod.split sum.split)

text \<open>Looking for the configuration and the key changes nothing on the disk and prints nothing.\<close>

lemma dsk_reads [simp]:
  "dsk (snd (os_ReadFile q w)) = dsk w" "dsk (snd (os_Stat q w)) = dsk w"
  by (simp_all add: os_ReadFile_def os_Stat_def)

lemma find_loop_dsk [simp]: "dsk (snd (find_loop qs w)) = dsk w"
proof (induction qs arbitrary: w)
  case (Cons q qs)
  obtain r w1 where 1: "os_Stat q w = (r, w1)" by fastforce
  then have "dsk w1 = dsk w" using dsk_reads(2) [of q w] by simp
  with Cons 1 show ?case by (simp split: sum.split)
qed simp

lemma FindDefault_dsk [simp]: "dsk (snd (FindDefault w)) = dsk w"
proof -
  obtain r w1 where 1: "find_loop defaultPaths w = (r, w1)" by fastforce
  then show ?thesis using find_loop_dsk [of defaultPaths w]
    by (simp add: FindDefault_def findFirst_def split: option.split)
qed

lemma Load_dsk [simp]:
  "dsk (snd (Config.Load G yaml h q w)) = dsk w" "dsk (snd (Hostid.Load K q w)) = dsk w"
proof -
  obtain r w1 where 1: "os_ReadFile q w = (r, w1)" by fastforce
  then have "dsk w1 = dsk w" using dsk_reads(1) [of q w] by simp
  with 1 show "dsk (snd (Config.Load G yaml h q w)) = dsk w" "dsk (snd (Hostid.Load K q w)) = dsk w"
    by (simp_all add: Config.Load_def Hostid.Load_def split: sum.split)
qed

definition quiet :: "'w proc \<Rightarrow> 'w proc \<Rightarrow> bool" where
  "quiet p q = (same_streams p q \<and> dsk (ps_os p) = dsk (ps_os q))"

lemma quiet_refl [simp]: "quiet p p"
  by (simp add: quiet_def)

lemma quiet_trans: "quiet p q \<Longrightarrow> quiet q r \<Longrightarrow> quiet p r"
  using same_streams_trans by (auto simp: quiet_def)

lemma quiet_on_os: "on_os f p = (r, q) \<Longrightarrow> (\<And>w. dsk (snd (f w)) = dsk w) \<Longrightarrow> quiet p q"
  using same_streams_on(1) [of p f] on_os_simps(5) [of f p] by (simp add: quiet_def)

lemma quiet_on_net: "on_net f p = (r, q) \<Longrightarrow> quiet p q \<and> ps_os q = ps_os p"
  using same_streams_on(2) [of p f] on_net_simps(1) [of f p] by (simp add: quiet_def)

lemma configPath_quiet: "configPath env p = (r, q) \<Longrightarrow> quiet p q"
  using quiet_on_os [of FindDefault p r q] by (auto simp: configPath_def split: if_splits)

lemma loadConfig_quiet: "loadConfig L env p = (r, q) \<Longrightarrow> quiet p q"
proof -
  assume load: "loadConfig L env p = (r, q)"
  obtain x p1 where 1: "configPath env p = (x, p1)" by fastforce
  note q1 = configPath_quiet [OF 1]
  show ?thesis
  proof (cases x)
    case (Inr pth)
    obtain y p2 where 2: "on_os (Config.Load (sl_go L) (sl_yaml L) (sl_hostname L) pth) p1 = (y, p2)" by fastforce
    from quiet_trans [OF q1 quiet_on_os [OF 2]] have "quiet p p2" by simp
    with load 1 2 Inr show ?thesis by (simp add: loadConfig_def split: sum.splits)
  qed (use load 1 q1 in \<open>simp add: loadConfig_def\<close>)
qed

lemma prepare_quiet: "prepare L env account p = (r, q) \<Longrightarrow> quiet p q"
proof -
  assume prep: "prepare L env account p = (r, q)"
  obtain x pth p1 where 1: "loadConfig L env p = ((x, pth), p1)" by (metis prod.exhaust)
  note q1 = loadConfig_quiet [OF 1]
  show ?thesis
  proof (cases "validAccount account")
    case valid: True
    show ?thesis
    proof (cases x)
      case (Inr cfg)
      obtain y p2 where 2: "on_os (Hostid.Load (sl_keys L) (c_IdentityKey cfg)) p1 = (y, p2)" by fastforce
      from quiet_trans [OF q1 quiet_on_os [OF 2]] have q2: "quiet p p2" by simp
      show ?thesis using prep q1 q2 unfolding prepare_def
        by (simp add: valid 1 Inr 2 Let_def split: if_splits sum.splits)
    qed (use prep valid 1 q1 in \<open>simp add: prepare_def\<close>)
  qed (use prep in \<open>auto simp: prepare_def\<close>)
qed

text \<open>What a login asked, with the configuration it used: \<open>None\<close> when it asked nothing.\<close>

definition asked :: "('h, 'w) sshlibs \<Rightarrow> env \<Rightarrow> string \<Rightarrow> string \<Rightarrow> 'w proc \<Rightarrow> (Config \<times> (go_error + Keys)) option" where
  "asked L env account fingerprint p =
     (case prepare L env account p of
        (Inl e, p1) \<Rightarrow> None
      | (Inr (cfg, client, assertion), p1) \<Rightarrow>
          Some (cfg, fst (ask L cfg client assertion account fingerprint (ps_net p1))))"

lemma fetchKeys_run:
  assumes "fetchKeys L env a p = ((ls, a'), p')"
  obtains
    (denied) "ls = []" "quiet p p'" "ka_result a' \<noteq> resultCache"
  | (answered) cfg keys w r where "asked L env (ka_account a) (ka_fingerprint a) p = Some (cfg, Inr keys)"
      "dsk w = dsk (ps_os p)" "ls = k_Lines keys" "same_streams p p'" "ka_result a' \<noteq> resultCache"
      "Put (sl_go L) (newCache cfg) (sl_wall L) (ka_account a) (ka_fingerprint a) ls w = (r, ps_os p')"
  | (cached) cfg e w x where "asked L env (ka_account a) (ka_fingerprint a) p = Some (cfg, Inl e)"
      "Is e ErrUnavailable" "dsk w = dsk (ps_os p)" "same_streams p p'"
      "Get (sl_go L) (newCache cfg) (sl_wall L) (ka_account a) (ka_fingerprint a) w = (x, ps_os p')"
      "case x of None \<Rightarrow> ls = [] \<and> ka_result a' \<noteq> resultCache | Some y \<Rightarrow> y = (ls, ka_age a') \<and> ka_result a' = resultCache"
proof -
  obtain x p1 where 1: "prepare L env (ka_account a) p = (x, p1)" by fastforce
  note q1 = prepare_quiet [OF 1]
  note fetch = assms [unfolded fetchKeys_prepare 1 prod.case]
  show thesis
  proof (cases x)
    case (Inl e)
    with fetch q1 show thesis by (intro denied) (auto simp: audit_fail_def result_defs)
  next
    case (Inr y)
    obtain cfg client assertion where y: "y = (cfg, client, assertion)" by (metis prod.exhaust)
    let ?ask = "ask L cfg client assertion (ka_account a) (ka_fingerprint a)"
    obtain z p2 where 2: "on_net ?ask p1 = (z, p2)" by fastforce
    have z: "asked L env (ka_account a) (ka_fingerprint a) p = Some (cfg, z)"
      using 1 Inr y 2 on_net_simps(6) [of ?ask p1] by (simp add: asked_def)
    have q2: "quiet p p2" "same_streams p p2" "dsk (ps_os p2) = dsk (ps_os p)"
      using quiet_trans [OF q1 conjunct1 [OF quiet_on_net [OF 2]]] by (simp_all add: quiet_def)
    show thesis
    proof (cases z)
      case err: (Inl e)
      note run = fetch [unfolded Inr y sum.case prod.case 2 err keysAfterError_def]
      show thesis
      proof (cases "(Is e ErrUnauthorized \<or> Is e ErrForbidden) \<or> \<not> Is e ErrUnavailable")
        case True
        with run q2(1) show thesis
          by (intro denied) (auto simp: audit_fail_def result_defs split: if_splits)
      next
        case False
        let ?get = "Get (sl_go L) (newCache cfg) (sl_wall L) (ka_account a) (ka_fingerprint a)"
        obtain g p3 where 3: "on_os ?get p2 = (g, p3)" by fastforce
        have g: "?get (ps_os p2) = (g, ps_os p3)" "same_streams p p3"
          using 3 on_os_simps(5,6) [of ?get p2] same_streams_trans [OF q2(2) same_streams_on(1) [of p2 ?get]]
          by (simp_all add: prod_eq_iff)
        have "p' = p3 \<and> (case g of None \<Rightarrow> ls = [] \<and> ka_result a' \<noteq> resultCache
            | Some y \<Rightarrow> y = (ls, ka_age a') \<and> ka_result a' = resultCache)"
          using run False 3 by (auto simp: audit_fail_def result_defs split: option.splits)
        then show thesis using cached [of cfg e "ps_os p2" g] q2(3) g z err False by blast
      qed
    next
      case ok: (Inr keys)
      let ?put = "Put (sl_go L) (newCache cfg) (sl_wall L) (ka_account a) (ka_fingerprint a) (k_Lines keys)"
      note run = fetch [unfolded Inr y sum.case prod.case 2 ok keysAnswered_def Let_def]
      obtain r p3 where 3: "on_os ?put p2 = (r, p3)" by fastforce
      have r: "?put (ps_os p2) = (r, ps_os p3)" "same_streams p p3"
        using 3 on_os_simps(5,6) [of ?put p2] same_streams_trans [OF q2(2) same_streams_on(1) [of p2 ?put]]
        by (simp_all add: prod_eq_iff)
      show thesis
      proof (cases "k_Lines keys = []")
        case True
        have "?put (ps_os p2) = (None, ps_os p2)" using True Put_no_effect(1) by simp
        moreover have "ls = []" "p' = p2" "ka_result a' \<noteq> resultCache" using run True by (auto simp: result_defs)
        ultimately show thesis using answered [of cfg keys "ps_os p2" None] z ok q2 True by simp
      next
        case False
        then have "ls = k_Lines keys \<and> p' = p3 \<and> ka_result a' \<noteq> resultCache"
          using run 3 by (auto simp: result_defs split: option.splits)
        then show thesis using answered [of cfg keys "ps_os p2" r] z ok q2(3) r by blast
      qed
    qed
  qed
qed

text \<open>Every account the cache takes is one this command acts on, and not the other way round: an answer
  for a name with a capital letter or a dot, or of more than 32 characters, is served but never cached.\<close>

lemma cached_account_is_valid: "Keycache.accountRE a \<Longrightarrow> validAccount a"
  by (cases a) (auto simp: validAccount_def accountRE_def account_char_def list_all_iff)

lemma plain_account:
  assumes "Keycache.accountRE a" "d \<in> set a"
  shows "is_lower d \<or> is_digit d \<or> d = CHR ''_'' \<or> d = CHR ''-''"
  using assms by (cases a) (auto simp: list_all_iff)

lemma valid_account_not_cached:
  assumes "CHR ''.'' \<in> set a \<or> list_ex is_upper a \<or> 32 < length a"
  shows "\<exists>e. path L c a fp = Inl e \<and> Is e ErrAccount"
proof -
  have "\<not> Keycache.accountRE a"
  proof
    assume a: "Keycache.accountRE a"
    then have "length a \<le> 32" by (cases a) simp_all
    with assms plain_account [OF a] show False
      by (fastforce simp: list_ex_iff is_lower_def is_upper_def is_digit_def byte_def)
  qed
  then show ?thesis by (simp add: path_def)
qed

section \<open>The lines of an answer\<close>

definition served_shape :: "string list \<Rightarrow> bool" where
  "served_shape ls = (length ls \<le> 100 \<and> plain_lines ls
     \<and> list_all (\<lambda>l. TrimSpace l \<noteq> [] \<and> list_all (\<lambda>r. \<not> (r \<noteq> 9 \<and> IsControl r)) (runes l)) ls)"

lemma served_shape_Nil [simp]: "served_shape []"
  by (simp add: served_shape_def plain_lines_def)

lemma parseKeys_shape: "served_shape (k_Lines (parseKeys E b t))"
proof -
  have l: "NL \<notin> set l" "\<not> HasSuffix l [CR]" "TrimSpace l \<noteq> []" "l \<noteq> []"
      "list_all (\<lambda>r. \<not> (r \<noteq> 9 \<and> IsControl r)) (runes l)"
    if "l \<in> set (k_Lines (parseKeys E b t))" for l
  proof -
    have "l \<in> set (candidates b)" "validKeyLine E l" using that by (auto simp: parseKeys_lines dest!: in_set_takeD)
    then show "NL \<notin> set l" "\<not> HasSuffix l [CR]" "TrimSpace l \<noteq> []" "l \<noteq> []"
      "list_all (\<lambda>r. \<not> (r \<noteq> 9 \<and> IsControl r)) (runes l)"
      using candidate_shape [of l b] by (simp_all add: validKeyLine_def list_all_iff)
  qed
  have "length (k_Lines (parseKeys E b t)) \<le> 100" by (simp add: parseKeys_lines)
  with l show ?thesis unfolding served_shape_def plain_lines_def list_all_iff by blast
qed

lemma Fetch_shape: "FetchAuthorizedKeys G E c as a fp en w = (Inr keys, w') \<Longrightarrow> served_shape (k_Lines keys)"
  by (auto simp: FetchAuthorizedKeys_def Let_def keys_answer_def parseKeys_shape
      split: if_splits sum.splits prod.splits)

lemma asked_shape: "asked L env account fp p = Some (cfg, Inr keys) \<Longrightarrow> served_shape (k_Lines keys)"
  by (auto simp: asked_def ask_def prod_eq_iff split: sum.splits prod.splits
      intro!: Fetch_shape [of _ _ _ _ _ _ _ _ _ "snd (FetchAuthorizedKeys _ _ _ _ _ _ _ _)"])

section \<open>The life of a host\<close>

text \<open>What the provider granted at one login: the account, the fingerprint, when, and the lines.\<close>

type_synonym grant = "string \<times> string \<times> time \<times> string list"

definition grants :: "('h, 'w) sshlibs \<Rightarrow> env \<Rightarrow> string \<Rightarrow> string \<Rightarrow> 'w proc \<Rightarrow> grant list" where
  "grants L env account fp p =
     (case asked L env account fp p of
        Some (cfg, Inr keys) \<Rightarrow> [(account, fp, sl_wall L, k_Lines keys)] | _ \<Rightarrow> [])"

definition uses :: "Cache \<Rightarrow> (Config \<times> (go_error + Keys)) option \<Rightarrow> bool" where
  "uses c x = (case x of None \<Rightarrow> True | Some (cfg, r) \<Rightarrow> newCache cfg = c)"

text \<open>
  The history of a host: logins, each with a provider, a clock and system calls of its own, and
  between them whatever else happens to the machine, as long as nobody else makes up entries of
  the cache. The list holds what was granted so far.
\<close>

inductive host_run :: "('h, 'w) sshlibs \<Rightarrow> Cache \<Rightarrow> 'w proc \<Rightarrow> grant list \<Rightarrow> bool" for B c where
  boot: "disk_ok c (ps_os p) \<Longrightarrow> view (sl_go B) c (dsk (ps_os p)) = Map.empty \<Longrightarrow> host_run B c p []"
| login: "host_run B c p gs \<Longrightarrow> sl_go (L :: ('h, 'w) sshlibs) = sl_go B \<Longrightarrow> four_digit_year (sl_wall L) \<Longrightarrow>
    uses c (asked L (fill d e) account fp p) \<Longrightarrow>
    host_run B c (AuthorizedKeys L d e account fp p) (grants L (fill d e) account fp p @ gs)"
| other: "host_run B c p gs \<Longrightarrow> disk_ok c (ps_os q) \<Longrightarrow>
    (\<And>k. view (sl_go B) c (dsk (ps_os q)) k \<in> {view (sl_go B) c (dsk (ps_os p)) k, None}) \<Longrightarrow> host_run B c q gs"

definition accounted :: "golib \<Rightarrow> Cache \<Rightarrow> disk \<Rightarrow> grant list \<Rightarrow> bool" where
  "accounted G c d gs =
     (\<forall>k ls u. view G c d k = Some (ls, u) \<longrightarrow>
        served_shape ls \<and> (\<exists>a fp t. (a, fp, t, ls) \<in> set gs \<and> (a, entry_name fp) = k \<and> u = truncate_second t))"

lemma accounted_keep:
  "accounted G c d gs \<Longrightarrow> (\<And>k. view G c d' k \<in> {view G c d k, None}) \<Longrightarrow> set gs \<subseteq> set gs' \<Longrightarrow> accounted G c d' gs'"
  unfolding accounted_def by (metis (no_types, lifting) insertE option.distinct(1) singletonD subsetD)

lemma AuthorizedKeys_os:
  "fetchKeys L (fill d e) (new_audit account fp) p = ((ls, a), p1) \<Longrightarrow>
   ps_os (AuthorizedKeys L d e account fp p) = ps_os p1"
  by (simp add: AuthorizedKeys_def Let_def Log_def writeLines_def printf_def split: logger.split writer.split)

lemma view_same_disk: "dsk w = dsk w' \<Longrightarrow> view G c (dsk w) = view G c (dsk w')"
  by simp

lemma login_preserves:
  assumes "disk_ok c (ps_os p)" "accounted (sl_go L) c (dsk (ps_os p)) gs" "four_digit_year (sl_wall L)"
    and "uses c (asked L (fill d e) account fp p)"
  shows "disk_ok c (ps_os (AuthorizedKeys L d e account fp p))
    \<and> accounted (sl_go L) c (dsk (ps_os (AuthorizedKeys L d e account fp p))) (grants L (fill d e) account fp p @ gs)"
proof -
  let ?G = "sl_go L"
  obtain ls a p1 where 1: "fetchKeys L (fill d e) (new_audit account fp) p = ((ls, a), p1)" by (metis prod.exhaust)
  have acc: "ka_account (new_audit account fp) = account" "ka_fingerprint (new_audit account fp) = fp"
    by (simp_all add: new_audit_def)
  have gs: "set gs \<subseteq> set (grants L (fill d e) account fp p @ gs)" by simp
  have ok: "disk_ok c w" if "dsk w = dsk (ps_os p)" for w
    using assms(1) that by (simp add: disk_ok_def)
  have "disk_ok c (ps_os p1) \<and> accounted ?G c (dsk (ps_os p1)) (grants L (fill d e) account fp p @ gs)"
    using 1
  proof (cases rule: fetchKeys_run)
    case denied
    then have "dsk (ps_os p1) = dsk (ps_os p)" by (simp add: quiet_def)
    then show ?thesis using ok accounted_keep [OF assms(2) _ gs] by simp
  next
    case (cached cfg err w x)
    then have c: "newCache cfg = c" using assms(4) by (simp add: uses_def acc)
    have g: "snd (Get ?G c (sl_wall L) account fp w) = ps_os p1" using cached(5) c acc by simp
    have k: "view ?G c (dsk (ps_os p1)) k \<in> {view ?G c (dsk (ps_os p)) k, None}" for k
      using disk_cache.get_content [OF ok [OF cached(3)], where L = ?G and q = "(account, fp)" and t = "sl_wall L" and k = k]
        g cached(3) by simp
    have "disk_ok c (ps_os p1)"
      using disk_cache.get_inv [OF ok [OF cached(3)], where L = ?G and q = "(account, fp)" and t = "sl_wall L"] g by simp
    with accounted_keep [OF assms(2) k gs] show ?thesis by simp
  next
    case (answered cfg keys w r)
    then have c: "newCache cfg = c" using assms(4) by (simp add: uses_def acc)
    have shape: "served_shape ls" using asked_shape answered(1,3) by blast
    have new: "(account, fp, sl_wall L, ls) \<in> set (grants L (fill d e) account fp p @ gs)"
      using answered(1,3) acc by (simp add: grants_def)
    have put: "Put ?G c (sl_wall L) account fp ls w = (r, ps_os p1)" using answered(6) c acc by simp
    have inv: "disk_ok c (ps_os p1)"
      using disk_cache.put_inv [OF ok [OF answered(2)], where L = ?G and q = "(account, fp)" and t = "sl_wall L" and ls = ls] put by simp
    have k: "view ?G c (dsk (ps_os p1)) k \<in> {view ?G c (dsk (ps_os p)) k, None}
        \<or> (k = (account, entry_name fp) \<and> view ?G c (dsk (ps_os p1)) k = Some (ls, truncate_second (sl_wall L)))" for k
      using disk_cache.put_content [OF ok [OF answered(2)], where L = ?G and ls = ls and t = "sl_wall L"
          and q = "(account, fp)" and r = r and s' = "ps_os p1" and k = k]
        shape assms(3) put answered(2) by (auto simp: served_shape_def)
    have "accounted ?G c (dsk (ps_os p1)) (grants L (fill d e) account fp p @ gs)"
      unfolding accounted_def
    proof (intro allI impI)
      fix k us u
      assume v: "view ?G c (dsk (ps_os p1)) k = Some (us, u)"
      from k [of k] show "served_shape us \<and> (\<exists>a f t. (a, f, t, us) \<in> set (grants L (fill d e) account fp p @ gs)
          \<and> (a, entry_name f) = k \<and> u = truncate_second t)"
      proof
        assume "view ?G c (dsk (ps_os p1)) k \<in> {view ?G c (dsk (ps_os p)) k, None}"
        with v assms(2) gs show ?thesis unfolding accounted_def by fastforce
      next
        assume "k = (account, entry_name fp) \<and> view ?G c (dsk (ps_os p1)) k = Some (ls, truncate_second (sl_wall L))"
        then have "us = ls" "u = truncate_second (sl_wall L)" "(account, entry_name fp) = k" using v by auto
        with new shape show ?thesis by blast
      qed
    qed
    with inv show ?thesis ..
  qed
  then show ?thesis by (simp add: AuthorizedKeys_os [OF 1])
qed

lemma host_run_inv: "host_run B c p gs \<Longrightarrow> disk_ok c (ps_os p) \<and> accounted (sl_go B) c (dsk (ps_os p)) gs"
proof (induction rule: host_run.induct)
  case (login p gs L d e account fp)
  then show ?case using login_preserves [of c p L gs d e account fp] by simp
next
  case (other p gs q)
  then show ?case using accounted_keep [of "sl_go B" c "dsk (ps_os p)" gs "dsk (ps_os q)" gs] by blast
qed (simp add: accounted_def)

lemma AuthorizedKeys_out:
  assumes "fetchKeys L (fill d e) (new_audit account fp) p = ((ls, a), p1)" "fe_Stdout (fill d e) = Stream"
  shows "ps_out (AuthorizedKeys L d e account fp p) = ps_out p1 @ unlines ls"
  using assms by (auto simp: AuthorizedKeys_def Let_def Log_def writeLines_def printf_def unlines_def split: logger.split)

section \<open>A concrete host\<close>

definition sample_config :: rawConfig where
  "sample_config = \<lparr>r_Issuer = Some ''https://i'', r_ClientID = Some ''c'', r_Scope = Some ''openid'', r_DeviceName = Some ''n'',
     r_UsernameClaim = None, r_GroupsClaim = None, r_SessionEnv = None, r_Timeout = None, r_ClockSkew = None,
     r_HTTPTimeout = None, r_AllowInsecureHTTP = False, r_Users = [(''bob'', ''g'')], r_APIBase = Some ''https://i/a'',
     r_HostID = Some ''h1'', r_IdentityKey = Some ''/e/k'', r_CacheDir = Some ''/c'', r_CacheTTL = None\<rparr>"

definition sample_libs :: "int \<Rightarrow> string \<Rightarrow> time \<Rightarrow> (unit, nat) sshlibs" where
  "sample_libs status body now = \<lparr>sl_go = plain_lib, sl_yaml = (\<lambda>d. Inr sample_config), sl_hostname = Inr ''n'',
     sl_keys = plain_keys,
     sl_provider = canned (Inr \<lparr>rs_status = status, rs_ctype = [], rs_body = body, rs_body_err = None\<rparr>),
     sl_random = Inr [1, 2, 3], sl_wall = now\<rparr>"

definition sample_defaults :: defaults where
  "sample_defaults = \<lparr>df_Stdin = [], df_Now = 0, df_Geteuid = 0, df_Hostname = Inr ''n'', df_Executable = Inr ''/x''\<rparr>"

definition sample_Env :: Env where
  "sample_Env = \<lparr>ev_Stdout = Some Stream, ev_Stderr = None, ev_Stdin = None, ev_ConfigPath = ''/e/c'', ev_Log = Some Syslog,
     ev_Now = None, ev_Geteuid = None, ev_Hostname = None, ev_Executable = None\<rparr>"

definition sample_host :: "nat proc" where
  "sample_host = \<lparr>ps_os = calm \<lparr>ents = [(''/e/c'', FileEnt 0), (''/e/k'', FileEnt 1), (''/c'', DirEnt 448), (''/e'', DirEnt 493)],
       inodes = [\<lparr>i_mode = 416, i_owner = (0, 0), i_data = ''y''\<rparr>,
                 \<lparr>i_mode = 416, i_owner = (0, 0), i_data = replicate 79 (CHR ''k'')\<rparr>]\<rparr>,
     ps_net = 0, ps_out = [], ps_err = [], ps_log = []\<rparr>"

definition sample_cfg :: Config where
  "sample_cfg = \<lparr>c_Issuer = ''https://i'', c_ClientID = ''c'', c_Scope = ''openid'', c_DeviceName = ''n'',
     c_UsernameClaim = ''email'', c_GroupsClaim = ''groups'', c_SessionEnv = ''OIDC_USER'', c_Timeout = DefaultTimeout,
     c_ClockSkew = DefaultClockSkew, c_HTTPTimeout = DefaultHTTPTimeout, c_AllowInsecureHTTP = False,
     c_Users = [(''bob'', ''g'')], c_APIBase = ''https://i/a'', c_HostID = ''h1'', c_IdentityKey = ''/e/k'',
     c_CacheDir = ''/c'', c_CacheTTL = DefaultCacheTTL\<rparr>"

lemma sample_parse: "parseWithHostname plain_lib (\<lambda>d. Inr sample_config) s (Inr ''n'') = Inr sample_cfg"
proof -
  have u: "normaliseUsers plain_lib [(''bob'', ''g'')] = Inr [(''bob'', ''g'')]"
    by (simp add: normaliseUsers_iff entry_ok_def trim_entry_def TrimSpace_plain byte_def)
  have url: "validateURL plain_lib v False f s = None" if "v \<in> {''https://i'', ''https://i/a''}" for v f s
    using that by (auto simp: validateURL_iff url_ok_def url_simps Contains_def)
  have host: "runes ''h1'' = [104, 49]"
    using runes_map_byte [of "''h1''"] by (simp add: ascii_def byte_def)
  show ?thesis
    by (simp add: parseWithHostname_def decode_def apply_defaults_def sample_config_def deref_def TrimSpace_plain byte_def
        parseDuration_def expandHostname_def hostnamePlaceholder_def Contains_def HasPrefix_def validate_def
        validateIssuer_def url u sessionEnvPattern_def is_alpha_def host isSpaceOrControl_def filepath_IsAbs_def
        DefaultTimeout_def DefaultHTTPTimeout_def DefaultClockSkew_def DefaultCacheTTL_def sample_cfg_def
        DefaultUsernameClaim_def DefaultGroupsClaim_def DefaultSessionEnv_def)
qed

lemma sample_uses: "uses \<lparr>c_dir = ''/c'', c_ttl = DefaultCacheTTL\<rparr> (asked (sample_libs st b now) env account fp p)"
proof -
  have "cfg = sample_cfg" if "loadConfig (sample_libs st b now) env p = ((Inr cfg, f), p1)" for cfg f p1
    using that by (auto simp: loadConfig_def on_os_def Config.Load_def Parse_def sample_libs_def sample_parse
        split: sum.splits prod.splits)
  then show ?thesis
    by (auto simp: uses_def asked_def prepare_def Let_def newCache_def sample_cfg_def split: if_splits sum.splits prod.splits)
qed

lemma sample_first:
  "grants (sample_libs 200 ''k1'' 1500000000) (fill sample_defaults sample_Env) ''bob'' ''x'' sample_host
    = [(''bob'', ''x'', 1500000000, [''k1''])]"
proof -
  let ?L = "sample_libs 200 ''k1'' 1500000000" and ?env = "fill sample_defaults sample_Env"
  have b: "validAccount ''bob''"
    by (simp add: validAccount_def accountRE_def account_char_def is_lower_def byte_def)
  have ts: "TrimSpace ''https://i/a'' = ''https://i/a''" "TrimSpace ''https://i'' = ''https://i''" "TrimSpace ''bob'' = ''bob''"
    by (simp_all add: TrimSpace_plain byte_def)
  have cp: "configPath ?env p = (Inr ''/e/c'', p)" for p :: "nat proc"
    by (simp add: configPath_def fill_def sample_Env_def)
  define p1 where "p1 = sample_host\<lparr>ps_os := advance (dsk (ps_os sample_host)) (ps_os sample_host)\<rparr>"
  have load: "loadConfig ?L ?env sample_host = ((Inr sample_cfg, ''/e/c''), p1)"
    by (simp add: loadConfig_def cp on_os_def Config.Load_def Parse_def sample_libs_def sample_parse sample_host_def
        calm_def os_ReadFile_def observe_def fault_def file_at_def ent_def p1_def)
  have base: "ResolveBase (c_APIBase sample_cfg) (c_Issuer sample_cfg) [] = ''https://i/a''"
    by (simp add: ResolveBase_def sample_cfg_def ts)
  define cl where "cl = (\<lparr>cl_base = ''https://i/a'', cl_endpoint = ''https://i/a'', cl_http = NoRedirectClient DefaultHTTPTimeout\<rparr> :: unit Provider.Client)"
  have new: "newProviderClient plain_lib sample_cfg ''https://i/a'' = Inr cl"
    by (simp add: newProviderClient_def Provider.New_def Let_def ts url_simps Contains_def sample_cfg_def cl_def
        DefaultHTTPTimeout_def TrimSuffix_def)
  have key: "\<exists>i. fst (Hostid.Load plain_keys ''/e/k'' (ps_os p1)) = Inr i"
    by (simp add: Hostid.Load_def p1_def sample_host_def calm_def os_ReadFile_def observe_def fault_def file_at_def ent_def
        advance_def plain_keys_simps load_ed25519_def PrivateKeySize_def newIdentity_def Let_def)
  then obtain i p2 where key: "on_os (Hostid.Load plain_keys ''/e/k'') p1 = (Inr i, p2)"
    by (auto simp: on_os_def prod_eq_iff split: prod.split)
  have "RawURLEncoding [1, 2, 3] = ''AQID''" by code_simp
  then have jwt: "Assertion plain_keys i ''h1'' ''https://i/a'' t (Inr [1, 2, 3]) = Inr ''AQID''" for t
    by (simp add: Assertion_def plain_keys_simps assertion_claims_def Let_def del: RawURLEncoding.simps)
  let ?E = "canned (Inr \<lparr>rs_status = 200, rs_ctype = [], rs_body = ''k1'', rs_body_err = None\<rparr>)"
  have "k_Lines (parseKeys ?E ''k1'' False) = [''k1'']" by code_simp
  moreover have "fst (ask ?L sample_cfg cl ''AQID'' ''bob'' ''x'' n) = Inr (parseKeys ?E ''k1'' False)" for n
    by (simp add: ask_def FetchAuthorizedKeys_def ts TrimSpace_plain byte_def keys_request_def keys_query_def
        Values_Encode_def encode_pair_def QueryEscape_def escape_byte_def query_plain_def url_simps cl_def sample_cfg_def
        sample_libs_def canned_def keys_answer_def readLimited_def readAll_def MaxKeysBytes_def Let_def)
  moreover have "prepare ?L ?env ''bob'' sample_host = (Inr (sample_cfg, cl, ''AQID''), p2)"
    using b load base new key jwt unfolding prepare_def by (simp add: sample_libs_def sample_cfg_def)
  ultimately show ?thesis by (simp add: grants_def asked_def sample_libs_def)
qed

section \<open>Properties\<close>

text \<open>C2: whatever sshd is given was granted by the provider. Over any history of logins and other
  events, what a login prints is a list of at most 100 well-formed key lines that is either
  empty, or the answer of the provider to this very query, or, only when the query failed as
  unavailable, an answer the provider gave at an earlier login for the same account and the same
  cache entry not longer than cache_ttl ago.\<close>

theorem served_keys_were_granted:
  assumes "host_run B c p gs" "sl_go L = sl_go B" "uses c (asked L (fill d e) account fp p)"
    and "fe_Stdout (fill d e) = Stream"
  shows "\<exists>ls. ps_out (AuthorizedKeys L d e account fp p) = ps_out p @ unlines ls \<and> served_shape ls
    \<and> (ls = [] \<or> (account, fp, sl_wall L, ls) \<in> set (grants L (fill d e) account fp p)
       \<or> (\<exists>cfg err fp' t. asked L (fill d e) account fp p = Some (cfg, Inl err) \<and> Is err ErrUnavailable
            \<and> (account, fp', t, ls) \<in> set gs \<and> entry_name fp' = entry_name fp
            \<and> 0 \<le> time_Sub (sl_wall L) (truncate_second t) \<and> time_Sub (sl_wall L) (truncate_second t) \<le> c_ttl c))"
proof -
  obtain ls a p1 where 1: "fetchKeys L (fill d e) (new_audit account fp) p = ((ls, a), p1)" by (metis prod.exhaust)
  note inv = host_run_inv [OF assms(1)]
  have acc: "ka_account (new_audit account fp) = account" "ka_fingerprint (new_audit account fp) = fp"
    by (simp_all add: new_audit_def)
  note out = AuthorizedKeys_out [OF 1 assms(4)]
  from 1 show ?thesis
  proof (cases rule: fetchKeys_run)
    case denied
    then show ?thesis using out by (intro exI [of _ "[]"]) (simp add: quiet_def same_streams_def)
  next
    case (answered cfg keys w r)
    then show ?thesis using out acc asked_shape
      by (intro exI [of _ ls]) (auto simp: grants_def same_streams_def)
  next
    case (cached cfg err w x)
    have o: "ps_out (AuthorizedKeys L d e account fp p) = ps_out p @ unlines ls"
      using out cached(4) by (simp add: same_streams_def)
    show ?thesis
    proof (cases x)
      case None
      then show ?thesis using o cached(6) by (intro exI [of _ "[]"]) simp
    next
      case (Some y)
      have c: "newCache cfg = c" using assms(3) cached(1) acc by (simp add: uses_def)
      have "disk_ok c w" using inv cached(3) by (simp add: disk_ok_def)
      from disk_cache.get_fresh [OF this, where L = "sl_go B" and q = "(account, fp)" and t = "sl_wall L" and x = y and s' = "ps_os p1"]
      have f: "lookup_fresh (c_ttl c) (sl_wall L) (view (sl_go B) c (dsk (ps_os p)) (account, entry_name fp)) = Some (ls, ka_age a)"
        using cached(3,5,6) Some c acc assms(2) by simp
      then obtain u where u: "view (sl_go B) c (dsk (ps_os p)) (account, entry_name fp) = Some (ls, u)"
        "0 \<le> time_Sub (sl_wall L) u" "time_Sub (sl_wall L) u \<le> c_ttl c"
        by (auto simp: lookup_fresh_def split: option.splits if_splits)
      then obtain fp' t where "served_shape ls" "(account, fp', t, ls) \<in> set gs" "entry_name fp' = entry_name fp"
        "u = truncate_second t"
        using inv unfolding accounted_def by blast
      with o u cached(1,2) acc show ?thesis by (intro exI [of _ ls]) auto
    qed
  qed
qed

theorem served_keys_were_granted_witness:
  "let day = sample_libs 200 ''k1'' 1500000000; night = sample_libs 503 [] 4500000000;
       p1 = AuthorizedKeys day sample_defaults sample_Env ''bob'' ''x'' sample_host
   in \<exists>ls. ps_out (AuthorizedKeys night sample_defaults sample_Env ''bob'' ''x'' p1) = ps_out p1 @ unlines ls
        \<and> (ls = [] \<or> ls = [''k1''] \<or> grants night (fill sample_defaults sample_Env) ''bob'' ''x'' p1 \<noteq> [])"
proof -
  let ?day = "sample_libs 200 ''k1'' 1500000000" and ?night = "sample_libs 503 [] 4500000000"
  let ?c = "\<lparr>c_dir = ''/c'', c_ttl = DefaultCacheTTL\<rparr>"
  let ?p1 = "AuthorizedKeys ?day sample_defaults sample_Env ''bob'' ''x'' sample_host"
  have "wf_disk (dsk (ps_os sample_host))" by code_simp
  then have "disk_ok ?c (ps_os sample_host)" by (simp add: disk_ok_def filepath_IsAbs_def HasPrefix_def)
  moreover have "view (sl_go ?day) ?c (dsk (ps_os sample_host)) = Map.empty"
  proof
    fix k
    show "view (sl_go ?day) ?c (dsk (ps_os sample_host)) k = None"
    proof (cases "wf_key k")
      case True
      have "key_path ?c k = cache_prefix ?c @ fst k @ ''/'' @ snd k"
        by (rule key_path_shape) (use True in \<open>simp_all add: filepath_IsAbs_def HasPrefix_def\<close>)
      moreover have "cache_prefix ?c = ''/c/''" by code_simp
      ultimately show ?thesis
        by (auto simp: view_def read_file_def file_at_def ent_def sample_host_def)
    qed (simp add: view_def)
  qed
  ultimately have "host_run ?day ?c sample_host []" by (rule host_run.boot)
  moreover have "four_digit_year (sl_wall ?day)" by (simp add: sample_libs_def four_digit_year_def)
  ultimately have run: "host_run ?day ?c ?p1 [(''bob'', ''x'', 1500000000, [''k1''])]"
    using host_run.login [OF _ refl _ sample_uses [of 200 "''k1''" 1500000000 "fill sample_defaults sample_Env"]] sample_first
    by (metis append_Cons append_Nil)
  have "sl_go ?night = sl_go ?day" by (simp add: sample_libs_def)
  from served_keys_were_granted [OF run this sample_uses, of sample_defaults sample_Env "''bob''" "''x''"]
  show ?thesis unfolding Let_def by (auto simp: fill_def sample_Env_def or_default_def)
qed

text \<open>C31: the audit line cannot be forged: split at blanks it is a list of key=value fields whose keys
  come in a fixed order, account, fingerprint, result and lines always first, and the whole line
  is valid UTF-8 without control characters, whatever the account, the fingerprint, the served
  lines and the error contain.\<close>

theorem audit_line_unforgeable:
  "split_on SP (audit_line a) = map field (audit_fields a) \<and> control_free (audit_line a)
   \<and> map fst (audit_fields a) =
       [''account'', ''fingerprint'', ''result'', ''lines''] @ (if ka_users a = [] then [] else [''user''])
       @ (if ka_source a = [] then [] else [''source'', ''age'']) @ (if ka_dropped a = 0 then [] else [''dropped''])
       @ (if ka_capped a then [''capped''] else []) @ (if ka_truncated a then [''truncated''] else [])
       @ (if ka_err a = None then [] else [''err''])"
proof (intro conjI)
  have "map field (audit_fields a) \<noteq> []" by (simp add: audit_fields_def)
  then show "split_on SP (audit_line a) = map field (audit_fields a)"
    unfolding audit_line_Join using audit_fields_clean by (intro split_on_Join) (auto simp: clean_value_def)
  have "control_free '' ''" by (intro control_free_ascii) (simp add: byte_def)
  then show "control_free (audit_line a)"
    unfolding audit_line_Join using audit_fields_clean by (intro control_free_Join) (auto simp: clean_value_def)
  show "map fst (audit_fields a) =
       [''account'', ''fingerprint'', ''result'', ''lines''] @ (if ka_users a = [] then [] else [''user''])
       @ (if ka_source a = [] then [] else [''source'', ''age'']) @ (if ka_dropped a = 0 then [] else [''dropped''])
       @ (if ka_capped a then [''capped''] else []) @ (if ka_truncated a then [''truncated''] else [])
       @ (if ka_err a = None then [] else [''err''])"
    by (cases "ka_err a") (simp_all add: audit_fields_def)
qed

text \<open>C32: the identities that are logged are the first eight different non-empty values of the
  variable in the served lines, in order: none is repeated or invented, each stands in some line
  between the option's name and a closing quote, and without a variable none is logged.\<close>

theorem identitiesIn_spec:
  "identitiesIn ls envName =
     (if envName = [] then [] else take 8 (first_occurrences (concat (map (values_in envName) ls))))
   \<and> distinct (identitiesIn ls envName) \<and> length (identitiesIn ls envName) \<le> 8
   \<and> list_all (\<lambda>v. v \<noteq> [] \<and> DQ \<notin> set v \<and> list_ex (\<lambda>l. Contains l (env_prefix envName @ v @ [DQ])) ls)
       (identitiesIn ls envName)"
proof -
  let ?vs = "concat (map (values_in envName) ls)"
  have eq: "identitiesIn ls envName = (if envName = [] then [] else take 8 (first_occurrences ?vs))"
    by (simp add: identitiesIn_def take_firsts firsts_spec first_occurrences_def)
  have d: "distinct (first_occurrences ?vs)" by (simp add: first_occurrences_def)
  have "v \<noteq> [] \<and> DQ \<notin> set v \<and> list_ex (\<lambda>l. Contains l (env_prefix envName @ v @ [DQ])) ls"
    if "v \<in> set (first_occurrences ?vs)" for v
    using that values_in_sound by (auto simp: first_occurrences_def list_ex_iff)
  then show ?thesis unfolding eq using d by (auto simp: list_all_iff dest: in_set_takeD)
qed

end
