(* ===== verification/Helper.thy ===== *)
theory Helper
  imports Auth Hostid
begin

text \<open>
  The process behind the PAM module (\<^verbatim>\<open>src/cmd/oidc-ssh-helper/main.go\<close>): the line protocol with the
  module, the logger, the parameters that identify an enrolled host, the export of the session
  variables, and one attempt from the arguments to the result. A running helper changes a record
  \<open>helper\<close>: the files, the world behind the network, what the module has still to say on standard
  input, what was written to it, syslog and standard error. Recovery from a panic has no
  counterpart, the definitions are total; writes to the module do not fail. The lemmas show that
  no text can forge a line of the protocol, and what a reported success rests on.
\<close>

section \<open>The process\<close>

record 'w helper =
  hp_os :: os
  hp_net :: 'w
  hp_in :: string
  hp_out :: string
  hp_syslog :: "(Level \<times> string) list"
  hp_stderr :: string

definition on_world :: "('w \<Rightarrow> 'a \<times> 'w) \<Rightarrow> 'w helper \<Rightarrow> 'a \<times> 'w helper" where
  "on_world f h = (case f (hp_net h) of (r, w) \<Rightarrow> (r, h\<lparr>hp_net := w\<rparr>))"

definition on_files :: "(os \<Rightarrow> 'a \<times> os) \<Rightarrow> 'w helper \<Rightarrow> 'a \<times> 'w helper" where
  "on_files f h = (case f (hp_os h) of (r, w) \<Rightarrow> (r, h\<lparr>hp_os := w\<rparr>))"

text \<open>The OIDC libraries act on the world behind the network only.\<close>

definition lift_env :: "('h, 'p, 'w) oidc_env \<Rightarrow> ('h, 'p, 'w helper) oidc_env" where
  "lift_env X =
     \<lparr>ox_discover = (\<lambda>c i t. on_world (ox_discover X c i t)), ox_endpoints = ox_endpoints X, ox_ssh = ox_ssh X,
      ox_urls = ox_urls X, ox_device = (\<lambda>c o' t ps. on_world (ox_device X c o' t ps)),
      ox_token = (\<lambda>c o' t d ps. on_world (ox_token X c o' t d ps)),
      ox_verify = (\<lambda>c p v t raw. on_world (ox_verify X c p v t raw)),
      ox_now = (\<lambda>h. ox_now X (hp_net h)), ox_time = ox_time X\<rparr>"

text \<open>\<open>hl_random\<close> are the bytes read for a jti, \<open>hl_wall\<close> the time an assertion is issued.\<close>

record ('h, 'p, 'w) helperlibs =
  hl_go :: golib
  hl_yaml :: "string \<Rightarrow> string + rawConfig"
  hl_hostname :: "go_error + string"
  hl_keys :: key_lib
  hl_oidc :: "('h, 'p, 'w) oidc_env"
  hl_random :: "go_error + nat list"
  hl_wall :: time

section \<open>Constants\<close>

definition syslogTag :: string where "syslogTag = ''pam_oidc_ssh''"
definition discoveryTimeoutFactor :: int where "discoveryTimeoutFactor = 3"

definition codeSuccess :: string where "codeSuccess = ''success''"
definition codeIgnore :: string where "codeIgnore = ''ignore''"
definition codeAuthErr :: string where "codeAuthErr = ''auth_err''"
definition codeAuthinfoUnavail :: string where "codeAuthinfoUnavail = ''authinfo_unavail''"
definition codeUserUnknown :: string where "codeUserUnknown = ''user_unknown''"

definition reasonNoUser :: string where "reasonNoUser = ''no_user''"
definition reasonConfig :: string where "reasonConfig = ''config''"
definition reasonEnv :: string where "reasonEnv = ''invalid_env''"

lemmas code_defs = codeSuccess_def codeIgnore_def codeAuthErr_def codeAuthinfoUnavail_def codeUserUnknown_def

definition errInvalidEnv :: go_error where
  "errInvalidEnv = sentinel_error ErrInvalidEnv ''invalid environment value''"

definition intentLogin :: string where "intentLogin = ''login''"

section \<open>The line protocol\<close>

definition fold_newlines :: "string \<Rightarrow> string" where
  "fold_newlines s = map (\<lambda>c. if c = NL \<or> c = CR then SP else c) s"

definition protocol_line :: "char \<Rightarrow> string \<Rightarrow> 'w helper \<Rightarrow> 'w helper" where
  "protocol_line kind payload h =
     h\<lparr>hp_out := hp_out h @ [kind] @ '' '' @ fold_newlines payload @ [NL]\<rparr>"

text \<open>bufio.Reader.ReadString: up to and including the newline, or an error at the end of the input.\<close>

definition ReadString :: "'w helper \<Rightarrow> (go_error + string) \<times> 'w helper" where
  "ReadString h =
     (case IndexByte (hp_in h) NL of
        Some j \<Rightarrow> (Inr (take (Suc j) (hp_in h)), h\<lparr>hp_in := drop (Suc j) (hp_in h)\<rparr>)
      | None \<Rightarrow> (Inl (errors_New ''EOF''), h\<lparr>hp_in := []\<rparr>))"

definition protocol_Info :: "string \<Rightarrow> 'w helper \<Rightarrow> go_error option \<times> 'w helper" where
  "protocol_Info msg h = (None, protocol_line (CHR ''I'') (SanitizePrompt msg) h)"

definition protocol_Prompt :: "string \<Rightarrow> 'w helper \<Rightarrow> go_error option \<times> 'w helper" where
  "protocol_Prompt msg h =
     (case ReadString (protocol_line (CHR ''P'') (SanitizePrompt msg) h) of
        (Inl e, h') \<Rightarrow> (Some (wrapf ''prompt not acknowledged: '' e []), h')
      | (Inr s, h') \<Rightarrow> (None, h'))"

definition protocol_Ask :: "string \<Rightarrow> 'w helper \<Rightarrow> (go_error + string) \<times> 'w helper" where
  "protocol_Ask msg h =
     (case ReadString (protocol_line (CHR ''Q'') (SanitizePrompt msg) h) of
        (Inl e, h') \<Rightarrow> (Inl (wrapf ''prompt not answered: '' e []), h')
      | (Inr s, h') \<Rightarrow> (Inr (TrimRightBytes s [CR, NL]), h'))"

definition protocol :: "'w helper Prompter" where
  "protocol = \<lparr>pr_Info = protocol_Info, pr_Prompt = protocol_Prompt, pr_Ask = protocol_Ask\<rparr>"

definition protocol_env :: "string \<Rightarrow> string \<Rightarrow> 'w helper \<Rightarrow> 'w helper" where
  "protocol_env name v = protocol_line (CHR ''E'') (name @ ''='' @ v)"

definition protocol_result :: "string \<Rightarrow> string \<Rightarrow> 'w helper \<Rightarrow> 'w helper" where
  "protocol_result code reason = protocol_line (CHR ''R'') (code @ '' '' @ (if reason = [] then ''-'' else reason))"

section \<open>The logger\<close>

text \<open>\<open>lg_w\<close> is the connection to syslog, when it could be opened: whether it takes a message.\<close>

record logger =
  lg_w :: "(Level \<Rightarrow> string \<Rightarrow> bool) option"
  lg_debug :: bool
  lg_pid :: int

definition newLogger :: "go_error + (Level \<Rightarrow> string \<Rightarrow> bool) \<Rightarrow> int \<Rightarrow> bool \<Rightarrow> logger" where
  "newLogger conn pid debug =
     \<lparr>lg_w = (case conn of Inl e \<Rightarrow> None | Inr w \<Rightarrow> Some w), lg_debug = debug, lg_pid = pid\<rparr>"

definition logger_fallback :: "logger \<Rightarrow> Level \<Rightarrow> string \<Rightarrow> 'w helper \<Rightarrow> 'w helper" where
  "logger_fallback l level msg h =
     h\<lparr>hp_stderr := hp_stderr h @ syslogTag @ ''['' @ deci (lg_pid l) @ '']: <'' @ Level_String level @ ''> '' @ msg @ [NL]\<rparr>"

definition logger_log :: "logger \<Rightarrow> Level \<Rightarrow> string \<Rightarrow> 'w helper \<Rightarrow> 'w helper" where
  "logger_log l level msg h =
     (if level = LevelDebug \<and> \<not> lg_debug l then h
      else case lg_w l of
        None \<Rightarrow> logger_fallback l level msg h
      | Some w \<Rightarrow> if w level msg then h\<lparr>hp_syslog := hp_syslog h @ [(level, msg)]\<rparr> else logger_fallback l level msg h)"

definition debugf :: "logger \<Rightarrow> string \<Rightarrow> 'w helper \<Rightarrow> 'w helper" where
  "debugf l text h = (if \<not> lg_debug l then h else logger_log l LevelDebug (Sanitize text 0) h)"

definition noticef :: "logger \<Rightarrow> string \<Rightarrow> 'w helper \<Rightarrow> 'w helper" where
  "noticef l text = logger_log l LevelNotice (Sanitize text 0)"

definition logger_attempt :: "logger \<Rightarrow> Attempt \<Rightarrow> 'w helper \<Rightarrow> 'w helper" where
  "logger_attempt l a = logger_log l (LevelFor (at_Result a)) (Line a)"

section \<open>One attempt\<close>

definition helper_loadConfig :: "('h, 'p, 'w) helperlibs \<Rightarrow> string \<Rightarrow> 'w helper \<Rightarrow> (go_error + Config) \<times> 'w helper" where
  "helper_loadConfig L p =
     (if p = [] then on_files (LoadDefault (hl_go L) (hl_yaml L) (hl_hostname L))
      else on_files (Config.Load (hl_go L) (hl_yaml L) (hl_hostname L) p))"

definition sshAccessEndpoint :: "('h, 'p, 'w) oidc_env \<Rightarrow> ('h, 'p) Client \<Rightarrow> string" where
  "sshAccessEndpoint X client = sm_AccessEndpoint (SSH X client)"

definition deviceAuthParams :: "('h, 'p, 'w) helperlibs \<Rightarrow> Config \<Rightarrow> string \<Rightarrow> string \<Rightarrow> bool \<Rightarrow> 'w helper
    \<Rightarrow> (go_error + strmap option) \<times> 'w helper" where
  "deviceAuthParams L cfg account discoveryEndpoint confirmation h =
     (if c_HostID cfg = [] then (Inr None, h)
      else (let base = ResolveBase (c_APIBase cfg) (c_Issuer cfg) discoveryEndpoint in
        if base = [] then
          (Inl (errors_New ''no api_base, ssh_access_endpoint or issuer to address the assertion to''), h)
        else (case on_files (Hostid.Load (hl_keys L) (c_IdentityKey cfg)) h of
          (Inl e, h1) \<Rightarrow> (Inl e, h1)
        | (Inr i, h1) \<Rightarrow> (case Assertion (hl_keys L) i (c_HostID cfg) base (hl_wall L) (hl_random L) of
          Inl e \<Rightarrow> (Inl e, h1)
        | Inr assertion \<Rightarrow>
            (Inr (Some ([(''host_assertion'', assertion), (''account'', account), (''intent'', intentLogin)]
               @ (if confirmation then [(''confirmation_supported'', ''true'')] else []))), h1)))))"

fun export_loop :: "golib \<Rightarrow> strmap \<Rightarrow> string list \<Rightarrow> 'w helper \<Rightarrow> go_error option \<times> 'w helper" where
  "export_loop G env [] h = (None, h)"
| "export_loop G env (name # names) h =
     (let v = (case map_of env name of None \<Rightarrow> [] | Some x \<Rightarrow> x) in
      if \<not> ValidEnvValue name \<or> CHR ''='' \<in> set name \<or> SP \<in> set name then
        (Some (wrapf [] errInvalidEnv ('': variable name '' @ quoted G (Sanitize name MaxValueLen))), h)
      else if \<not> ValidEnvValue v then
        (Some (wrapf [] errInvalidEnv ('': '' @ name @ '' contains control characters or invalid UTF-8'')), h)
      else export_loop G env names (protocol_env name v h))"

definition exportEnv :: "golib \<Rightarrow> strmap \<Rightarrow> 'w helper \<Rightarrow> go_error option \<times> 'w helper" where
  "exportEnv G env = export_loop G env (sorted_keys env)"

definition new_attempt :: "('h, 'p, 'w) helperlibs \<Rightarrow> string \<Rightarrow> string \<Rightarrow> Attempt" where
  "new_attempt L user rhost =
     \<lparr>at_User = [], at_Subject = [], at_LocalUser = user, at_RHost = rhost,
      at_Host = (case hl_hostname L of Inl e \<Rightarrow> [] | Inr n \<Rightarrow> n), at_Result = [], at_Reason = [], at_Err = None\<rparr>"

text \<open>Logs the attempt with its outcome and returns what the module is told.\<close>

definition conclude :: "logger \<Rightarrow> Attempt \<Rightarrow> string \<Rightarrow> string \<Rightarrow> go_error option \<Rightarrow> string \<Rightarrow> 'w helper
    \<Rightarrow> (string \<times> string) \<times> 'w helper" where
  "conclude lg a result reason e code h =
     ((code, reason), logger_attempt lg (a\<lparr>at_Result := result, at_Reason := reason, at_Err := e\<rparr>) h)"

definition settle :: "golib \<Rightarrow> logger \<Rightarrow> Attempt \<Rightarrow> Result \<Rightarrow> 'w helper \<Rightarrow> (string \<times> string) \<times> 'w helper" where
  "settle G lg a0 res h =
     (let a = a0\<lparr>at_User := res_Username res, at_Subject := res_Subject res\<rparr> in
      case res_Code res of
        Success \<Rightarrow>
          (case exportEnv G (case res_Env res of None \<Rightarrow> [] | Some env \<Rightarrow> env) h of
             (Some e, h') \<Rightarrow> conclude lg a ResultDenied reasonEnv (Some e) codeAuthErr h'
           | (None, h') \<Rightarrow> ((codeSuccess, []),
               logger_attempt lg (a\<lparr>at_Result := ResultSuccess, at_Reason := res_Reason res, at_Err := res_Err res\<rparr>) h'))
      | Ignore \<Rightarrow> conclude lg a ResultIgnore (res_Reason res) (res_Err res) codeIgnore h
      | AuthErr \<Rightarrow> conclude lg a ResultDenied (res_Reason res) (res_Err res) codeAuthErr h
      | _ \<Rightarrow> conclude lg a ResultError (res_Reason res) (res_Err res) codeAuthinfoUnavail h)"

definition helper_auth :: "('h, 'p, 'w) helperlibs \<Rightarrow> Config \<Rightarrow> ('h, 'p) Client \<Rightarrow> strmap option \<Rightarrow> bool \<Rightarrow> 'w helper Authenticator" where
  "helper_auth L cfg client extra confirm =
     (let X = lift_env (hl_oidc L) in
      WithConfirmation
        (WithDeviceAuthParams (Auth.New (Some cfg) (oidc_flow (hl_go L) X client) (Some protocol) (ox_now X))
           (case extra of None \<Rightarrow> [] | Some ps \<Rightarrow> ps))
        (confirm \<and> extra \<noteq> None))"

text \<open>From discovery on.\<close>

definition login :: "('h, 'p, 'w) helperlibs \<Rightarrow> logger \<Rightarrow> Config \<Rightarrow> ('h, 'p) Client \<Rightarrow> string \<Rightarrow> Attempt \<Rightarrow> 'w helper
    \<Rightarrow> (string \<times> string) \<times> 'w helper" where
  "login L lg cfg client user a h =
     (let X = lift_env (hl_oidc L); confirm = sm_ConfirmationSupported (SSH X client);
          (extra, h1) = (case deviceAuthParams L cfg user (sshAccessEndpoint X client) confirm h of
              (Inl e, h') \<Rightarrow> (None, noticef lg (''continuing without a host assertion: '' @ err_msg e) h')
            | (Inr ps, h') \<Rightarrow> (ps, h'));
          h2 = (case extra of None \<Rightarrow> h1
            | Some ps \<Rightarrow> debugf lg (''device flow for host '' @ c_HostID cfg @ '', account '' @ user) h1);
          (res, h3) = Authenticate (hl_go L) (helper_auth L cfg client extra confirm) None user h2
      in settle (hl_go L) lg a res h3)"

definition helper_options :: "Config \<Rightarrow> 'h OidcClient.Options" where
  "helper_options cfg = \<lparr>oo_Issuer = c_Issuer cfg, oo_ClientID = c_ClientID cfg, oo_Scope = c_Scope cfg,
     oo_HTTPTimeout = c_HTTPTimeout cfg, oo_AllowInsecureHTTP = c_AllowInsecureHTTP cfg, oo_HTTPClient = None\<rparr>"

definition run :: "('h, 'p, 'w) helperlibs \<Rightarrow> logger \<Rightarrow> string \<Rightarrow> string \<Rightarrow> string \<Rightarrow> 'w helper
    \<Rightarrow> (string \<times> string) \<times> 'w helper" where
  "run L lg configPath user rhost h =
     (let a = new_attempt L user rhost; X = lift_env (hl_oidc L) in
      if user = [] then
        conclude lg a ResultError reasonNoUser (Some (errors_New ''empty PAM user'')) codeUserUnknown h
      else case helper_loadConfig L configPath h of
        (Inl e, h1) \<Rightarrow> conclude lg a ResultError reasonConfig (Some e) codeAuthinfoUnavail h1
      | (Inr cfg, h1) \<Rightarrow>
          (let h2 = debugf lg (''loaded '' @ configPath @ '' (issuer '' @ c_Issuer cfg @ '', '' @ dec (length (c_Users cfg))
              @ '' mapped users)'') h1 in
           case LookupUser (Some cfg) user of
             None \<Rightarrow> conclude lg a ResultIgnore ReasonNotMapped None codeIgnore h2
           | Some g \<Rightarrow>
               (case OidcClient.New (hl_go L) X (Some (ox_now X h2 + c_HTTPTimeout cfg * discoveryTimeoutFactor))
                   (helper_options cfg) h2 of
                  (Inl e, h3) \<Rightarrow>
                    conclude lg a ResultError ReasonProviderUnavailable (Some (wrapf ''discovery: '' e []))
                      codeAuthinfoUnavail (snd (protocol_Info MsgProviderUnavailable h3))
                | (Inr client, h3) \<Rightarrow>
                    login L lg cfg client user a
                      (debugf lg (''discovery ok for '' @ c_Issuer cfg @ '', starting device flow for '' @ user) h3))))"

text \<open>main, after the flags: run, report the result, flush.\<close>

definition main :: "('h, 'p, 'w) helperlibs \<Rightarrow> logger \<Rightarrow> string \<Rightarrow> string \<Rightarrow> string \<Rightarrow> 'w helper \<Rightarrow> 'w helper" where
  "main L lg configPath user rhost h =
     (case run L lg configPath user rhost h of ((code, reason), h') \<Rightarrow> protocol_result code reason h')"

section \<open>What a login keeps\<close>

text \<open>
  Whatever every operation of the flow and of the conversation keeps, the authenticator keeps: the
  interface between the authenticator and the process it runs in.
\<close>

locale login_session =
  fixes kept :: "'s \<Rightarrow> bool" and a :: "'s Authenticator"
  assumes start_kept: "kept s \<Longrightarrow> kept (snd (fl_StartDeviceAuth (au_flow a) ctx n ps s))"
    and wait_kept: "kept s \<Longrightarrow> kept (snd (fl_WaitForToken (au_flow a) ctx da c s))"
    and verify_kept: "kept s \<Longrightarrow> kept (snd (fl_VerifyIDToken (au_flow a) ctx raw uc gc skew s))"
    and info_kept: "kept s \<Longrightarrow> au_prompt a = Some p \<Longrightarrow> kept (snd (pr_Info p m s))"
    and prompt_kept: "kept s \<Longrightarrow> au_prompt a = Some p \<Longrightarrow> kept (snd (pr_Prompt p m s))"
    and ask_kept: "kept s \<Longrightarrow> au_prompt a = Some p \<Longrightarrow> kept (snd (pr_Ask p m s))"
begin

lemma info_keeps: "kept s \<Longrightarrow> kept (info a m s)"
  by (simp add: info_def info_kept split: option.split)

lemma decide_keeps: "kept s \<Longrightarrow> kept (snd (decide L a cfg u res i s))"
  by (simp add: decide_def Let_def info_keeps)

lemma redeem_keeps:
  assumes "kept s"
  shows "kept (snd (redeem L a cfg ctx u res tok s))"
proof (cases "IDTokenFrom tok")
  case (Inr raw)
  obtain r s1 where 1: "fl_VerifyIDToken (au_flow a) ctx raw (c_UsernameClaim cfg) (c_GroupsClaim cfg) (c_ClockSkew cfg) s = (r, s1)"
    by fastforce
  then have "kept s1" using verify_kept [OF assms, of ctx raw "c_UsernameClaim cfg" "c_GroupsClaim cfg" "c_ClockSkew cfg"] by simp
  then show ?thesis using decide_keeps by (cases r) (simp_all add: redeem_def Inr 1)
qed (simp add: redeem_def assms)

lemma askApproval_keeps: "kept s \<Longrightarrow> kept (snd (askApproval a da s))"
proof -
  assume "kept s"
  then have i: "kept (info a m (info a m' s))" for m m' by (simp add: info_keeps)
  show ?thesis
  proof (cases "au_prompt a")
    case (Some p)
    let ?uri = "if da_VerificationURIComplete da = [] then da_VerificationURI da else da_VerificationURIComplete da"
    define w1 where "w1 = info a (''  '' @ ?uri) (info a msgOpenURL s)"
    obtain r s1 where 1: "pr_Ask p (msgPinPromptFmt (da_UserCode da)) w1 = (r, s1)" by fastforce
    have "kept w1" by (simp add: w1_def i)
    then have "kept s1" "kept (snd (pr_Prompt p (msgCodePromptFmt (da_UserCode da)) w1))"
      using ask_kept [OF _ Some, of w1] prompt_kept [OF _ Some] 1 by (metis snd_conv)+
    then show ?thesis
      unfolding askApproval_def Let_def w1_def [symmetric] by (cases r) (simp_all add: Some 1)
  qed (simp add: askApproval_def Let_def i)
qed

lemma approve_keeps:
  assumes "kept s"
  shows "kept (snd (approve L a cfg ctx u res da s))"
proof (cases "expired a da s")
  case False
  obtain r s1 where 1: "askApproval a da s = (r, s1)" by fastforce
  have k1: "kept s1" using askApproval_keeps [OF assms, of da] 1 by simp
  show ?thesis
  proof (cases r)
    case (Inr pin)
    obtain t s2 where 2: "waitForToken a cfg ctx da pin s1 = (t, s2)" by fastforce
    have "kept s2" using wait_kept [OF k1] 2 by (metis snd_conv waitForToken_def)
    then show ?thesis
      by (cases t) (simp_all add: approve_def False 1 Inr 2 redeem_keeps waitFailure_def info_keeps)
  qed (simp add: approve_def False 1 info_keeps k1)
qed (simp add: approve_def assms info_keeps)

lemma Authenticate_keeps:
  assumes "kept s"
  shows "kept (snd (Authenticate L a ctx u s))"
proof (cases "au_cfg a")
  case (Some cfg)
  obtain r s1 where 1: "fl_StartDeviceAuth (au_flow a) ctx (c_DeviceName cfg) (au_deviceExtra a) s = (r, s1)" by fastforce
  have k1: "kept s1" using start_kept [OF assms] 1 by (metis snd_conv)
  show ?thesis
  proof (cases "LookupUser (Some cfg) u")
    case (Some g)
    then show ?thesis
      by (cases r) (auto simp: Authenticate_def \<open>au_cfg a = Some cfg\<close> 1 Let_def k1 info_keeps approve_keeps split: option.split)
  qed (simp add: Authenticate_def Some assms)
qed (simp add: Authenticate_def assms)

end

section \<open>Lines of the protocol\<close>

definition msg_line :: "string \<Rightarrow> string \<Rightarrow> bool" where
  "msg_line kinds l = (case l of k # s # t \<Rightarrow> k \<in> set kinds \<and> s = SP \<and> NL \<notin> set t \<and> CR \<notin> set t | _ \<Rightarrow> False)"

text \<open>The output of \<open>h'\<close> continues that of \<open>h\<close> by lines of these kinds.\<close>

definition says :: "string \<Rightarrow> 'w helper \<Rightarrow> 'w helper \<Rightarrow> bool" where
  "says kinds h h' = (\<exists>ls. hp_out h' = hp_out h @ unlines ls \<and> list_all (msg_line kinds) ls)"

lemma unlines_append: "unlines (as @ bs) = unlines as @ unlines bs"
  by (simp add: unlines_def)

lemma unlines_single: "unlines [l] = l @ [NL]"
  by (simp add: unlines_def)

lemma fold_newlines_clean: "NL \<notin> set (fold_newlines s)" "CR \<notin> set (fold_newlines s)"
  by (auto simp: fold_newlines_def)

lemma protocol_line_out: "hp_out (protocol_line k s h) = hp_out h @ unlines [k # SP # fold_newlines s]"
  by (simp add: protocol_line_def unlines_single)

lemma protocol_line_other [simp]:
  "hp_os (protocol_line k s h) = hp_os h" "hp_net (protocol_line k s h) = hp_net h" "hp_in (protocol_line k s h) = hp_in h"
  "hp_syslog (protocol_line k s h) = hp_syslog h" "hp_stderr (protocol_line k s h) = hp_stderr h"
  by (simp_all add: protocol_line_def)

lemma msg_line_fold: "k \<in> set kinds \<Longrightarrow> msg_line kinds (k # SP # fold_newlines s)"
  using fold_newlines_clean by (simp add: msg_line_def)

lemma says_refl [simp]: "says ks h h"
  by (auto simp: says_def unlines_def intro: exI [of _ "[]"])

lemma says_trans: "says ks h h' \<Longrightarrow> says ks h' h'' \<Longrightarrow> says ks h h''"
  unfolding says_def by (metis append_assoc list_all_append unlines_append)

lemma says_line: "says ks h h' \<Longrightarrow> k \<in> set ks \<Longrightarrow> says ks h (protocol_line k s h')"
proof -
  assume "says ks h h'" "k \<in> set ks"
  moreover have "says ks h' (protocol_line k s h')"
    using msg_line_fold [OF \<open>k \<in> set ks\<close>, of s] protocol_line_out [of k s h']
    unfolding says_def by (intro exI [of _ "[k # SP # fold_newlines s]"]) simp
  ultimately show ?thesis using says_trans by blast
qed

lemma says_same: "hp_out h'' = hp_out h' \<Longrightarrow> says ks h h' \<Longrightarrow> says ks h h''"
  by (simp add: says_def)

lemma ReadString_other [simp]:
  "hp_out (snd (ReadString h)) = hp_out h" "hp_os (snd (ReadString h)) = hp_os h" "hp_net (snd (ReadString h)) = hp_net h"
  by (simp_all add: ReadString_def split: option.split)

lemma on_world_other [simp]:
  "hp_out (snd (on_world f h)) = hp_out h" "hp_os (snd (on_world f h)) = hp_os h" "hp_in (snd (on_world f h)) = hp_in h"
  by (simp_all add: on_world_def split: prod.split)

lemma on_files_other [simp]:
  "hp_out (snd (on_files f h)) = hp_out h" "hp_net (snd (on_files f h)) = hp_net h" "hp_in (snd (on_files f h)) = hp_in h"
  by (simp_all add: on_files_def split: prod.split)

lemma logger_other [simp]:
  "hp_out (logger_log l lv m h) = hp_out h" "hp_net (logger_log l lv m h) = hp_net h" "hp_os (logger_log l lv m h) = hp_os h"
  by (simp_all add: logger_log_def logger_fallback_def split: option.split)

lemma logging_other [simp]:
  "hp_out (debugf l t h) = hp_out h" "hp_net (debugf l t h) = hp_net h" "hp_os (debugf l t h) = hp_os h"
  "hp_out (noticef l t h) = hp_out h" "hp_net (noticef l t h) = hp_net h" "hp_os (noticef l t h) = hp_os h"
  "hp_out (logger_attempt l a h) = hp_out h" "hp_net (logger_attempt l a h) = hp_net h" "hp_os (logger_attempt l a h) = hp_os h"
  by (simp_all add: debugf_def noticef_def logger_attempt_def)

lemma on_world_pair: "on_world f h = (r, h') \<Longrightarrow> hp_out h' = hp_out h \<and> hp_os h' = hp_os h \<and> hp_in h' = hp_in h"
  using on_world_other [of f h] by simp

definition same_io :: "'w helper \<Rightarrow> 'w helper \<Rightarrow> bool" where
  "same_io h h' = (hp_out h' = hp_out h \<and> hp_os h' = hp_os h)"

lemma same_io_refl [simp]: "same_io h h"
  by (simp add: same_io_def)

lemma same_io_world [simp]: "same_io h (snd (on_world f h))"
  by (simp add: same_io_def)

lemma snd_result [simp]: "snd (case p of (Inl e, w) \<Rightarrow> (f e, w) | (Inr x, w) \<Rightarrow> (g x, w)) = snd p"
  by (simp split: prod.split sum.split)

lemma StartDeviceAuth_world:
  "same_io h (snd (StartDeviceAuth G (lift_env X) c ctx n ps h))"
  by (cases "add_params G ps (sorted_keys ps) (if n \<noteq> [] then [(''device_name'', n)] else [])")
    (auto simp: StartDeviceAuth_def lift_env_def)

lemma WaitForToken_world: "same_io h (snd (WaitForToken G (lift_env X) c ctx da pin h))"
  by (cases da) (simp_all add: WaitForToken_def lift_env_def Let_def)

lemma VerifyIDToken_world: "same_io h (snd (VerifyIDToken G (lift_env X) c ctx raw uc gc skew h))"
proof -
  let ?v = "\<lambda>sk. ox_verify X (oc_httpClient c) (oc_provider c) \<lparr>vc_ClientID = oc_ClientID (oc_oauth c),
    vc_SupportedSigningAlgs = supportedSigningAlgs, vc_NowShift = - sk\<rparr> ctx raw"
  define sk where "sk = (if skew < 0 then 0 else skew)"
  obtain r h1 where 1: "on_world (?v sk) h = (r, h1)" by fastforce
  have "snd (VerifyIDToken G (lift_env X) c ctx raw uc gc skew h) = h1"
    unfolding VerifyIDToken_def Let_def sk_def [symmetric]
    by (cases r) (simp_all add: lift_env_def 1 split: option.split sum.split)
  with 1 same_io_world [of h "?v sk"] show ?thesis by simp
qed

lemma lifted_flow:
  "hp_out (snd (StartDeviceAuth G (lift_env X) c ctx n ps h)) = hp_out h"
  "hp_os (snd (StartDeviceAuth G (lift_env X) c ctx n ps h)) = hp_os h"
  "hp_out (snd (WaitForToken G (lift_env X) c ctx da pin h)) = hp_out h"
  "hp_os (snd (WaitForToken G (lift_env X) c ctx da pin h)) = hp_os h"
  "hp_out (snd (VerifyIDToken G (lift_env X) c ctx raw uc gc skew h)) = hp_out h"
  "hp_os (snd (VerifyIDToken G (lift_env X) c ctx raw uc gc skew h)) = hp_os h"
  using StartDeviceAuth_world [of h G X c ctx n ps] WaitForToken_world [of h G X c ctx da pin]
    VerifyIDToken_world [of h G X c ctx raw uc gc skew] by (simp_all add: same_io_def)

lemma New_other:
  "hp_out (snd (OidcClient.New G (lift_env X) ctx opts h)) = hp_out h"
  "hp_os (snd (OidcClient.New G (lift_env X) ctx opts h)) = hp_os h"
  by (auto simp: OidcClient.New_def lift_env_def Let_def dest: on_world_pair split: sum.split prod.split)

lemma protocol_snd:
  "snd (protocol_Prompt m h) = snd (ReadString (protocol_line (CHR ''P'') (SanitizePrompt m) h))"
  "snd (protocol_Ask m h) = snd (ReadString (protocol_line (CHR ''Q'') (SanitizePrompt m) h))"
  by (simp_all add: protocol_Prompt_def protocol_Ask_def split: prod.split sum.split)

lemma protocol_says:
  assumes "says ''IPQ'' h0 h"
  shows "says ''IPQ'' h0 (snd (protocol_Info m h))" "says ''IPQ'' h0 (snd (protocol_Prompt m h))"
    "says ''IPQ'' h0 (snd (protocol_Ask m h))"
proof -
  have line: "says ''IPQ'' h0 (protocol_line k t h)" if "k \<in> {CHR ''I'', CHR ''P'', CHR ''Q''}" for k t
    using says_line [OF assms, of k] that by auto
  have rd: "says ''IPQ'' h0 (snd (ReadString (protocol_line k t h)))" if "k \<in> {CHR ''I'', CHR ''P'', CHR ''Q''}" for k t
    using says_same [OF ReadString_other(1)] line [OF that] by blast
  show "says ''IPQ'' h0 (snd (protocol_Info m h))" using line by (simp add: protocol_Info_def)
  show "says ''IPQ'' h0 (snd (protocol_Prompt m h))" "says ''IPQ'' h0 (snd (protocol_Ask m h))"
    using rd by (simp_all add: protocol_snd)
qed

lemma helper_auth_parts:
  "au_flow (helper_auth L cfg client extra confirm) = oidc_flow (hl_go L) (lift_env (hl_oidc L)) client"
  "au_prompt (helper_auth L cfg client extra confirm) = Some protocol"
  "au_cfg (helper_auth L cfg client extra confirm) = Some cfg"
  "au_confirm (helper_auth L cfg client extra confirm) = (confirm \<and> extra \<noteq> None)"
  "au_deviceExtra (helper_auth L cfg client extra confirm) = (case extra of None \<Rightarrow> [] | Some ps \<Rightarrow> ps)"
  by (simp_all add: helper_auth_def Let_def Auth.New_def WithConfirmation_def WithDeviceAuthParams_def)

text \<open>An attempt says lines of the conversation only.\<close>

interpretation talk: login_session "says ''IPQ'' h0" "helper_auth L cfg client extra confirm" for h0 L cfg client extra confirm
  by unfold_locales
    (auto simp: helper_auth_parts oidc_flow_def protocol_def intro: protocol_says says_same [OF lifted_flow(1)]
      says_same [OF lifted_flow(3)] says_same [OF lifted_flow(5)])

text \<open>It leaves the files alone.\<close>

interpretation files: login_session "\<lambda>h. hp_os h = w" "helper_auth L cfg client extra confirm" for w L cfg client extra confirm
  by unfold_locales
    (auto simp: helper_auth_parts oidc_flow_def protocol_def protocol_Info_def protocol_snd lifted_flow)

section \<open>The session variables\<close>

definition env_value :: "strmap \<Rightarrow> string \<Rightarrow> string" where
  "env_value env name = (case map_of env name of None \<Rightarrow> [] | Some v \<Rightarrow> v)"

definition env_line :: "strmap \<Rightarrow> string \<Rightarrow> string" where
  "env_line env name = ''E '' @ name @ ''='' @ env_value env name"

definition clean_variable :: "strmap \<Rightarrow> string \<Rightarrow> bool" where
  "clean_variable env name = (ValidEnvValue name \<and> CHR ''='' \<notin> set name \<and> SP \<notin> set name \<and> ValidEnvValue (env_value env name))"

lemma valid_no_breaks: "ValidEnvValue s \<Longrightarrow> NL \<notin> set s \<and> CR \<notin> set s"
  using runes_ascii [of NL s] runes_ascii [of CR s]
  by (auto simp: ValidEnvValue_def list_all_iff IsControl_def byte_def)

lemma env_line_shape: "clean_variable env name \<Longrightarrow> msg_line ''E'' (env_line env name)"
  using valid_no_breaks by (auto simp: clean_variable_def env_line_def msg_line_def)

lemma protocol_env_out:
  "clean_variable env name \<Longrightarrow> hp_out (protocol_env name (env_value env name) h) = hp_out h @ unlines [env_line env name]"
proof -
  assume "clean_variable env name"
  then have "fold_newlines (name @ ''='' @ env_value env name) = name @ ''='' @ env_value env name"
    using valid_no_breaks unfolding fold_newlines_def clean_variable_def by (intro map_idI) auto
  then show ?thesis by (simp add: protocol_env_def protocol_line_out env_line_def)
qed

lemma export_loop_spec:
  assumes "export_loop G env names h = (r, h')"
  shows "\<exists>k \<le> length names. hp_out h' = hp_out h @ unlines (map (env_line env) (take k names))
    \<and> list_all (clean_variable env) (take k names) \<and> (r = None \<longleftrightarrow> k = length names)
    \<and> (k < length names \<longrightarrow> \<not> clean_variable env (names ! k))"
  using assms
proof (induction names arbitrary: h)
  case Nil
  then show ?case by (simp add: unlines_def)
next
  case (Cons name names)
  show ?case
  proof (cases "clean_variable env name")
    case True
    then have "export_loop G env names (protocol_env name (env_value env name) h) = (r, h')"
      using Cons.prems by (simp add: clean_variable_def env_value_def Let_def)
    from Cons.IH [OF this] obtain k where "k \<le> length names"
      "hp_out h' = hp_out (protocol_env name (env_value env name) h) @ unlines (map (env_line env) (take k names))"
      "list_all (clean_variable env) (take k names)" "r = None \<longleftrightarrow> k = length names"
      "k < length names \<longrightarrow> \<not> clean_variable env (names ! k)" by blast
    then show ?thesis
      using True by (intro exI [of _ "Suc k"]) (simp add: protocol_env_out unlines_def)
  next
    case False
    then have "h' = h \<and> r \<noteq> None"
      using Cons.prems by (auto simp: clean_variable_def env_value_def Let_def split: if_splits)
    then show ?thesis using False by (intro exI [of _ 0]) (simp add: unlines_def)
  qed
qed

section \<open>An attempt\<close>

definition exported :: "Result \<Rightarrow> strmap" where
  "exported res = (case res_Env res of None \<Rightarrow> [] | Some env \<Rightarrow> env)"

definition codes :: "string list" where
  "codes = [codeSuccess, codeIgnore, codeAuthErr, codeAuthinfoUnavail, codeUserUnknown]"

lemma conclude_spec:
  "conclude lg a result reason e code h = (x, h') \<Longrightarrow> x = (code, reason) \<and> hp_out h' = hp_out h \<and> hp_net h' = hp_net h"
  by (auto simp: conclude_def)

lemma settle_spec:
  assumes "settle G lg a res h = ((code, reason), h')"
  obtains
    (granted) "res_Code res = Success" "code = codeSuccess" "reason = []"
      "hp_out h' = hp_out h @ unlines (map (env_line (exported res)) (sorted_keys (exported res)))"
      "list_all (clean_variable (exported res)) (sorted_keys (exported res))"
  | (spoilt) ns where "code = codeAuthErr" "reason = reasonEnv"
      "hp_out h' = hp_out h @ unlines (map (env_line (exported res)) ns)" "list_all (clean_variable (exported res)) ns"
  | (refused) "code \<in> {codeIgnore, codeAuthErr, codeAuthinfoUnavail}" "hp_out h' = hp_out h"
proof (cases "res_Code res = Success")
  case True
  let ?env = "exported res"
  obtain r h1 where 1: "export_loop G ?env (sorted_keys ?env) h = (r, h1)" by fastforce
  from export_loop_spec [OF 1] obtain k where k: "k \<le> length (sorted_keys ?env)"
    "hp_out h1 = hp_out h @ unlines (map (env_line ?env) (take k (sorted_keys ?env)))"
    "list_all (clean_variable ?env) (take k (sorted_keys ?env))" "r = None \<longleftrightarrow> k = length (sorted_keys ?env)" by blast
  have e: "exportEnv G (case res_Env res of None \<Rightarrow> [] | Some env \<Rightarrow> env) h = (r, h1)"
    using 1 by (simp add: exportEnv_def exported_def)
  show thesis
  proof (cases r)
    case None
    then have "code = codeSuccess" "reason = []" "hp_out h' = hp_out h1"
      using assms True e by (auto simp: settle_def Let_def)
    then show thesis using granted True k None by simp
  next
    case (Some x)
    then have "code = codeAuthErr" "reason = reasonEnv" "hp_out h' = hp_out h1"
      using assms True e by (auto simp: settle_def Let_def conclude_def)
    then show thesis using spoilt k(2,3) by simp
  qed
next
  case False
  then show thesis
    using assms refused by (cases "res_Code res") (auto simp: settle_def Let_def conclude_def)
qed

text \<open>The login of a mapped user: the conversation, then the outcome.\<close>

lemma login_spec:
  assumes "login L lg cfg client user a h = (x, h')"
  obtains extra h1 res h2 where
    "Authenticate (hl_go L) (helper_auth L cfg client extra (sm_ConfirmationSupported (SSH (lift_env (hl_oidc L)) client)))
        None user h1 = (res, h2)"
    "hp_out h1 = hp_out h" "says ''IPQ'' h h2" "settle (hl_go L) lg a res h2 = (x, h')"
proof -
  let ?X = "lift_env (hl_oidc L)"
  let ?c = "sm_ConfirmationSupported (SSH ?X client)"
  obtain d g1 where 1: "deviceAuthParams L cfg user (sshAccessEndpoint ?X client) ?c h = (d, g1)" by fastforce
  have o1: "hp_out g1 = hp_out h"
  proof -
    obtain y g where y: "on_files (Hostid.Load (hl_keys L) (c_IdentityKey cfg)) h = (y, g)" by fastforce
    then have "hp_out g = hp_out h" using on_files_other(1) [of "Hostid.Load (hl_keys L) (c_IdentityKey cfg)" h] by simp
    then show ?thesis using 1 y by (auto simp: deviceAuthParams_def Let_def split: if_splits sum.splits)
  qed
  define extra where "extra = (case d of Inl e \<Rightarrow> None | Inr ps \<Rightarrow> ps)"
  define g2 where "g2 = (case d of Inl e \<Rightarrow> noticef lg (''continuing without a host assertion: '' @ err_msg e) g1 | Inr ps \<Rightarrow> g1)"
  define g3 where "g3 = (case extra of None \<Rightarrow> g2
     | Some ps \<Rightarrow> debugf lg (''device flow for host '' @ c_HostID cfg @ '', account '' @ user) g2)"
  obtain res h2 where 2: "Authenticate (hl_go L) (helper_auth L cfg client extra ?c) None user g3 = (res, h2)" by fastforce
  have o3: "hp_out g3 = hp_out h"
    using o1 by (simp add: g3_def g2_def split: sum.split option.split)
  have "says ''IPQ'' h g3" using says_same [OF o3 says_refl] .
  from talk.Authenticate_keeps [OF this] 2 have "says ''IPQ'' h h2" by (metis snd_conv)
  moreover have "settle (hl_go L) lg a res h2 = (x, h')"
  proof -
    have "(case d of Inl e \<Rightarrow> (None, noticef lg (''continuing without a host assertion: '' @ err_msg e) g1)
        | Inr ps \<Rightarrow> (ps, g1)) = (extra, g2)"
      by (simp add: extra_def g2_def split: sum.split)
    from assms [unfolded login_def Let_def 1 prod.case this, folded g3_def] show ?thesis by (simp add: 2)
  qed
  ultimately show thesis using that 2 o3 by blast
qed

lemma helper_loadConfig_out: "hp_out (snd (helper_loadConfig L p h)) = hp_out h" "hp_net (snd (helper_loadConfig L p h)) = hp_net h"
  by (simp_all add: helper_loadConfig_def)

text \<open>How an attempt ends: refused before the flow, without the provider, or by the login.\<close>

lemma run_spec:
  assumes "run L lg cp user rhost h = ((code, reason), h')"
  obtains
    (nobody) "user = []" "code = codeUserUnknown" "hp_out h' = hp_out h" "hp_net h' = hp_net h"
  | (unconfigured) "code = codeAuthinfoUnavail" "hp_out h' = hp_out h" "hp_net h' = hp_net h"
  | (unmapped) cfg h1 where "helper_loadConfig L cp h = (Inr cfg, h1)" "map_of (c_Users cfg) user = None"
      "code = codeIgnore" "reason = ReasonNotMapped" "hp_out h' = hp_out h" "hp_net h' = hp_net h"
  | (unreachable) "code = codeAuthinfoUnavail" "says ''IPQ'' h h'"
  | (tried) cfg h1 g client h2 h3 where "helper_loadConfig L cp h = (Inr cfg, h1)" "map_of (c_Users cfg) user = Some g"
      "fst (OidcClient.New (hl_go L) (lift_env (hl_oidc L)) (Some (ox_now (lift_env (hl_oidc L)) h2
         + c_HTTPTimeout cfg * discoveryTimeoutFactor)) (helper_options cfg) h2) = Inr client"
      "hp_out h3 = hp_out h" "login L lg cfg client user (new_attempt L user rhost) h3 = ((code, reason), h')"
proof (cases "user = []")
  case True
  then have "conclude lg (new_attempt L user rhost) ResultError reasonNoUser (Some (errors_New ''empty PAM user''))
      codeUserUnknown h = ((code, reason), h')"
    using assms by (simp add: run_def Let_def)
  from conclude_spec [OF this] True show thesis by (intro nobody) auto
next
  case False
  let ?X = "lift_env (hl_oidc L)"
  obtain y h1 where 1: "helper_loadConfig L cp h = (y, h1)" by fastforce
  then have o1: "hp_out h1 = hp_out h" "hp_net h1 = hp_net h" using helper_loadConfig_out [of L cp h] by simp_all
  note r = assms [unfolded run_def Let_def if_not_P [OF False] 1]
  show thesis
  proof (cases y)
    case (Inl e)
    with r have "conclude lg (new_attempt L user rhost) ResultError reasonConfig (Some e) codeAuthinfoUnavail h1
        = ((code, reason), h')" by simp
    from conclude_spec [OF this] o1 show thesis by (intro unconfigured) auto
  next
    case (Inr cfg)
    define h2 where "h2 = debugf lg (''loaded '' @ cp @ '' (issuer '' @ c_Issuer cfg @ '', '' @ dec (length (c_Users cfg))
              @ '' mapped users)'') h1"
    have o2: "hp_out h2 = hp_out h" "hp_net h2 = hp_net h" by (simp_all add: h2_def o1)
    note r2 = r [unfolded Inr prod.case sum.case, folded h2_def]
    show thesis
    proof (cases "map_of (c_Users cfg) user")
      case None
      with r2 have "conclude lg (new_attempt L user rhost) ResultIgnore ReasonNotMapped None codeIgnore h2
          = ((code, reason), h')" by (simp add: LookupUser_def)
      from conclude_spec [OF this] o2 1 Inr None show thesis by (intro unmapped [of cfg h1]) auto
    next
      case (Some g)
      obtain z h3 where 3: "OidcClient.New (hl_go L) ?X (Some (ox_now ?X h2 + c_HTTPTimeout cfg * discoveryTimeoutFactor))
          (helper_options cfg) h2 = (z, h3)" by fastforce
      have o3: "hp_out h3 = hp_out h"
        using New_other(1) [of "hl_go L" "hl_oidc L" _ "helper_options cfg" h2] 3 o2(1) by (metis snd_conv)
      show thesis
      proof (cases z)
        case (Inl e)
        have "says ''IPQ'' h (snd (protocol_Info MsgProviderUnavailable h3))"
          by (rule protocol_says(1) [OF says_same [OF o3 says_refl]])
        then have "says ''IPQ'' h h'" "code = codeAuthinfoUnavail"
          using r2 Some 3 Inl by (auto simp: LookupUser_def conclude_def intro: says_same)
        then show thesis by (rule unreachable [rotated])
      next
        case z: (Inr client)
        let ?h = "debugf lg (''discovery ok for '' @ c_Issuer cfg @ '', starting device flow for '' @ user) h3"
        have "login L lg cfg client user (new_attempt L user rhost) ?h = ((code, reason), h')"
          using r2 Some 3 z by (simp add: LookupUser_def)
        then show thesis using tried [of cfg h1 g h2 client ?h] 1 Inr Some 3 z o3 by simp
      qed
    qed
  qed
qed

lemma success_named:
  assumes "Authenticate L a ctx u w = (r, w')" "res_Code r = Success"
  shows "res_Username r \<noteq> []"
proof (cases rule: Authenticate_cases [of a u L ctx w])
  case 1
  then show ?thesis using assms by (simp add: not_mapped_def)
next
  case (2 cfg g e w1)
  then show ?thesis using assms by (auto simp: unavailable_def fail_def)
next
  case (3 cfg g da w1)
  then have "r = fst (approve L a cfg ctx u (attempt g) da w1)" using assms(1) by (metis fst_conv)
  with approve_ok [of cfg g L a ctx u da w1] assms(2) show ?thesis by (simp add: result_ok_def)
qed

section \<open>A concrete attempt\<close>

definition sample_libs :: "(unit, unit, nat) helperlibs" where
  "sample_libs = \<lparr>hl_go = plain_lib, hl_yaml = (\<lambda>d. Inr sample_raw), hl_hostname = Inr ''h'', hl_keys = plain_keys,
     hl_oidc = scripted (Inr (Some sample_device))
       (Inr (Some \<lparr>tk_AccessToken = [], tk_Extra = (\<lambda>k. if k = ''id_token'' then JString ''jwt'' else JNull)\<rparr>))
       (Inr \<lparr>it_IssuedAt = None, it_Subject = ''s1'',
          it_claims = Inr [(''email'', JString ''bob''), (''groups'', JArray [JString ''admins''])]\<rparr>),
     hl_random = Inr [1, 2, 3], hl_wall = 0\<rparr>"

definition sample_logger :: logger where
  "sample_logger = newLogger (Inl (errors_New ''no syslog'')) 7 False"

definition sample_helper :: "nat helper" where
  "sample_helper = \<lparr>hp_os = calm \<lparr>ents = [(''/e/c'', FileEnt 0)], inodes = [\<lparr>i_mode = 416, i_owner = (0, 0), i_data = ''y''\<rparr>]\<rparr>,
     hp_net = 0, hp_in = [NL], hp_out = [], hp_syslog = [], hp_stderr = []\<rparr>"

definition sample_cfg :: Config where
  "sample_cfg = \<lparr>c_Issuer = ''https://h'', c_ClientID = ''ssh'', c_Scope = ''openid'', c_DeviceName = ''d'',
     c_UsernameClaim = ''email'', c_GroupsClaim = ''groups'', c_SessionEnv = ''U'', c_Timeout = DefaultTimeout,
     c_ClockSkew = DefaultClockSkew, c_HTTPTimeout = DefaultHTTPTimeout, c_AllowInsecureHTTP = False,
     c_Users = [(''bob'', ''admins'')], c_APIBase = [], c_HostID = [], c_IdentityKey = ''/k'', c_CacheDir = ''/c'',
     c_CacheTTL = DefaultCacheTTL\<rparr>"

lemma sample_loaded: "\<exists>h1. helper_loadConfig sample_libs ''/e/c'' sample_helper = (Inr sample_cfg, h1) \<and> hp_in h1 = [NL]"
proof -
  have u: "normaliseUsers plain_lib [(''bob'', ''admins'')] = Inr [(''bob'', ''admins'')]"
    by (simp add: normaliseUsers_iff entry_ok_def trim_entry_def TrimSpace_plain byte_def)
  have url: "validateURL plain_lib ''https://h'' False f s = None" for f s
    by (simp add: validateURL_iff url_ok_def url_simps Contains_def)
  have "parseWithHostname plain_lib (\<lambda>d. Inr sample_raw) d (Inr ''h'') = Inr sample_cfg" for d
    by (simp add: parseWithHostname_def decode_def apply_defaults_def sample_raw_def deref_def TrimSpace_plain byte_def
        parseDuration_def expandHostname_def hostnamePlaceholder_def Contains_def HasPrefix_def validate_def
        validateIssuer_def url u sessionEnvPattern_def is_alpha_def runes_def filepath_IsAbs_def sample_cfg_def
        DefaultTimeout_def DefaultHTTPTimeout_def DefaultClockSkew_def DefaultCacheTTL_def)
  then show ?thesis
    by (simp add: helper_loadConfig_def on_files_def Config.Load_def Parse_def sample_libs_def sample_helper_def calm_def
        os_ReadFile_def observe_def fault_def file_at_def ent_def)
qed

lemma valid_ascii: "list_all (\<lambda>c. 0x20 \<le> byte c \<and> byte c < 0x7F) s \<Longrightarrow> ValidEnvValue s"
  using control_free_ascii by (simp add: control_free_def ValidEnvValue_def)

text \<open>The whole attempt of bob: the module is told success.\<close>

lemma sample_run: "\<exists>reason h'. run sample_libs sample_logger ''/e/c'' ''bob'' ''::1'' sample_helper = ((''success'', reason), h')"
proof -
  obtain h1 where h1: "helper_loadConfig sample_libs ''/e/c'' sample_helper = (Inr sample_cfg, h1)" "hp_in h1 = [NL]"
    using sample_loaded by blast
  have log: "debugf sample_logger t h = h" for t and h :: "nat helper"
    by (simp add: debugf_def sample_logger_def newLogger_def)
  have go: "hl_go sample_libs = plain_lib" by (simp add: sample_libs_def)
  define X where "X = hl_oidc sample_libs"
  define client where "client = \<lparr>oc_httpClient = NoRedirectClient DefaultHTTPTimeout :: unit http_client, oc_provider = (),
     oc_oauth = \<lparr>oc_ClientID = ''ssh'', oc_AuthURL = [], oc_TokenURL = ''https://i/t'', oc_DeviceAuthURL = ''https://i/d'',
       oc_Scopes = Fields ''openid''\<rparr>\<rparr>"
  have new: "OidcClient.New plain_lib (lift_env X) ctx (helper_options sample_cfg) h1 = (Inr client, h1\<lparr>hp_net := Suc (hp_net h1)\<rparr>)" for ctx
    by (simp add: OidcClient.New_def helper_options_def sample_cfg_def url_simps DefaultHTTPTimeout_def lift_env_def X_def
        sample_libs_def scripted_def on_world_def discovered_client_def sample_discovery_def checkEndpointsHTTPS_def
        client_def Let_def)
  have vals: "ValidEnvValue ''U''" "ValidEnvValue ''OIDC_SUB''" "ValidEnvValue ''bob''" "ValidEnvValue ''s1''"
    by (simp_all add: valid_ascii byte_def)
  have auth: "\<exists>h'. Authenticate plain_lib (helper_auth sample_libs sample_cfg client None False) None ''bob'' h =
      (granted sample_cfg ''admins'' \<lparr>id_Subject = ''s1'', id_Username = ''bob'', id_Groups = [''admins''],
         id_Claims = [(''email'', JString ''bob''), (''groups'', JArray [JString ''admins''])]\<rparr>, h')" for h
    by (simp add: helper_auth_def Auth.New_def WithDeviceAuthParams_def WithConfirmation_def Authenticate_def LookupUser_def
      sample_cfg_def oidc_flow_def StartDeviceAuth_def sorted_keys_def lift_env_def sample_libs_def scripted_def on_world_def
      approve_def expired_def sample_device_def askApproval_def info_def protocol_def protocol_Info_def protocol_Prompt_def
      waitForToken_def with_timeout_def wait_time_def WaitForToken_def redeem_def IDTokenFrom_def VerifyIDToken_def
      issued_in_future_def stringClaim_def stringSliceClaim_def decide_def zero_result_def granted_def
      session_env_def EnvSubject_def Let_def split: sum.split prod.split)
  let ?i = "\<lparr>id_Subject = ''s1'', id_Username = ''bob'', id_Groups = [''admins''],
         id_Claims = [(''email'', JString ''bob''), (''groups'', JArray [JString ''admins''])]\<rparr>"
  have export: "\<exists>h'. exportEnv plain_lib (session_env sample_cfg ?i) h = (None, h')" for h :: "nat helper"
    by (simp add: exportEnv_def session_env_def sample_cfg_def EnvSubject_def sorted_keys_def vals)
  let ?a = "new_attempt sample_libs ''bob'' ''::1''"
  obtain h2 where 2: "Authenticate plain_lib (helper_auth sample_libs sample_cfg client None False) None ''bob''
      (h1\<lparr>hp_net := Suc (hp_net h1)\<rparr>) = (granted sample_cfg ''admins'' ?i, h2)" using auth by blast
  have ssh: "SSH (lift_env X) client = \<lparr>sm_AccessEndpoint = [], sm_ConfirmationSupported = False\<rparr>"
    by (simp add: SSH_def Metadata_def lift_env_def X_def sample_libs_def scripted_def)
  have "c_HostID sample_cfg = []" by (simp add: sample_cfg_def)
  then have "login sample_libs sample_logger sample_cfg client ''bob'' ?a (h1\<lparr>hp_net := Suc (hp_net h1)\<rparr>)
      = settle plain_lib sample_logger ?a (granted sample_cfg ''admins'' ?i) h2"
    using 2 ssh by (simp add: login_def Let_def deviceAuthParams_def X_def sample_libs_def)
  moreover obtain h3 where "exportEnv plain_lib (session_env sample_cfg ?i) h2 = (None, h3)" using export by blast
  ultimately have "\<exists>h'. login sample_libs sample_logger sample_cfg client ''bob'' ?a (h1\<lparr>hp_net := Suc (hp_net h1)\<rparr>)
      = ((''success'', []), h')"
    by (simp add: settle_def Let_def granted_def codeSuccess_def)
  moreover have "LookupUser (Some sample_cfg) ''bob'' = Some ''admins''" by (simp add: LookupUser_def sample_cfg_def)
  ultimately show ?thesis
    using h1(1) new go by (auto simp: run_def Let_def log X_def)
qed

section \<open>Properties\<close>



text \<open>C4: nothing can forge a line of the protocol. Everything the module reads in one attempt is a
  sequence of lines, none of which contains a line break: lines of the conversation, then the
  exported variables, then exactly one result with one of the five codes. Variables are exported
  only when the result is success or says that a variable was invalid.\<close>

theorem module_reads_one_result:
  "case run L lg cp user rhost h of ((code, reason), h1) \<Rightarrow>
     \<exists>conv vars. hp_out (main L lg cp user rhost h) = hp_out h @ unlines (conv @ vars
         @ [''R '' @ fold_newlines (code @ '' '' @ (if reason = [] then ''-'' else reason))])
       \<and> list_all (msg_line ''IPQ'') conv \<and> list_all (msg_line ''E'') vars
       \<and> code \<in> {''success'', ''ignore'', ''auth_err'', ''authinfo_unavail'', ''user_unknown''}
       \<and> (vars = [] \<or> code = ''success'' \<or> reason = reasonEnv)"
proof -
  obtain code reason h1 where r: "run L lg cp user rhost h = ((code, reason), h1)" by (metis prod.exhaust)
  have out: "hp_out (main L lg cp user rhost h) = hp_out h1
      @ unlines [''R '' @ fold_newlines (code @ '' '' @ (if reason = [] then ''-'' else reason))]"
    by (simp add: main_def r protocol_result_def protocol_line_out)
  have "\<exists>conv vars. hp_out h1 = hp_out h @ unlines (conv @ vars) \<and> list_all (msg_line ''IPQ'') conv
      \<and> list_all (msg_line ''E'') vars \<and> code \<in> set codes \<and> (vars = [] \<or> code = codeSuccess \<or> reason = reasonEnv)"
    using r
  proof (cases rule: run_spec)
    case unreachable
    then obtain ls where "hp_out h1 = hp_out h @ unlines (ls @ [])" "list_all (msg_line ''IPQ'') ls" by (auto simp: says_def)
    then show ?thesis using unreachable(1) by (intro exI [of _ ls] exI [of _ "[]"]) (simp add: codes_def)
  next
    case (tried cfg h0 g client h2 h3)
    from tried(5) obtain res g1 where "says ''IPQ'' h3 g1" and s: "settle (hl_go L) lg (new_attempt L user rhost) res g1 = ((code, reason), h1)"
      by (rule login_spec)
    then obtain ls where ls: "hp_out g1 = hp_out h @ unlines ls" "list_all (msg_line ''IPQ'') ls"
      using tried(4) by (auto simp: says_def)
    have vars: "list_all (msg_line ''E'') (map (env_line env) ns)" if "list_all (clean_variable env) ns" for env ns
      using that env_line_shape by (auto simp: list_all_iff)
    from s show ?thesis
    proof (cases rule: settle_spec)
      case granted
      then show ?thesis using ls vars [OF granted(5)]
        by (intro exI [of _ ls] exI [of _ "map (env_line (exported res)) (sorted_keys (exported res))"])
          (simp add: unlines_append codes_def)
    next
      case (spoilt ns)
      then show ?thesis using ls vars [OF spoilt(4)]
        by (intro exI [of _ ls] exI [of _ "map (env_line (exported res)) ns"]) (simp add: unlines_append codes_def)
    next
      case refused
      then show ?thesis using ls by (intro exI [of _ ls] exI [of _ "[]"]) (auto simp: codes_def)
    qed
  qed (auto simp: codes_def unlines_def intro!: exI [of _ "[]"])
  then obtain conv vars where c: "hp_out h1 = hp_out h @ unlines (conv @ vars)" "list_all (msg_line ''IPQ'') conv"
      "list_all (msg_line ''E'') vars" "code \<in> set codes" "vars = [] \<or> code = codeSuccess \<or> reason = reasonEnv" by blast
  then show ?thesis unfolding r prod.case out
    by (intro exI [of _ conv] exI [of _ vars]) (auto simp: unlines_append codes_def code_defs)
qed

text \<open>C3: what a reported success rests on. The account is in the user table of the configuration that
  was loaded, the provider was discovered from it, the verifier accepted a token for the client,
  the claim that names the user is not empty, the groups claim contains the group of the table,
  and the module was given exactly the session variables of this identity, all of them printable,
  after lines of the conversation only.\<close>

theorem success_rests_on_identity:
  assumes "run L lg cp user rhost h = ((''success'', reason), h')"
  shows "\<exists>cfg h1 g client w raw i v h2 env. helper_loadConfig L cp h = (Inr cfg, h1) \<and> map_of (c_Users cfg) user = Some g
    \<and> fst (OidcClient.New (hl_go L) (lift_env (hl_oidc L)) (Some (ox_now (lift_env (hl_oidc L)) w + c_HTTPTimeout cfg * 3))
        (helper_options cfg) w) = Inr client
    \<and> VerifyIDToken (hl_go L) (lift_env (hl_oidc L)) client None raw (c_UsernameClaim cfg) (c_GroupsClaim cfg)
        (c_ClockSkew cfg) v = (Inr i, h2)
    \<and> id_Username i \<noteq> [] \<and> map_of (id_Claims i) (c_UsernameClaim cfg) = Some (JString (id_Username i))
    \<and> (\<exists>items. map_of (id_Claims i) (c_GroupsClaim cfg) = Some (JArray items) \<and> JString g \<in> set items)
    \<and> env = session_env cfg i \<and> says ''IPQ'' h h2 \<and> list_all (clean_variable env) (sorted_keys env)
    \<and> hp_out h' = hp_out h2 @ unlines (map (env_line env) (sorted_keys env))"
  using assms
proof (cases rule: run_spec)
  case (tried cfg h1 g client w h3)
  from tried(5) obtain extra g1 res h2 where l:
    "Authenticate (hl_go L) (helper_auth L cfg client extra (sm_ConfirmationSupported (SSH (lift_env (hl_oidc L)) client)))
        None user g1 = (res, h2)" "says ''IPQ'' h3 h2"
    "settle (hl_go L) lg (new_attempt L user rhost) res h2 = ((''success'', reason), h')"
    by (rule login_spec)
  from l(3) show ?thesis
  proof (cases rule: settle_spec)
    case granted
    have "fl_VerifyIDToken (au_flow (helper_auth L cfg client extra (sm_ConfirmationSupported (SSH (lift_env (hl_oidc L)) client))))
        = VerifyIDToken (hl_go L) (lift_env (hl_oidc L)) client"
      by (simp add: helper_auth_parts oidc_flow_def)
    from oidc.login_asserts [OF this l(1) granted(1)] obtain raw i v where i: "map_of (c_Users cfg) user = Some g"
      "VerifyIDToken (hl_go L) (lift_env (hl_oidc L)) client None raw (c_UsernameClaim cfg) (c_GroupsClaim cfg)
        (c_ClockSkew cfg) v = (Inr i, h2)" "res = granted cfg g i" "oidc.asserts cfg g i"
      using tried(2) by (auto simp: helper_auth_parts)
    have "exported res = session_env cfg i" by (simp add: exported_def i(3) Auth.granted_def)
    moreover have "id_Username i \<noteq> []" using success_named [OF l(1) granted(1)] i(3) by (simp add: Auth.granted_def)
    moreover have "says ''IPQ'' h h2" using l(2) tried(4) by (simp add: says_def)
    ultimately show ?thesis using tried(1,2,3) i(2,4) granted(4,5)
      unfolding oidc.asserts_def discoveryTimeoutFactor_def
      by (intro exI [of _ cfg] exI [of _ h1] exI [of _ g] exI [of _ client] exI [of _ w] exI [of _ raw] exI [of _ i]
          exI [of _ v] exI [of _ h2] exI [of _ "session_env cfg i"]) simp
  qed (simp_all add: code_defs)
qed (simp_all add: code_defs)


theorem success_rests_on_identity_witness:
  "\<exists>reason h' (i :: Identity) h2. run sample_libs sample_logger ''/e/c'' ''bob'' ''::1'' sample_helper = ((''success'', reason), h')
     \<and> map_of (id_Claims i) (c_UsernameClaim sample_cfg) = Some (JString (id_Username i))
     \<and> id_Username i \<noteq> [] \<and> says ''IPQ'' sample_helper h2"
proof -
  obtain reason h' where r: "run sample_libs sample_logger ''/e/c'' ''bob'' ''::1'' sample_helper = ((''success'', reason), h')"
    using sample_run by blast
  obtain cfg h1 h2 and i :: Identity where "helper_loadConfig sample_libs ''/e/c'' sample_helper = (Inr cfg, h1)"
    "map_of (id_Claims i) (c_UsernameClaim cfg) = Some (JString (id_Username i))" "id_Username i \<noteq> []"
    "says ''IPQ'' sample_helper h2" using success_rests_on_identity [OF r] by blast
  moreover from this(1) have "cfg = sample_cfg" using sample_loaded by auto
  ultimately show ?thesis using r by blast
qed

text \<open>An account that the configuration does not map is left to the rest of the PAM stack: whatever
  the provider would say, nothing is sent over the network, no file but the configuration was
  looked for, and the module reads the one line that says ignore.\<close>

theorem unmapped_user_is_ignored:
  assumes "helper_loadConfig L cp h = (Inr cfg, h1)" "map_of (c_Users cfg) user = None" "user \<noteq> []"
  shows "hp_net (main L lg cp user rhost h) = hp_net h \<and> hp_os (main L lg cp user rhost h) = hp_os h1
    \<and> hp_out (main L lg cp user rhost h) = hp_out h @ ''R ignore not_mapped'' @ [NL]"
proof -
  define h2 where "h2 = debugf lg (''loaded '' @ cp @ '' (issuer '' @ c_Issuer cfg @ '', '' @ dec (length (c_Users cfg))
              @ '' mapped users)'') h1"
  have r: "run L lg cp user rhost h = conclude lg (new_attempt L user rhost) ResultIgnore ReasonNotMapped None codeIgnore h2"
    using assms by (simp add: run_def Let_def LookupUser_def h2_def)
  have o1: "hp_out h1 = hp_out h" "hp_net h1 = hp_net h" using helper_loadConfig_out [of L cp h] assms(1) by simp_all
  show ?thesis
    by (simp add: main_def r conclude_def protocol_result_def protocol_line_out unlines_single code_defs ReasonNotMapped_def
        fold_newlines_def h2_def o1)
qed

theorem unmapped_user_is_ignored_witness:
  "hp_out (main sample_libs sample_logger ''/e/c'' ''root'' [] sample_helper) = ''R ignore not_mapped'' @ [NL]
   \<and> hp_net (main sample_libs sample_logger ''/e/c'' ''root'' [] sample_helper) = 0"
proof -
  obtain h1 where h1: "helper_loadConfig sample_libs ''/e/c'' sample_helper = (Inr sample_cfg, h1)" using sample_loaded by blast
  have "map_of (c_Users sample_cfg) ''root'' = None" "''root'' \<noteq> []" by (simp_all add: sample_cfg_def)
  from unmapped_user_is_ignored [OF h1 this] show ?thesis by (simp add: sample_helper_def)
qed

text \<open>What an enrolled host adds to the device request. A host without a host id adds nothing and
  reads nothing; otherwise the parameters are the assertion made with the key of the host for the
  base the contract resolves to, the account, the intent, and the support of the confirmation
  exactly when the provider advertised it, with distinct names that the request accepts; and the
  PIN is asked for only when they are sent.\<close>

theorem device_parameters:
  "(case deviceAuthParams L cfg account endpoint confirm h of
      (Inl e, h') \<Rightarrow> c_HostID cfg \<noteq> []
    | (Inr None, h') \<Rightarrow> c_HostID cfg = [] \<and> h' = h
    | (Inr (Some ps), h') \<Rightarrow> c_HostID cfg \<noteq> []
        \<and> (\<exists>i token. on_files (Hostid.Load (hl_keys L) (c_IdentityKey cfg)) h = (Inr i, h')
            \<and> Assertion (hl_keys L) i (c_HostID cfg) (ResolveBase (c_APIBase cfg) (c_Issuer cfg) endpoint) (hl_wall L) (hl_random L)
                = Inr token
            \<and> map_of ps = [''host_assertion'' \<mapsto> token, ''account'' \<mapsto> account, ''intent'' \<mapsto> ''login'']
                ++ (if confirm then [''confirmation_supported'' \<mapsto> ''true''] else Map.empty))
        \<and> distinct (map fst ps) \<and> list_all (\<lambda>p. checkParamName G (fst p) = None) ps)
   \<and> au_confirm (helper_auth L cfg client extra confirm) = (confirm \<and> extra \<noteq> None)"
proof -
  have names: "checkParamName G n = None"
    if "n = ''host_assertion'' \<or> n = ''account'' \<or> n = ''intent'' \<or> n = ''confirmation_supported''" for n
    using that runes_map_byte [of n]
    by (auto simp: checkParamName_iff plain_name_def reservedDeviceParams_def ascii_def byte_def IsSpace_def IsPrint_def)
  have confirm: "au_confirm (helper_auth L cfg client extra confirm) = (confirm \<and> extra \<noteq> None)"
    by (simp add: helper_auth_parts)
  show ?thesis
  proof (cases "c_HostID cfg = []")
    case True
    then show ?thesis using confirm by (simp add: deviceAuthParams_def)
  next
    case False
    obtain y h1 where 1: "on_files (Hostid.Load (hl_keys L) (c_IdentityKey cfg)) h = (y, h1)" by fastforce
    define b where "b = ResolveBase (c_APIBase cfg) (c_Issuer cfg) endpoint"
    show ?thesis
    proof (cases "b = []")
      case True
      then show ?thesis using False confirm by (simp add: deviceAuthParams_def b_def)
    next
      case base: False
      show ?thesis
      proof (cases y)
        case (Inl e)
        then show ?thesis using False confirm base 1 by (simp add: deviceAuthParams_def b_def Let_def)
      next
        case (Inr i)
        then show ?thesis
          using False confirm base 1 names
          by (cases "Assertion (hl_keys L) i (c_HostID cfg) b (hl_wall L) (hl_random L)")
            (auto simp: deviceAuthParams_def b_def [symmetric] Let_def intentLogin_def fun_eq_iff map_add_def)
      qed
    qed
  qed
qed

end
