(* ===== verification/ConfigEdit.thy ===== *)
theory ConfigEdit
  imports SshEnv
begin

text \<open>
  How enrolment changes files (\<^verbatim>\<open>src/internal/sshcmd/config_edit.go\<close>, \<^verbatim>\<open>owner_unix.go\<close> and
  \<^verbatim>\<open>record.go\<close>): the rewrite of single lines of the configuration, the replacement of the file
  with its mode and owner, and the enrolment record. The parser and the encoder of yaml.v3 and the
  JSON encoding of a record are arguments. The lemmas show that the lines of other keys survive
  byte for byte, and that the file is at every moment the old or the new one.
\<close>

section \<open>The document\<close>

datatype yaml_kind = DocumentNode | SequenceNode | MappingNode | ScalarNode | AliasNode

text \<open>A node of yaml.v3; \<open>nd_Flow\<close> and \<open>nd_Block\<close> are the flow style and the literal and folded ones.\<close>

datatype yaml_node = Node (nd_Kind: yaml_kind) (nd_Flow: bool) (nd_Block: bool) (nd_Tag: string) (nd_Value: string)
  (nd_LineComment: string) (nd_Line: int) (nd_Column: int) (nd_Content: "yaml_node list")

record yaml_lib =
  yl_unmarshal :: "string \<Rightarrow> go_error + yaml_node"
  yl_marshal :: "string \<Rightarrow> go_error + string"

definition topLevelMapping :: "yaml_lib \<Rightarrow> string \<Rightarrow> go_error + yaml_node" where
  "topLevelMapping Y data =
     (case yl_unmarshal Y data of
        Inl e \<Rightarrow> Inl (wrapf ''oidc-ssh: parse configuration: '' e [])
      | Inr doc \<Rightarrow>
          if nd_Kind doc \<noteq> DocumentNode \<or> length (nd_Content doc) \<noteq> 1 then
            Inl (errors_New ''oidc-ssh: configuration is not a single YAML document'')
          else (let root = hd (nd_Content doc) in
            if nd_Kind root \<noteq> MappingNode \<or> nd_Flow root then
              Inl (errors_New ''oidc-ssh: configuration is not a block mapping'')
            else Inr root))"

fun entry_in :: "yaml_node list \<Rightarrow> string \<Rightarrow> (yaml_node \<times> yaml_node) option" where
  "entry_in (k # v # rest) key = (if nd_Value k = key then Some (k, v) else entry_in rest key)"
| "entry_in _ key = None"

definition mappingEntry :: "yaml_node \<Rightarrow> string \<Rightarrow> (yaml_node \<times> yaml_node) option" where
  "mappingEntry m key = entry_in (nd_Content m) key"

definition isSingleLineEntry :: "yaml_lib \<Rightarrow> string \<Rightarrow> string \<Rightarrow> yaml_node \<Rightarrow> bool" where
  "isSingleLineEntry Y line key v =
     (if nd_Kind v \<noteq> ScalarNode \<or> nd_Block v then False
      else case topLevelMapping Y (TrimSpace line) of
        Inl e \<Rightarrow> False
      | Inr probe \<Rightarrow> (case nd_Content probe of
          [pk, pv] \<Rightarrow> nd_Value pk = key \<and> nd_Kind pv = ScalarNode \<and> nd_Value pv = nd_Value v \<and> nd_Tag pv = nd_Tag v
        | _ \<Rightarrow> False))"

definition encodeScalar :: "yaml_lib \<Rightarrow> string \<Rightarrow> go_error + string" where
  "encodeScalar Y s =
     (case yl_marshal Y s of Inl e \<Rightarrow> Inl e
      | Inr out \<Rightarrow> (let encoded = TrimRightBytes out [NL] in
          if Contains encoded [NL] then Inl (errors_New ''value does not fit on one line'') else Inr encoded))"

definition splitLines :: "string \<Rightarrow> string list" where
  "splitLines data = (let ls = split_on NL data in (if last ls = [] then butlast ls else ls) @ [[]])"

text \<open>The parser counts columns from 1.\<close>

definition new_line :: "yaml_node \<Rightarrow> yaml_node \<Rightarrow> string \<Rightarrow> string \<Rightarrow> string" where
  "new_line k v key encoded =
     replicate (nat (nd_Column k - 1)) SP @ key @ '': '' @ encoded
     @ (if nd_LineComment v \<noteq> [] then '' '' @ nd_LineComment v else [])"

definition value_of :: "strmap \<Rightarrow> string \<Rightarrow> string" where
  "value_of values key = (case map_of values key of None \<Rightarrow> [] | Some v \<Rightarrow> v)"

text \<open>The loop over the sorted keys: the lines as changed so far and the lines to append.\<close>

fun set_loop :: "yaml_lib \<Rightarrow> yaml_node \<Rightarrow> strmap \<Rightarrow> string list \<Rightarrow> string list \<Rightarrow> string list
    \<Rightarrow> go_error + (string list \<times> string list)" where
  "set_loop Y root values [] ls appended = Inr (ls, appended)"
| "set_loop Y root values (key # keys) ls appended =
     (case encodeScalar Y (value_of values key) of
        Inl e \<Rightarrow> Inl (wrapf (''oidc-ssh: cannot write '' @ key @ '': '') e [])
      | Inr encoded \<Rightarrow> (case mappingEntry root key of
          None \<Rightarrow> set_loop Y root values keys ls (appended @ [key @ '': '' @ encoded])
        | Some (k, v) \<Rightarrow>
            (let index = nd_Line k - 1 in
             if index < 0 \<or> int (length ls) \<le> index \<or> \<not> isSingleLineEntry Y (ls ! nat index) key v then
               Inl (errors_New (''oidc-ssh: cannot rewrite '' @ key @ '' at line '' @ deci (nd_Line k)
                 @ '' automatically; set it to '' @ encoded @ '' by hand''))
             else set_loop Y root values keys (ls[nat index := new_line k v key encoded]) appended)))"

definition withConfigValues :: "yaml_lib \<Rightarrow> string \<Rightarrow> strmap \<Rightarrow> string \<Rightarrow> go_error + string" where
  "withConfigValues Y data values comment =
     (case topLevelMapping Y data of Inl e \<Rightarrow> Inl e
      | Inr root \<Rightarrow> (case set_loop Y root values (sorted_keys values) (splitLines data) [] of
          Inl e \<Rightarrow> Inl e
        | Inr (ls, appended) \<Rightarrow>
            (let out = Join [NL] ls in
             if appended = [] then Inr out
             else Inr ((if out \<noteq> [] \<and> \<not> HasSuffix out [NL] then out @ [NL] else out)
               @ (if comment \<noteq> [] then [NL] @ comment @ [NL] else [])
               @ Join [NL] appended @ [NL]))))"

section \<open>The file\<close>

definition configFileMode :: nat where "configFileMode = 416"

definition Perm :: "file_info \<Rightarrow> nat" where
  "Perm info = info_mode info mod 512"

definition preserveOwner :: "string \<Rightarrow> file_info \<Rightarrow> os \<Rightarrow> go_error option \<times> os" where
  "preserveOwner p info w =
     (case os_Chown p (info_owner info) w of
        (Some e, w') \<Rightarrow> (if Is e OsErrPermission then None else Some e, w')
      | (None, w') \<Rightarrow> (None, w'))"

text \<open>Chmod, write and sync of the temporary file, up to the first error.\<close>

definition fill_temp :: "ofile \<Rightarrow> nat \<Rightarrow> string \<Rightarrow> os \<Rightarrow> (go_error option \<times> ofile) \<times> os" where
  "fill_temp f mode data w =
     (case f_Chmod f mode w of
        (Some e, w1) \<Rightarrow> ((Some e, f), w1)
      | (None, w1) \<Rightarrow> (case f_Write f data w1 of
        ((Some e, f'), w2) \<Rightarrow> ((Some e, f'), w2)
      | ((None, f'), w2) \<Rightarrow> (case f_Sync f' w2 of (r, w3) \<Rightarrow> ((r, f'), w3))))"

text \<open>Close, and owner of the replaced file, when nothing failed so far.\<close>

definition close_temp :: "string \<Rightarrow> file_info option \<Rightarrow> go_error option \<Rightarrow> ofile \<Rightarrow> os \<Rightarrow> go_error option \<times> os" where
  "close_temp tmp info e f w =
     (case f_Close f w of (closeErr, w1) \<Rightarrow>
        (case (case e of None \<Rightarrow> closeErr | Some x \<Rightarrow> Some x) of
           Some x \<Rightarrow> (Some x, w1)
         | None \<Rightarrow> (case info of None \<Rightarrow> (None, w1) | Some i \<Rightarrow> preserveOwner tmp i w1)))"

text \<open>The rename into place, or the removal of the temporary file.\<close>

definition replace_with :: "string \<Rightarrow> string \<Rightarrow> go_error option \<Rightarrow> os \<Rightarrow> go_error option \<times> os" where
  "replace_with tmp p err w =
     (case err of
        Some e \<Rightarrow> (Some (wrapf (''oidc-ssh: write '' @ tmp @ '': '') e []), snd (os_Remove tmp w))
      | None \<Rightarrow> (case os_Rename tmp p w of
          (Some e, w1) \<Rightarrow> (Some (wrapf (''oidc-ssh: replace '' @ p @ '': '') e []), snd (os_Remove tmp w1))
        | (None, w1) \<Rightarrow> (None, w1)))"

definition writePreserving :: "string \<Rightarrow> string \<Rightarrow> file_info option \<Rightarrow> os \<Rightarrow> go_error option \<times> os" where
  "writePreserving p data info w =
     (let mode = (case info of None \<Rightarrow> configFileMode | Some i \<Rightarrow> Perm i); tmp = p @ ''.tmp'' in
      case os_OpenTrunc tmp mode w of
        (Inl e, w1) \<Rightarrow> (Some (wrapf (''oidc-ssh: create '' @ tmp @ '': '') e []), w1)
      | (Inr f, w1) \<Rightarrow> (case fill_temp f mode data w1 of ((err, f'), w2) \<Rightarrow>
          (case close_temp tmp info err f' w2 of (err', w3) \<Rightarrow> replace_with tmp p err' w3)))"

definition setConfigValues :: "yaml_lib \<Rightarrow> string \<Rightarrow> strmap \<Rightarrow> string \<Rightarrow> os \<Rightarrow> go_error option \<times> os" where
  "setConfigValues Y p values comment w =
     (case os_Stat p w of
        (Inl e, w1) \<Rightarrow> (Some (wrapf (''oidc-ssh: stat '' @ p @ '': '') e []), w1)
      | (Inr info, w1) \<Rightarrow> (case os_ReadFile p w1 of
        (Inl e, w2) \<Rightarrow> (Some (wrapf (''oidc-ssh: read '' @ p @ '': '') e []), w2)
      | (Inr data, w2) \<Rightarrow> (case withConfigValues Y data values comment of
        Inl e \<Rightarrow> (Some e, w2)
      | Inr updated \<Rightarrow> if updated = data then (None, w2) else writePreserving p updated (Some info) w2)))"

section \<open>The enrolment record\<close>

definition recordName :: string where "recordName = ''host.json''"
definition recordMode :: nat where "recordMode = 420"

record Record =
  rc_HostID :: string
  rc_Name :: string
  rc_Hostname :: string
  rc_Groups :: "string list"
  rc_Accounts :: "string list"
  rc_Issuer :: string
  rc_APIBase :: string
  rc_Fingerprint :: string
  rc_AgentVersion :: string
  rc_EnrolledAt :: time

record record_lib =
  rl_marshal :: "Record \<Rightarrow> go_error + string"
  rl_unmarshal :: "string \<Rightarrow> go_error + Record"

definition recordPath :: "Config \<Rightarrow> string" where
  "recordPath cfg = filepath_Join [c_CacheDir cfg, recordName]"

text \<open>os.WriteFile: open with truncation, write, close; the first error is reported.\<close>

definition os_WriteFile :: "string \<Rightarrow> string \<Rightarrow> nat \<Rightarrow> os \<Rightarrow> go_error option \<times> os" where
  "os_WriteFile p data mode w =
     (case os_OpenTrunc p mode w of
        (Inl e, w1) \<Rightarrow> (Some e, w1)
      | (Inr f, w1) \<Rightarrow> (case f_Write f data w1 of ((r, f'), w2) \<Rightarrow>
          (case f_Close f' w2 of (c, w3) \<Rightarrow> ((case r of None \<Rightarrow> c | Some e \<Rightarrow> Some e), w3))))"

text \<open>From the encoding on; \<open>created\<close> says whether the directory had to be made.\<close>

definition putRecord :: "record_lib \<Rightarrow> Config \<Rightarrow> Record \<Rightarrow> bool \<Rightarrow> os \<Rightarrow> (bool \<times> go_error option) \<times> os" where
  "putRecord R cfg rec created w =
     (case rl_marshal R rec of
        Inl e \<Rightarrow> ((created, Some (wrapf ''oidc-ssh: encode enrolment record: '' e [])), w)
      | Inr data \<Rightarrow> (case os_WriteFile (recordPath cfg) (data @ [NL]) recordMode w of
          (Some e, w1) \<Rightarrow> ((created, Some (wrapf (''oidc-ssh: write '' @ recordPath cfg @ '': '') e [])), w1)
        | (None, w1) \<Rightarrow> ((created, None), w1)))"

definition writeRecord :: "record_lib \<Rightarrow> Config \<Rightarrow> Record \<Rightarrow> os \<Rightarrow> (bool \<times> go_error option) \<times> os" where
  "writeRecord R cfg rec w =
     (case os_Stat (c_CacheDir cfg) w of
        (Inl e, w1) \<Rightarrow>
          if Is e OsErrNotExist then
            (case os_MkdirAll (c_CacheDir cfg) 448 w1 of
               (Some e', w2) \<Rightarrow> ((False, Some (wrapf (''oidc-ssh: create '' @ c_CacheDir cfg @ '': '') e' [])), w2)
             | (None, w2) \<Rightarrow> putRecord R cfg rec True w2)
          else putRecord R cfg rec False w1
      | (Inr i, w1) \<Rightarrow> putRecord R cfg rec False w1)"

definition readRecord :: "record_lib \<Rightarrow> Config \<Rightarrow> os \<Rightarrow> (go_error + Record option) \<times> os" where
  "readRecord R cfg w =
     (case os_ReadFile (recordPath cfg) w of
        (Inl e, w1) \<Rightarrow> if Is e OsErrNotExist then (Inr None, w1)
          else (Inl (wrapf (''oidc-ssh: read '' @ recordPath cfg @ '': '') e []), w1)
      | (Inr data, w1) \<Rightarrow> (case rl_unmarshal R data of
          Inl e \<Rightarrow> (Inl (wrapf (''oidc-ssh: parse '' @ recordPath cfg @ '': '') e []), w1)
        | Inr rec \<Rightarrow> (Inr (Some rec), w1)))"

section \<open>The schedule is given\<close>

lemma sched_advance [simp]: "sched (advance d w) = sched w"
  by (simp add: advance_def)

lemma sched_calls [simp]:
  "sched (snd (observe f w)) = sched w" "sched (snd (commit g w)) = sched w"
  "sched (snd (f_Write h bs w)) = sched w"
  by (simp_all add: observe_def commit_def f_Write_def Let_def split: option.split sum.split prod.split)

lemma sched_named [simp]:
  "sched (snd (os_OpenTrunc p m w)) = sched w" "sched (snd (f_Chmod f m w)) = sched w"
  "sched (snd (f_Sync f w)) = sched w" "sched (snd (f_Close f w)) = sched w"
  "sched (snd (os_Stat p w)) = sched w" "sched (snd (os_ReadFile p w)) = sched w"
  by (simp_all add: os_OpenTrunc_def f_Chmod_def f_Sync_def f_Close_def os_Stat_def os_ReadFile_def)

section \<open>One replacement\<close>

text \<open>Changing the owner may be refused: then the new file keeps the owner of the process.\<close>

definition may_refuse :: "os \<Rightarrow> bool" where
  "may_refuse w = (\<exists>k e b. sched w k = (Some e, b) \<and> Is e OsErrPermission)"

lemma preserveOwner_spec:
  assumes "stable h (holds_at q x) w" "p \<noteq> q" "opened p f (\<lambda>n. i_data n = data \<and> i_mode n = m) w"
    "preserveOwner p info w = (r, w')"
  shows "stable h (holds_at q x) w'"
    and "r = None \<Longrightarrow> opened p f (\<lambda>n. i_data n = data \<and> i_mode n = m \<and> (i_owner n = info_owner info \<or> may_refuse w)) w'"
proof -
  have wf: "wf_disk (dsk w)" using stable_dsk [OF assms(1)] by (simp add: holds_at_def)
  have w': "w' = snd (os_Chown p (info_owner info) w)"
    using assms(4) by (auto simp: preserveOwner_def split: prod.splits option.splits)
  have "stable h (holds_at q x) (snd (os_Chown p (info_owner info) w))"
    unfolding os_Chown_def snd_unit_result
    using assms(3) stable_handle_upd [OF assms(1-3)] stable_dsk [OF assms(1)]
    by (intro stable_commit [OF assms(1)]) (auto simp: opened_def)
  then show "stable h (holds_at q x) w'" by (simp add: w')
  have less: "f_ino f < length (inodes (dsk w))"
    using assms(3) wf_disk_ent_less [OF wf] by (auto simp: opened_def)
  show "r = None \<Longrightarrow> opened p f (\<lambda>n. i_data n = data \<and> i_mode n = m \<and> (i_owner n = info_owner info \<or> may_refuse w)) w'"
  proof (cases "fault w")
    case None
    with assms(3) less show ?thesis
      by (simp add: w' os_Chown_def unit_result_def commit_def opened_def)
  next
    case (Some e)
    assume "r = None"
    with Some assms(4) have "Is e OsErrPermission"
      by (auto simp: preserveOwner_def os_Chown_def unit_result_def commit_def split: if_splits)
    with Some have "may_refuse w" unfolding may_refuse_def fault_def by (metis prod.collapse)
    with Some assms(3) show ?thesis
      by (simp add: w' os_Chown_def unit_result_def commit_def opened_def)
  qed
qed

lemma fill_temp_spec:
  assumes "stable h (holds_at q x) w" "p \<noteq> q" "opened p f (\<lambda>n. i_data n = []) w" "f_off f = 0"
    "fill_temp f m data w = ((r, f'), w')"
  shows "stable h (holds_at q x) w'"
    and "r = None \<Longrightarrow> opened p f (\<lambda>n. i_data n = data \<and> i_mode n = m) w'"
    and "sched w' = sched w"
proof -
  obtain o1 w1 where 1: "f_Chmod f m w = (o1, w1)" by fastforce
  note s1 = Chmod_spec [OF assms(1-3) 1]
  obtain o2 g w2 where 2: "f_Write f data w1 = ((o2, g), w2)" by (metis prod.exhaust)
  obtain o3 w3 where 3: "f_Sync g w2 = (o3, w3)" by fastforce
  have sc: "sched w1 = sched w" "sched w2 = sched w1" "sched w3 = sched w2"
    using sched_named(2) [of f m w] sched_calls(3) [of f data w1] sched_named(3) [of g w2] 1 2 3 by simp_all
  have ok: "stable h (holds_at q x) w2 \<and> (o2 = None \<longrightarrow> opened p f (\<lambda>n. i_data n = data \<and> i_mode n = m) w2)"
    if "o1 = None"
  proof -
    have op: "opened p f (\<lambda>n. i_data n = [] \<and> i_mode n = m) w1" by (rule s1(2) [OF that]) simp
    note s2 = Write_spec [OF s1(1) assms(2) op 2]
    have "opened p f (\<lambda>n. i_data n = data \<and> i_mode n = m) w2" if "o2 = None"
      by (rule s2(2) [OF that assms(4)]) simp_all
    with s2(1) show ?thesis by blast
  qed
  have s3: "stable h (holds_at q x) w3 \<and> dsk w3 = dsk w2" if "stable h (holds_at q x) w2"
    using stable_sync_close(1) [OF that, of g] stable_sync_close(3) [of g w2] 3 by simp
  have "stable h (holds_at q x) w' \<and> sched w' = sched w
    \<and> (r = None \<longrightarrow> opened p f (\<lambda>n. i_data n = data \<and> i_mode n = m) w')"
  proof (cases o1)
    case (Some e)
    with assms(5) 1 have "r \<noteq> None" "w' = w1" by (auto simp: fill_temp_def)
    with s1(1) sc show ?thesis by auto
  next
    case None
    note ok = ok [OF None]
    with s3 have s3: "stable h (holds_at q x) w3" "dsk w3 = dsk w2" by blast+
    note od = opened_dsk [OF s3(2), of p f "\<lambda>n. i_data n = data \<and> i_mode n = m"]
    from assms(5) 1 2 3 None have "(r = None \<longrightarrow> o2 = None) \<and> (w' = w2 \<or> w' = w3) \<and> (r = None \<longrightarrow> w' = w3)"
      by (cases o2) (auto simp: fill_temp_def)
    with ok s3 sc od show ?thesis by auto
  qed
  then show "stable h (holds_at q x) w'" "sched w' = sched w"
    "r = None \<Longrightarrow> opened p f (\<lambda>n. i_data n = data \<and> i_mode n = m) w'" by blast+
qed

lemma close_temp_spec:
  assumes "stable h (holds_at q x) w" "p \<noteq> q" "close_temp p (Some info) e g w = (r, w')"
    "e = None \<Longrightarrow> opened p f (\<lambda>n. i_data n = data \<and> i_mode n = m) w"
  shows "stable h (holds_at q x) w'"
    and "r = None \<Longrightarrow> opened p f (\<lambda>n. i_data n = data \<and> i_mode n = m \<and> (i_owner n = info_owner info \<or> may_refuse w)) w'"
proof -
  obtain o1 w1 where 1: "f_Close g w = (o1, w1)" by fastforce
  have s1: "stable h (holds_at q x) w1" "dsk w1 = dsk w" "may_refuse w1 = may_refuse w"
    using stable_sync_close(2) [OF assms(1), of g] stable_sync_close(4) [of g w] sched_named(4) [of g w] 1
    by (simp_all add: may_refuse_def)
  have "stable h (holds_at q x) w'
    \<and> (r = None \<longrightarrow> opened p f (\<lambda>n. i_data n = data \<and> i_mode n = m \<and> (i_owner n = info_owner info \<or> may_refuse w)) w')"
  proof (cases "e = None \<and> o1 = None")
    case False
    with assms(3) 1 have "r \<noteq> None" "w' = w1" by (auto simp: close_temp_def split: option.splits)
    with s1(1) show ?thesis by auto
  next
    case True
    with assms(3) 1 have run: "preserveOwner p info w1 = (r, w')" by (simp add: close_temp_def)
    have "opened p f (\<lambda>n. i_data n = data \<and> i_mode n = m) w1"
      using assms(4) True opened_dsk [OF s1(2)] by blast
    from preserveOwner_spec [OF s1(1) assms(2) this run] s1(3) show ?thesis by simp
  qed
  then show "stable h (holds_at q x) w'"
    "r = None \<Longrightarrow> opened p f (\<lambda>n. i_data n = data \<and> i_mode n = m \<and> (i_owner n = info_owner info \<or> may_refuse w)) w'"
    by blast+
qed

lemma replace_with_run:
  assumes "stable h (holds_at q x) w" "tmp \<noteq> q" "replace_with tmp p e w = (r, w')" "e = None \<Longrightarrow> opened tmp f G w"
  shows "ends_well h q x tmp p G r w'"
proof (cases e)
  case (Some e')
  with assms stable_Remove [OF assms(1,2)] show ?thesis by (auto simp: replace_with_def ends_well_def)
next
  case None
  obtain o1 w1 where 1: "os_Rename tmp p w = (o1, w1)" by fastforce
  from assms(1,4) None obtain n where n: "file_at (dsk w) tmp = Some n" "G n"
    using opened_file_at [of w tmp f G] stable_dsk [OF assms(1)] by (auto simp: holds_at_def)
  show ?thesis
  proof (cases o1)
    case (Some e1)
    with 1 have "stable h (holds_at q x) w1" using Rename_fails assms(1) by blast
    with assms(2,3) None Some 1 show ?thesis by (auto simp: replace_with_def ends_well_def stable_Remove)
  next
    case o1: None
    with assms(3) None 1 have "r = None" "w' = w1" by (auto simp: replace_with_def)
    with assms(1) n 1 o1 show ?thesis by (auto simp: ends_well_def)
  qed
qed

lemma writePreserving_run:
  assumes "stable h (holds_at q x) w" "q \<noteq> p @ ''.tmp''" "writePreserving p data (Some info) w = (r, w')"
  shows "ends_well h q x (p @ ''.tmp'') p
    (\<lambda>n. i_data n = data \<and> i_mode n = Perm info \<and> (i_owner n = info_owner info \<or> may_refuse w)) r w'"
proof -
  define tmp where "tmp = p @ ''.tmp''"
  have q: "tmp \<noteq> q" using assms(2) tmp_def by simp
  note run = assms(3) [unfolded writePreserving_def Let_def option.case, folded tmp_def]
  obtain o1 w1 where 1: "os_OpenTrunc tmp (Perm info) w = (o1, w1)" by fastforce
  note s1 = OpenTrunc_spec [OF assms(1) q 1]
  have "ends_well h q x tmp p
    (\<lambda>n. i_data n = data \<and> i_mode n = Perm info \<and> (i_owner n = info_owner info \<or> may_refuse w)) r w'"
  proof (cases o1)
    case (Inl e)
    with run 1 s1(1) show ?thesis by (auto simp: ends_well_def)
  next
    case (Inr f)
    then have f: "f_off f = 0" "opened tmp f (\<lambda>n. i_data n = []) w1" using s1(2) [OF Inr] by auto
    obtain o2 f' w2 where 2: "fill_temp f (Perm info) data w1 = ((o2, f'), w2)" by (metis prod.exhaust)
    note s2 = fill_temp_spec [OF s1(1) q f(2,1) 2]
    obtain o3 w3 where 3: "close_temp tmp (Some info) o2 f' w2 = (o3, w3)" by fastforce
    note s3 = close_temp_spec [OF s2(1) q 3 s2(2)]
    have "may_refuse w2 = may_refuse w"
      using s2(3) sched_named(1) [of tmp "Perm info" w] 1 by (simp add: may_refuse_def)
    with s3(2) have "o3 = None \<Longrightarrow> opened tmp f
        (\<lambda>n. i_data n = data \<and> i_mode n = Perm info \<and> (i_owner n = info_owner info \<or> may_refuse w)) w3" by simp
    moreover have "replace_with tmp p o3 w3 = (r, w')" using run 1 2 3 Inr by simp
    ultimately show ?thesis using replace_with_run [OF s3(1) q] by blast
  qed
  then show ?thesis by (simp add: tmp_def)
qed
section \<open>The rewrite of the configuration\<close>

definition rewritten :: "yaml_lib \<Rightarrow> strmap \<Rightarrow> string \<Rightarrow> bool \<Rightarrow> inode \<Rightarrow> inode \<Rightarrow> bool" where
  "rewritten Y values comment lax n n' =
     (withConfigValues Y (i_data n) values comment = Inr (i_data n') \<and> i_mode n' = i_mode n mod 512
      \<and> (i_owner n' = i_owner n \<or> lax))"

lemma looks [simp]:
  "stable h P w \<Longrightarrow> stable h P (snd (os_Stat p w))" "stable h P w \<Longrightarrow> stable h P (snd (os_ReadFile p w))"
  "dsk (snd (os_Stat p w)) = dsk w" "dsk (snd (os_ReadFile p w)) = dsk w"
  by (simp_all add: os_Stat_def os_ReadFile_def)

lemma setConfigValues_steps:
  "os_Stat p w = (Inr info, w1) \<Longrightarrow> os_ReadFile p w1 = (Inr data, w2) \<Longrightarrow> withConfigValues Y data values comment = Inr out
    \<Longrightarrow> out \<noteq> data \<Longrightarrow> setConfigValues Y p values comment w = writePreserving p out (Some info) w2"
  by (simp add: setConfigValues_def)

lemma setConfigValues_run:
  assumes "stable h (holds_at q x) w" "q \<noteq> p @ ''.tmp''" "file_at (dsk w) p = Some n"
    "setConfigValues Y p values comment w = (r, w')"
  shows "(dsk w' = dsk w \<and> stable h (holds_at q x) w'
        \<and> (r = None \<longrightarrow> withConfigValues Y (i_data n) values comment = Inr (i_data n)))
      \<or> ends_well h q x (p @ ''.tmp'') p (rewritten Y values comment (may_refuse w) n) r w'"
proof -
  obtain o1 w1 where 1: "os_Stat p w = (o1, w1)" by fastforce
  obtain o2 w2 where 2: "os_ReadFile p w1 = (o2, w2)" by fastforce
  have s: "stable h (holds_at q x) w1" "dsk w1 = dsk w" "stable h (holds_at q x) w2" "dsk w2 = dsk w"
      "may_refuse w2 = may_refuse w"
    using looks(1) [of h "holds_at q x" w p] looks(2) [of h "holds_at q x" w1 p] looks(3) [of p w] looks(4) [of p w1] assms(1) 1 2
      sched_named(5) [of p w] sched_named(6) [of p w1] by (simp_all add: may_refuse_def)
  have i: "o1 = Inr (FileInfo False (i_mode n) (i_owner n))" if "\<nexists>e. o1 = Inl e"
    using 1 that assms(3) by (auto simp: os_Stat_def observe_def split: option.splits)
  have d: "o2 = Inr (i_data n)" if "\<nexists>e. o2 = Inl e"
    using 2 that s(2) assms(3) by (auto simp: os_ReadFile_def observe_def split: option.splits)
  show ?thesis
  proof (cases "(\<exists>e. o1 = Inl e) \<or> (\<exists>e. o2 = Inl e)
      \<or> (\<exists>e. withConfigValues Y (i_data n) values comment = Inl e) \<or> withConfigValues Y (i_data n) values comment = Inr (i_data n)")
    case True
    with assms(4) 1 2 i d s show ?thesis
      by (auto simp: setConfigValues_def split: sum.splits if_splits)
  next
    case False
    then obtain out where out: "withConfigValues Y (i_data n) values comment = Inr out" "out \<noteq> i_data n"
      by (metis sum.exhaust)
    define info where "info = FileInfo False (i_mode n) (i_owner n)"
    have "writePreserving p out (Some info) w2 = (r, w')"
      using assms(4) 1 2 i d False out by (simp add: setConfigValues_def info_def)
    from writePreserving_run [OF s(3) assms(2) this]
    have "ends_well h q x (p @ ''.tmp'') p (\<lambda>n'. i_data n' = out \<and> i_mode n' = Perm info
        \<and> (i_owner n' = info_owner info \<or> may_refuse w)) r w'" by (simp add: s(5))
    moreover have "rewritten Y values comment (may_refuse w) n = (\<lambda>n'. i_data n' = out \<and> i_mode n' = Perm info
        \<and> (i_owner n' = info_owner info \<or> may_refuse w))"
      by (auto simp: rewritten_def out(1) info_def Perm_def)
    ultimately show ?thesis by simp
  qed
qed
lemma setConfigValues_outcome:
  assumes "stable h (holds_at p (Some n)) w" "setConfigValues Y p values comment w = (r, w')"
  shows "\<exists>hs. hist w' = h @ hs
    \<and> list_all (\<lambda>d. \<exists>n'. file_at d p = Some n' \<and> n' \<in> {n} \<union> Collect (rewritten Y values comment (may_refuse w) n)) hs
    \<and> (r \<noteq> None \<longrightarrow> file_at (dsk w') p = Some n)
    \<and> (r = None \<longrightarrow> (\<exists>n'. file_at (dsk w') p = Some n' \<and> withConfigValues Y (i_data n) values comment = Inr (i_data n')
        \<and> n' \<in> {n} \<union> Collect (rewritten Y values comment (may_refuse w) n))) \<and> wf_disk (dsk w')"
proof -
  have ne: "p \<noteq> p @ ''.tmp''" by simp
  have f: "file_at (dsk w) p = Some n" using assms(1) by (simp add: stable_def holds_at_def)
  have old: "\<exists>hs. hist v = h @ hs \<and> list_all (\<lambda>d. file_at d p = Some n) hs" if "stable h (holds_at p (Some n)) v" for v
    using that by (auto simp: stable_def holds_at_def list_all_iff)
  consider (kept) "dsk w' = dsk w" "stable h (holds_at p (Some n)) w'"
      "r = None \<longrightarrow> withConfigValues Y (i_data n) values comment = Inr (i_data n)"
    | (failed) "r \<noteq> None" "stable h (holds_at p (Some n)) w'"
    | (renamed) w5 n' where "r = None" "stable h (holds_at p (Some n)) w5"
        "file_at (dsk w5) (p @ ''.tmp'') = Some n'" "rewritten Y values comment (may_refuse w) n n'"
        "os_Rename (p @ ''.tmp'') p w5 = (None, w')"
    using setConfigValues_run [OF assms(1) ne f assms(2)] unfolding ends_well_def by blast
  then show ?thesis
  proof cases
    case kept
    with old [OF kept(2)] f stable_dsk [OF kept(2)] show ?thesis by (auto simp: list_all_iff holds_at_def)
  next
    case failed
    with old [OF failed(2)] stable_dsk [OF failed(2)] show ?thesis
      by (auto simp: list_all_iff holds_at_def)
  next
    case renamed
    note rn = Rename_spec(1,2) [OF renamed(2) ne [symmetric] renamed(3,5)]
    from old [OF renamed(2)] obtain hs where "hist w5 = h @ hs" "list_all (\<lambda>d. file_at d p = Some n) hs" by blast
    with rn renamed(1,4) show ?thesis
      by (intro exI [of _ "hs @ [dsk w']"]) (auto simp: list_all_iff rewritten_def)
  qed
qed

section \<open>Which lines an edit changes\<close>

fun key_nodes :: "yaml_node list \<Rightarrow> yaml_node list" where
  "key_nodes (k # v # rest) = k # key_nodes rest"
| "key_nodes _ = []"

definition entry_lines :: "yaml_node \<Rightarrow> int list" where
  "entry_lines m = map nd_Line (key_nodes (nd_Content m))"

lemma entry_in_Some: "entry_in xs key = Some (k, v) \<Longrightarrow> k \<in> set (key_nodes xs) \<and> nd_Value k = key"
  by (induction xs key rule: entry_in.induct) (auto split: if_splits)

lemma entry_line_inj:
  assumes "distinct (entry_lines m)" "mappingEntry m a = Some (k, v)" "mappingEntry m b = Some (k', v')"
    "nd_Line k = nd_Line k'"
  shows "a = b"
proof -
  have "k \<in> set (key_nodes (nd_Content m))" "k' \<in> set (key_nodes (nd_Content m))" "nd_Value k = a" "nd_Value k' = b"
    using assms(2,3) entry_in_Some by (auto simp: mappingEntry_def)
  with assms(1,4) show ?thesis by (auto simp: entry_lines_def distinct_map dest: inj_onD)
qed

text \<open>The key whose entry stands on a line is among those to be set.\<close>

definition set_at :: "yaml_node \<Rightarrow> string list \<Rightarrow> nat \<Rightarrow> bool" where
  "set_at root keys i = list_ex (\<lambda>key. case mappingEntry root key of
     None \<Rightarrow> False | Some (k, v) \<Rightarrow> nd_Line k - 1 = int i) keys"

definition encoded :: "yaml_lib \<Rightarrow> strmap \<Rightarrow> string \<Rightarrow> string" where
  "encoded Y values key = (case encodeScalar Y (value_of values key) of Inl e \<Rightarrow> [] | Inr s \<Rightarrow> s)"

definition new_entries :: "yaml_lib \<Rightarrow> yaml_node \<Rightarrow> strmap \<Rightarrow> string list \<Rightarrow> string list" where
  "new_entries Y root values keys =
     map (\<lambda>key. key @ '': '' @ encoded Y values key) (filter (\<lambda>key. mappingEntry root key = None) keys)"

text \<open>What the loop has done to the entry of one key: line \<open>l\<close> was the whole entry and is now \<open>l'\<close>.\<close>

definition entry_set :: "yaml_lib \<Rightarrow> strmap \<Rightarrow> string \<Rightarrow> yaml_node \<times> yaml_node \<Rightarrow> string list \<Rightarrow> string list \<Rightarrow> bool" where
  "entry_set Y values key e ls ls' =
     (let i = nd_Line (fst e) - 1 in 0 \<le> i \<and> i < int (length ls) \<and> isSingleLineEntry Y (ls ! nat i) key (snd e)
      \<and> ls' ! nat i = new_line (fst e) (snd e) key (encoded Y values key))"

lemma set_loop_spec:
  assumes "distinct (entry_lines root)" "distinct keys" "set_loop Y root values keys ls app = Inr (ls', app')"
  shows "length ls' = length ls"
    and "\<And>i. i < length ls \<Longrightarrow> \<not> set_at root keys i \<Longrightarrow> ls' ! i = ls ! i"
    and "\<And>key e. key \<in> set keys \<Longrightarrow> mappingEntry root key = Some e \<Longrightarrow> entry_set Y values key e ls ls'"
    and "app' = app @ new_entries Y root values keys"
proof -
  have "length ls' = length ls \<and> (\<forall>i < length ls. \<not> set_at root keys i \<longrightarrow> ls' ! i = ls ! i)
      \<and> (\<forall>key \<in> set keys. \<forall>e. mappingEntry root key = Some e \<longrightarrow> entry_set Y values key e ls ls')
      \<and> app' = app @ new_entries Y root values keys"
    using assms(2,3)
  proof (induction keys arbitrary: ls app)
    case Nil
    then show ?case by (simp add: new_entries_def)
  next
    case (Cons key keys)
    from Cons.prems(2) obtain enc where enc: "encodeScalar Y (value_of values key) = Inr enc"
      by (auto split: sum.splits)
    then have e: "encoded Y values key = enc" by (simp add: encoded_def)
    show ?case
    proof (cases "mappingEntry root key")
      case None
      with Cons.prems enc have "set_loop Y root values keys ls (app @ [key @ '': '' @ enc]) = Inr (ls', app')" by simp
      from Cons.IH [OF _ this] Cons.prems(1) None e show ?thesis by (simp add: set_at_def new_entries_def)
    next
      case (Some kv)
      obtain k v where kv: "kv = (k, v)" by fastforce
      define i where "i = nat (nd_Line k - 1)"
      from Cons.prems(2) Some enc kv have i: "0 \<le> nd_Line k - 1" "nd_Line k - 1 < int (length ls)"
        "isSingleLineEntry Y (ls ! i) key v"
        "set_loop Y root values keys (ls[i := new_line k v key enc]) app = Inr (ls', app')"
        by (auto simp: Let_def i_def split: if_splits)
      note IH = Cons.IH [OF _ i(4)]
      have other: "nd_Line k' \<noteq> nd_Line k" if "key' \<in> set keys" "mappingEntry root key' = Some (k', v')" for key' k' v'
        using entry_line_inj [OF assms(1) Some [unfolded kv] that(2)] that(1) Cons.prems(1) by auto
      then have fresh: "\<not> set_at root keys i"
        using i(1) by (fastforce simp: set_at_def list_ex_iff i_def split: option.splits)
      have "entry_set Y values key kv ls ls'"
        using IH fresh Cons.prems(1) i by (simp add: entry_set_def kv e i_def [symmetric] Let_def) (simp add: i_def)
      moreover have "entry_set Y values key' e' ls ls'" if "key' \<in> set keys" "mappingEntry root key' = Some e'" for key' e'
      proof -
        have "nat (nd_Line (fst e') - 1) \<noteq> i \<or> nd_Line (fst e') - 1 < 0"
          using other [OF that(1), of "fst e'" "snd e'"] that(2) i(1) by (auto simp: i_def)
        moreover from IH Cons.prems(1) that have "entry_set Y values key' e' (ls[i := new_line k v key enc]) ls'"
          by (cases e') auto
        ultimately show ?thesis by (auto simp: entry_set_def Let_def)
      qed
      moreover have "ls' ! j = ls ! j" if "j < length ls" "\<not> set_at root (key # keys) j" for j
        using that IH Cons.prems(1) Some kv i(1) by (auto simp: set_at_def i_def nth_list_update)
      ultimately show ?thesis
        using IH Cons.prems(1) Some by (auto simp: new_entries_def)
    qed
  qed
  then show "length ls' = length ls" "\<And>i. i < length ls \<Longrightarrow> \<not> set_at root keys i \<Longrightarrow> ls' ! i = ls ! i"
    "\<And>key e. key \<in> set keys \<Longrightarrow> mappingEntry root key = Some e \<Longrightarrow> entry_set Y values key e ls ls'"
    "app' = app @ new_entries Y root values keys" by blast+
qed
text \<open>A parser and an encoder for one file, and a disk that holds it.\<close>

definition sample_yaml :: yaml_lib where
  "sample_yaml = (let scalar = (\<lambda>t x c l col. Node ScalarNode False False t x c l col []) in
     \<lparr>yl_unmarshal = (\<lambda>s. Inr (Node DocumentNode False False [] [] [] 1 1
        [Node MappingNode False False ''!!map'' [] [] 1 1 [scalar ''!!str'' ''a'' [] 1 1, scalar ''!!int'' ''1'' ''# n'' 1 4]])),
      yl_marshal = (\<lambda>s. Inr (s @ [NL]))\<rparr>)"

definition sample_disk :: "(nat \<Rightarrow> go_error option \<times> nat) \<Rightarrow> os" where
  "sample_disk faults = \<lparr>dsk = \<lparr>ents = [(''/c'', FileEnt 0)], inodes = [\<lparr>i_mode = 416, i_owner = (0, 7), i_data = ''a: 1 # n''\<rparr>]\<rparr>,
     tick = 0, sched = faults, hist = [], umasked = id, euser = (0, 0)\<rparr>"

lemma sample_disk_ok: "wf_disk (dsk (sample_disk f))"
  "file_at (dsk (sample_disk f)) ''/c'' = Some \<lparr>i_mode = 416, i_owner = (0, 7), i_data = ''a: 1 # n''\<rparr>"
  by code_simp+

lemma sample_encode: "encodeScalar sample_yaml ''2'' = Inr ''2''" "encodeScalar sample_yaml ''3'' = Inr ''3''"
  by code_simp+

lemma sample_edit:
  "data \<in> {''a: 1 # n'', ''a: 1 # n'' @ [NL]} \<Longrightarrow> withConfigValues sample_yaml data [(''b'', ''3''), (''a'', ''2'')] ''# x''
     = Inr (''a: 2 # n'' @ [NL] @ [NL] @ ''# x'' @ [NL] @ ''b: 3'' @ [NL])"
proof -
  assume "data \<in> {''a: 1 # n'', ''a: 1 # n'' @ [NL]}"
  moreover have "splitLines ''a: 1 # n'' = [''a: 1 # n'', []]" "splitLines (''a: 1 # n'' @ [NL]) = [''a: 1 # n'', []]" by code_simp+
  ultimately have "splitLines data = [''a: 1 # n'', []]" by blast
  moreover have "sorted_keys [(''b'', ''3''), (''a'', ''2'')] = [''a'', ''b'']" by code_simp
  ultimately show ?thesis
    using sample_encode
    by (simp add: withConfigValues_def topLevelMapping_def value_of_def mappingEntry_def isSingleLineEntry_def
        sample_yaml_def new_line_def Let_def HasPrefix_def HasSuffix_def)
qed

text \<open>The lines of a file, each without its line break; a last line that has none is completed.\<close>

lemma splitLines_eq: "splitLines data = split_on NL (if data = [] \<or> last data = NL then data else data @ [NL])"
proof (cases "data = []")
  case False
  then obtain d c where d: "data = d @ [c]" by (metis append_butlast_last_id)
  have end': "split_on NL (x @ [NL]) = split_on NL x @ [[]]" for x using split_on_sep [of NL x "[]"] by simp
  show ?thesis
  proof (cases "c = NL")
    case True
    with d show ?thesis by (simp add: splitLines_def end' Let_def)
  next
    case False
    have "last (split_on NL (x @ [c])) \<noteq> []" for x
    proof (induction x)
      case (Cons a x)
      then show ?case by (cases "split_on NL (x @ [c])") (auto split: if_splits)
    qed (use False in simp)
    with d False show ?thesis by (simp add: splitLines_def end' Let_def del: append_assoc)
  qed
qed (simp add: splitLines_def)

text \<open>C11: setting values edits single lines. Take a file that is empty or ends its last line. It has
  exactly one splitting \<open>old\<close> into lines without a line break, and on success the result is these
  lines with only those changed that hold an entry to be set, followed by the entries the file did
  not have: every other line survives byte for byte and in its place, a line that is changed was by
  itself the whole entry of its key and now carries that key with the encoded value, its
  indentation and its comment, and nothing is written twice. (Two keys of a block mapping stand on
  different lines.)\<close>

theorem withConfigValues_local:
  assumes "withConfigValues Y data values comment = Inr out" "topLevelMapping Y data = Inr root"
    "distinct (entry_lines root)" "distinct (map fst values)" "data = [] \<or> last data = NL"
  shows "\<exists>old ls. data = Join [NL] old \<and> old \<noteq> [] \<and> list_all (\<lambda>l. NL \<notin> set l) old \<and> length ls = length old
    \<and> (\<forall>i < length ls. \<not> set_at root (map fst values) i \<longrightarrow> ls ! i = old ! i)
    \<and> (\<forall>key e. key \<in> fst ` set values \<and> mappingEntry root key = Some e \<longrightarrow> entry_set Y values key e old ls)
    \<and> out = Join [NL] ls @ (case new_entries Y root values (sorted_keys values) of [] \<Rightarrow> []
        | added \<Rightarrow> (if Join [NL] ls \<noteq> [] \<and> \<not> HasSuffix (Join [NL] ls) [NL] then [NL] else [])
            @ (if comment \<noteq> [] then [NL] @ comment @ [NL] else []) @ Join [NL] added @ [NL])"
proof -
  obtain ls app where run: "set_loop Y root values (sorted_keys values) (splitLines data) [] = Inr (ls, app)"
    using assms(1,2) by (auto simp: withConfigValues_def split: sum.splits)
  have "distinct (sorted_keys values)" using assms(4) by (simp add: sorted_keys_def)
  note spec = set_loop_spec [OF assms(3) this run]
  have "set_at root (sorted_keys values) = set_at root (map fst values)"
    by (simp add: fun_eq_iff set_at_def list_ex_iff)
  with spec have "length ls = length (splitLines data)
    \<and> (\<forall>i < length ls. \<not> set_at root (map fst values) i \<longrightarrow> ls ! i = splitLines data ! i)
    \<and> (\<forall>key e. key \<in> fst ` set values \<and> mappingEntry root key = Some e \<longrightarrow> entry_set Y values key e (splitLines data) ls)"
    by simp
  moreover have "splitLines data = split_on NL data" using assms(5) by (simp add: splitLines_eq)
  then have "data = Join [NL] (splitLines data)" "splitLines data \<noteq> []" "list_all (\<lambda>l. NL \<notin> set l) (splitLines data)"
    using split_on_elem by (auto simp: list_all_iff)
  moreover have "out = Join [NL] ls @ (case app of [] \<Rightarrow> []
        | added \<Rightarrow> (if Join [NL] ls \<noteq> [] \<and> \<not> HasSuffix (Join [NL] ls) [NL] then [NL] else [])
            @ (if comment \<noteq> [] then [NL] @ comment @ [NL] else []) @ Join [NL] added @ [NL])"
    using assms(1,2) run by (auto simp: withConfigValues_def Let_def split: list.split)
  ultimately show ?thesis using spec(4) by (intro exI [of _ "splitLines data"] exI [of _ ls]) auto
qed

theorem withConfigValues_local_witness:
  "\<exists>root ls. topLevelMapping sample_yaml (''a: 1 # n'' @ [NL]) = Inr root \<and> length ls = 2 \<and> ls ! 1 = []
    \<and> new_entries sample_yaml root [(''b'', ''3''), (''a'', ''2'')] [''a'', ''b''] = [''b: 3'']
    \<and> entry_set sample_yaml [(''b'', ''3''), (''a'', ''2'')] ''a'' (hd (nd_Content root), last (nd_Content root)) [''a: 1 # n'', []] ls"
proof -
  let ?data = "''a: 1 # n'' @ [NL]"
  obtain root where r: "topLevelMapping sample_yaml ?data = Inr root" "length (nd_Content root) = 2"
      "mappingEntry root ''a'' = Some (hd (nd_Content root), last (nd_Content root))" "mappingEntry root ''b'' = None"
      "entry_lines root = [1]" "nd_Line (hd (nd_Content root)) = 1"
    by (simp add: topLevelMapping_def sample_yaml_def mappingEntry_def entry_lines_def Let_def)
  have l: "split_on NL ?data = [''a: 1 # n'', []]" by code_simp
  have d: "distinct (entry_lines root)" "distinct (map fst [(''b'', ''3''), (''a'', ''2'')])" "?data = [] \<or> last ?data = NL"
    using r by simp_all
  have n: "new_entries sample_yaml root [(''b'', ''3''), (''a'', ''2'')] [''a'', ''b''] = [''b: 3'']"
    using r(3,4) sample_encode by (simp add: new_entries_def encoded_def value_of_def)
  have s: "\<not> set_at root (map fst [(''b'', ''3''), (''a'', ''2'')]) 1" using r by (simp add: set_at_def)
  have e: "withConfigValues sample_yaml ?data [(''b'', ''3''), (''a'', ''2'')] ''# x''
      = Inr (''a: 2 # n'' @ [NL] @ [NL] @ ''# x'' @ [NL] @ ''b: 3'' @ [NL])" by (rule sample_edit) simp
  obtain old ls where ls: "?data = Join [NL] old" "old \<noteq> []" "list_all (\<lambda>l. NL \<notin> set l) old" "length ls = length old"
    "\<forall>i < length ls. \<not> set_at root (map fst [(''b'', ''3''), (''a'', ''2'')]) i \<longrightarrow> ls ! i = old ! i"
    "\<forall>key e. key \<in> fst ` set [(''b'', ''3''), (''a'', ''2'')] \<and> mappingEntry root key = Some e
      \<longrightarrow> entry_set sample_yaml [(''b'', ''3''), (''a'', ''2'')] key e old ls"
    using withConfigValues_local [OF e r(1) d] by blast
  have "split_on NL (Join [NL] old) = old" using ls(2,3) by (intro split_on_Join) (simp_all add: list_all_iff)
  with l have old: "old = [''a: 1 # n'', []]" unfolding ls(1) [symmetric] by simp
  with ls(4,5) s have "length ls = 2" "ls ! 1 = []" by simp_all
  moreover have "entry_set sample_yaml [(''b'', ''3''), (''a'', ''2'')] ''a'' (hd (nd_Content root), last (nd_Content root))
      [''a: 1 # n'', []] ls"
    using ls(6) [rule_format, of "''a''" "(hd (nd_Content root), last (nd_Content root))"] r(3) old by simp
  ultimately show ?thesis using r(1) n by blast
qed

text \<open>C10: the rewrite is safe. At every moment, crash or fault included, the configuration is the
  old file or the completely rewritten one, with the permission bits of the old file and with its
  owner unless the system may refuse a change of owner; an error leaves the old file, and no file
  but the configuration and its temporary neighbour is touched.\<close>

theorem setConfigValues_safe:
  assumes "wf_disk (dsk w)" "file_at (dsk w) p = Some n" "setConfigValues Y p values comment w = (r, w')"
  shows "\<exists>hs. hist w' = hist w @ hs
    \<and> list_all (\<lambda>d. \<exists>n'. file_at d p = Some n' \<and> n' \<in> {n} \<union> Collect (rewritten Y values comment (may_refuse w) n)) hs
    \<and> (r \<noteq> None \<longrightarrow> file_at (dsk w') p = Some n)
    \<and> (r = None \<longrightarrow> (\<exists>n'. file_at (dsk w') p = Some n' \<and> withConfigValues Y (i_data n) values comment = Inr (i_data n')
        \<and> n' \<in> {n} \<union> Collect (rewritten Y values comment (may_refuse w) n)))
    \<and> (\<forall>q. q \<noteq> p \<and> q \<noteq> p @ ''.tmp'' \<longrightarrow> file_at (dsk w') q = file_at (dsk w) q)"
proof -
  have st: "stable (hist w) (holds_at q (file_at (dsk w) q)) w" for q
    using assms(1) by (intro stable_start) (simp add: holds_at_def)
  have "file_at (dsk w') q = file_at (dsk w) q" if "q \<noteq> p" "q \<noteq> p @ ''.tmp''" for q
  proof -
    have "stable (hist w) (holds_at q (file_at (dsk w) q)) w'"
      using setConfigValues_run [OF st that(2) assms(2,3)] Rename_frame [OF _ _ that(2,1)]
      unfolding ends_well_def by fastforce
    then show ?thesis by (simp add: stable_def holds_at_def)
  qed
  with setConfigValues_outcome [OF st [of p, unfolded assms(2)] assms(3)] show ?thesis by blast
qed

theorem setConfigValues_safe_witness:
  "let f = (\<lambda>i. (if i = 7 then Some (sentinel_error OsErrPermission ''EPERM'') else None, 4)) in
   read_file (dsk (snd (setConfigValues sample_yaml ''/c'' [(''b'', ''3''), (''a'', ''2'')] ''# x'' (sample_disk f)))) ''/c''
     = Some (''a: 2 # n'' @ [NL] @ [NL] @ ''# x'' @ [NL] @ ''b: 3'' @ [NL])"
proof -
  define f where "f = (\<lambda>i :: nat. (if i = 7 then Some (sentinel_error OsErrPermission ''EPERM'') else None, 4 :: nat))"
  define out where "out = ''a: 2 # n'' @ [NL] @ [NL] @ ''# x'' @ [NL] @ ''b: 3'' @ [NL]"
  let ?w = "sample_disk f" and ?set = "setConfigValues sample_yaml ''/c'' [(''b'', ''3''), (''a'', ''2'')] ''# x''"
  note d = sample_disk_ok [of f]
  define w1 where "w1 = snd (os_Stat ''/c'' ?w)"
  define w2 where "w2 = snd (os_ReadFile ''/c'' w1)"
  have "fst (writePreserving ''/c'' out (Some (FileInfo False 416 (0, 7))) w2) = None"
    unfolding w2_def w1_def f_def out_def by code_simp
  moreover have "os_Stat ''/c'' ?w = (Inr (FileInfo False 416 (0, 7)), w1)" "os_ReadFile ''/c'' w1 = (Inr ''a: 1 # n'', w2)"
    using d(2) by (simp_all add: w1_def w2_def os_Stat_def os_ReadFile_def observe_def fault_def advance_def f_def sample_disk_def)
  then have "?set ?w = writePreserving ''/c'' out (Some (FileInfo False 416 (0, 7))) w2"
    by (rule setConfigValues_steps) (simp_all add: sample_edit out_def)
  ultimately obtain w' where run: "?set ?w = (None, w')" by (metis prod.collapse)
  have e: "withConfigValues sample_yaml ''a: 1 # n'' [(''b'', ''3''), (''a'', ''2'')] ''# x'' = Inr out"
    by (simp add: sample_edit out_def)
  have "read_file (dsk w') ''/c'' = Some out"
    using setConfigValues_safe [OF d run] by (auto simp: e read_file_def)
  with run show ?thesis by (simp only: f_def [symmetric] out_def [symmetric] Let_def snd_conv)
qed

end
