(* ===== verification/EnrollCmd.thy ===== *)
theory EnrollCmd
  imports ConfigEdit AuthorizedKeysCmd OidcClient
begin

text \<open>
  The command \<^verbatim>\<open>oidc-ssh enroll\<close> (\<^verbatim>\<open>src/internal/sshcmd/enroll.go\<close>): the checks of the arguments, the key
  pair, discovery and the device flow with the enrolment intent, the registration at the provider,
  and only then the rewrite of the configuration, the record and the report. \<open>register\<close> is the part
  up to the answer of the provider. The lemmas show that the configuration is the last thing to
  change, and that the groups a person approves are the groups the provider records.
\<close>

section \<open>Arguments and libraries\<close>

text \<open>\<open>el_keypair\<close> is what the key generator yields, as public and private key.\<close>

record ('h, 'p, 'w) enroll_libs =
  el_ssh :: "('h, 'w) sshlibs"
  el_oidc :: "('h, 'p, 'w) oidc_env"
  el_yaml :: yaml_lib
  el_record :: record_lib
  el_keypair :: "go_error + (string \<times> string)"

definition intentEnroll :: string where "intentEnroll = ''enroll''"
definition discoveryTimeoutFactor :: int where "discoveryTimeoutFactor = 3"
definition identityDirMode :: nat where "identityDirMode = 488"
definition defaultCommandPath :: string where "defaultCommandPath = ''/usr/libexec/oidc-ssh/oidc-ssh''"
definition configComment :: string where "configComment = ''# Written by '' @ [DQ] @ ''oidc-ssh enroll'' @ [DQ] @ ''.''"

record EnrollOptions =
  eo_Issuer :: string
  eo_ClientID :: string
  eo_Name :: string
  eo_Hostname :: string
  eo_Groups :: "string list"
  eo_Accounts :: "string list"
  eo_APIBase :: string

definition applyOverrides :: "Config \<Rightarrow> EnrollOptions \<Rightarrow> Config" where
  "applyOverrides cfg opts =
     (let c1 = (if TrimSpace (eo_Issuer opts) \<noteq> [] then cfg\<lparr>c_Issuer := TrimSpace (eo_Issuer opts)\<rparr> else cfg);
          c2 = (if TrimSpace (eo_ClientID opts) \<noteq> [] then c1\<lparr>c_ClientID := TrimSpace (eo_ClientID opts)\<rparr> else c1)
      in if TrimSpace (eo_APIBase opts) \<noteq> [] then c2\<lparr>c_APIBase := TrimSpace (eo_APIBase opts)\<rparr> else c2)"

definition configUpdates :: "Config \<Rightarrow> EnrollOptions \<Rightarrow> string \<Rightarrow> string \<Rightarrow> strmap" where
  "configUpdates cfg opts base hostID =
     [(''host_id'', hostID), (''api_base'', base)]
     @ (if TrimSpace (eo_Issuer opts) \<noteq> [] then [(''issuer'', c_Issuer cfg)] else [])
     @ (if TrimSpace (eo_ClientID opts) \<noteq> [] then [(''client_id'', c_ClientID cfg)] else [])"

definition trimAll :: "string list \<Rightarrow> string list" where
  "trimAll xs = filter (\<lambda>s. s \<noteq> []) (map TrimSpace xs)"

definition configuredAccounts :: "Config \<Rightarrow> string list" where
  "configuredAccounts cfg = sorted_keys (c_Users cfg)"

text \<open>strings.ToLower; the map of the loop is the set of what was appended.\<close>

definition ToLower :: "golib \<Rightarrow> string \<Rightarrow> string" where
  "ToLower G s = (if list_all (\<lambda>c. byte c < 0x80) s then map lower_char s else of_runes (map (lib_lower G) (runes s)))"

fun groups_loop :: "golib \<Rightarrow> string list \<Rightarrow> string list \<Rightarrow> string list" where
  "groups_loop G [] out = out"
| "groups_loop G (x # xs) out =
     (let g = ToLower G (TrimSpace x) in
      if g = [] then groups_loop G xs out
      else if g \<in> set out then groups_loop G xs out
      else groups_loop G xs (out @ [g]))"

definition normaliseGroups :: "golib \<Rightarrow> string list \<Rightarrow> string list" where
  "normaliseGroups G xs = groups_loop G xs []"

definition listOrNone :: "string list \<Rightarrow> string" where
  "listOrNone items = (if items = [] then ''(none)'' else Join '', '' items)"

section \<open>The identity, discovery and the approval\<close>

definition loadOrCreateIdentity :: "key_lib \<Rightarrow> go_error + (string \<times> string) \<Rightarrow> string \<Rightarrow> string \<Rightarrow> os
    \<Rightarrow> (go_error + (HostIdentity \<times> bool)) \<times> os" where
  "loadOrCreateIdentity K generated p comment w =
     (case Hostid.Load K p w of
        (Inr i, w1) \<Rightarrow> (Inr (i, False), w1)
      | (Inl e, w1) \<Rightarrow>
          if \<not> Is e OsErrNotExist then (Inl (wrapf ''oidc-ssh: '' e []), w1)
          else (case os_MkdirAll (filepath_Dir p) identityDirMode w1 of
            (Some e', w2) \<Rightarrow> (Inl (wrapf (''oidc-ssh: create '' @ filepath_Dir p @ '': '') e' []), w2)
          | (None, w2) \<Rightarrow> (case Generate K generated p comment w2 of
              (Inl e', w3) \<Rightarrow> (Inl (wrapf ''oidc-ssh: '' e' []), w3)
            | (Inr i, w3) \<Rightarrow> (Inr (i, True), w3))))"

definition deadline :: "ctx \<Rightarrow> time \<Rightarrow> ctx" where
  "deadline ctx t = Some (case ctx of None \<Rightarrow> t | Some d \<Rightarrow> min d t)"

definition discover :: "('h, 'p, 'w) enroll_libs \<Rightarrow> ctx \<Rightarrow> Config \<Rightarrow> 'w proc \<Rightarrow> (go_error + ('h, 'p) Client) \<times> 'w proc" where
  "discover L ctx cfg p =
     (let X = el_oidc L; ctx' = deadline ctx (ox_now X (ps_net p) + c_HTTPTimeout cfg * discoveryTimeoutFactor) in
      case on_net (OidcClient.New (sl_go (el_ssh L)) X ctx'
          \<lparr>oo_Issuer = c_Issuer cfg, oo_ClientID = c_ClientID cfg, oo_Scope = c_Scope cfg, oo_HTTPTimeout = c_HTTPTimeout cfg,
           oo_AllowInsecureHTTP = c_AllowInsecureHTTP cfg, oo_HTTPClient = None\<rparr>) p of
        (Inl e, p1) \<Rightarrow> (Inl (wrapf ''oidc-ssh: '' e []), p1)
      | (Inr client, p1) \<Rightarrow> (Inr client, p1))"

text \<open>bufio.Reader.ReadString on standard input, which nothing else reads: at the end of the input the
  rest is returned together with an error.\<close>

definition askPin :: "env \<Rightarrow> 'w proc \<Rightarrow> (go_error + string) \<times> 'w proc" where
  "askPin env p =
     (let p1 = printf env ''Approve in the browser, then type the PIN it shows: '' p;
          line = (case IndexByte (fe_Stdin env) NL of Some j \<Rightarrow> take (Suc j) (fe_Stdin env) | None \<Rightarrow> fe_Stdin env) in
      if line = [] then (Inl (wrapf ''oidc-ssh: no confirmation PIN given: '' (errors_New ''EOF'') []), p1)
      else if TrimSpace line = [] then (Inl (errors_New ''oidc-ssh: no confirmation PIN given''), p1)
      else (Inr (TrimSpace line), p1))"

definition enroll_params :: "bool \<Rightarrow> string list \<Rightarrow> strmap" where
  "enroll_params confirm groups =
     [(''intent'', intentEnroll)] @ (if confirm then [(''confirmation_supported'', ''true'')] else [])
     @ (if groups \<noteq> [] then [(''groups'', Join '','' groups)] else [])"

definition open_message :: "golib \<Rightarrow> DeviceAuthResponse \<Rightarrow> string \<Rightarrow> string" where
  "open_message G da name =
     (if da_VerificationURIComplete da \<noteq> [] then
        ''Open '' @ da_VerificationURIComplete da @ '' to approve the enrolment of '' @ quoted G name @ ''.'' @ [NL]
        @ ''If the page does not show the code, enter '' @ da_UserCode da @ ''.'' @ [NL]
      else ''Open '' @ da_VerificationURI da @ '' and enter the code '' @ da_UserCode da @ '' to approve the enrolment of ''
        @ quoted G name @ ''.'' @ [NL])"

text \<open>From the answer of the device authorization endpoint on; the oauth2 library returns a token
  when it returns no error, an absent one stands for an empty one.\<close>

definition await_approval :: "('h, 'p, 'w) enroll_libs \<Rightarrow> ctx \<Rightarrow> env \<Rightarrow> Config \<Rightarrow> ('h, 'p) Client \<Rightarrow> string \<Rightarrow> bool
    \<Rightarrow> DeviceAuthResponse \<Rightarrow> 'w proc \<Rightarrow> (go_error + string) \<times> 'w proc" where
  "await_approval L ctx env cfg client name confirm da p =
     (let G = sl_go (el_ssh L); X = el_oidc L; p1 = printf env (open_message G da name) p in
      case (if confirm then askPin env p1 else (Inr [], printf env (''Waiting for approval...'' @ [NL]) p1)) of
        (Inl e, p2) \<Rightarrow> (Inl e, p2)
      | (Inr pin, p2) \<Rightarrow>
          (case on_net (OidcClient.WaitForToken G X client (deadline ctx (ox_now X (ps_net p2) + c_Timeout cfg)) (Some da) pin) p2 of
             (Inl e, p3) \<Rightarrow> (Inl (wrapf ''oidc-ssh: '' e []), p3)
           | (Inr tok, p3) \<Rightarrow>
               (let access = (case tok of None \<Rightarrow> [] | Some t \<Rightarrow> tk_AccessToken t) in
                if access = [] then (Inl (errors_New ''oidc-ssh: the provider issued no access token''), p3)
                else (Inr access, p3))))"

definition authorizeEnrolment :: "('h, 'p, 'w) enroll_libs \<Rightarrow> ctx \<Rightarrow> env \<Rightarrow> Config \<Rightarrow> ('h, 'p) Client \<Rightarrow> string \<Rightarrow> string list
    \<Rightarrow> 'w proc \<Rightarrow> (go_error + string) \<times> 'w proc" where
  "authorizeEnrolment L ctx env cfg client name groups p =
     (let X = el_oidc L; confirm = sm_ConfirmationSupported (SSH X client) in
      case on_net (StartDeviceAuth (sl_go (el_ssh L)) X client ctx name (enroll_params confirm groups)) p of
        (Inl e, p1) \<Rightarrow> (Inl (wrapf ''oidc-ssh: '' e []), p1)
      | (Inr None, p1) \<Rightarrow> (Inl (errors_New ''oidc-ssh: the provider returned no device authorization response''), p1)
      | (Inr (Some da), p1) \<Rightarrow> await_approval L ctx env cfg client name confirm da p1)"

definition sshAccessEndpoint :: "('h, 'p, 'w) oidc_env \<Rightarrow> ('h, 'p) Client \<Rightarrow> string" where
  "sshAccessEndpoint X client = sm_AccessEndpoint (SSH X client)"

section \<open>The registration\<close>

text \<open>What the last part of the command works with.\<close>

record registration =
  rg_cfg :: Config
  rg_path :: string
  rg_res :: EnrollResponse
  rg_id :: HostIdentity
  rg_base :: string
  rg_hostname :: string

definition enroll_request :: "HostIdentity \<Rightarrow> string \<Rightarrow> string \<Rightarrow> string list \<Rightarrow> string list \<Rightarrow> EnrollRequest" where
  "enroll_request i name hostname groups accounts =
     \<lparr>er_PublicKey = hi_PublicKeyLine i, er_Name = name, er_Hostname = hostname, er_Groups = Some groups,
      er_Accounts = Some accounts, er_AgentVersion = Version\<rparr>"

record plan =
  pl_name :: string
  pl_hostname :: string
  pl_accounts :: "string list"
  pl_groups :: "string list"

definition plan_for :: "golib \<Rightarrow> env \<Rightarrow> Config \<Rightarrow> EnrollOptions \<Rightarrow> go_error + plan" where
  "plan_for G env cfg opts =
     (let name = TrimSpace (eo_Name opts);
          hostname = (if TrimSpace (eo_Hostname opts) = [] then (case fe_Hostname env of Inl e \<Rightarrow> [] | Inr h \<Rightarrow> h)
                      else TrimSpace (eo_Hostname opts));
          accounts = (if trimAll (eo_Accounts opts) = [] then configuredAccounts cfg else trimAll (eo_Accounts opts)) in
      if name = [] then Inl (errors_New ''oidc-ssh: enrolment needs a host name (--name)'')
      else if accounts = [] then
        Inl (errors_New ''oidc-ssh: enrolment needs at least one account (--account, or a users mapping in the configuration)'')
      else Inr \<lparr>pl_name = name, pl_hostname = hostname, pl_accounts = accounts, pl_groups = normaliseGroups G (eo_Groups opts)\<rparr>)"

definition register_at :: "('h, 'p, 'w) enroll_libs \<Rightarrow> env \<Rightarrow> ctx \<Rightarrow> Config \<Rightarrow> plan \<Rightarrow> HostIdentity \<Rightarrow> 'w proc
    \<Rightarrow> (go_error + (EnrollResponse \<times> string)) \<times> 'w proc" where
  "register_at L env ctx cfg pl i p =
     (let S = el_ssh L in
      case discover L ctx cfg p of
        (Inl e, p1) \<Rightarrow> (Inl e, p1)
      | (Inr client, p1) \<Rightarrow> (case authorizeEnrolment L ctx env cfg client (pl_name pl) (pl_groups pl) p1 of
        (Inl e, p2) \<Rightarrow> (Inl e, p2)
      | (Inr token, p2) \<Rightarrow>
          (let base = ResolveBase (c_APIBase cfg) (c_Issuer cfg) (sshAccessEndpoint (el_oidc L) client) in
           case newProviderClient (sl_go S) cfg base of
             Inl e \<Rightarrow> (Inl e, p2)
           | Inr pc \<Rightarrow> (case on_net (Provider.Enroll (sl_go S) (sl_provider S) pc token
                 (enroll_request i (pl_name pl) (pl_hostname pl) (pl_groups pl) (pl_accounts pl))) p2 of
               (Inl e, p3) \<Rightarrow> (Inl (wrapf ''oidc-ssh: '' e []), p3)
             | (Inr res, p3) \<Rightarrow> (Inr (res, base), p3)))))"

definition register_planned :: "('h, 'p, 'w) enroll_libs \<Rightarrow> env \<Rightarrow> ctx \<Rightarrow> Config \<Rightarrow> string \<Rightarrow> plan \<Rightarrow> 'w proc
    \<Rightarrow> (go_error + registration) \<times> 'w proc" where
  "register_planned L env ctx cfg file pl p =
     (case on_os (loadOrCreateIdentity (sl_keys (el_ssh L)) (el_keypair L) (c_IdentityKey cfg) (''oidc-ssh@'' @ pl_hostname pl)) p of
        (Inl e, p1) \<Rightarrow> (Inl e, p1)
      | (Inr (i, generated), p1) \<Rightarrow>
          (case register_at L env ctx cfg pl i
              (if generated then printf env (''Generated a host key in '' @ c_IdentityKey cfg @ [NL]) p1 else p1) of
             (Inl e, p2) \<Rightarrow> (Inl e, p2)
           | (Inr (res, base), p2) \<Rightarrow>
               (Inr \<lparr>rg_cfg = cfg, rg_path = file, rg_res = res, rg_id = i, rg_base = base, rg_hostname = pl_hostname pl\<rparr>, p2)))"

definition register :: "('h, 'p, 'w) enroll_libs \<Rightarrow> env \<Rightarrow> ctx \<Rightarrow> EnrollOptions \<Rightarrow> 'w proc \<Rightarrow> (go_error + registration) \<times> 'w proc" where
  "register L env ctx opts p =
     (if fe_Geteuid env \<noteq> 0 then (Inl not_root, p)
      else case loadConfig (el_ssh L) env p of
        ((Inl e, file), p1) \<Rightarrow> (Inl e, p1)
      | ((Inr loaded, file), p1) \<Rightarrow>
          (case plan_for (sl_go (el_ssh L)) env (applyOverrides loaded opts) opts of
             Inl e \<Rightarrow> (Inl e, p1)
           | Inr pl \<Rightarrow> register_planned L env ctx (applyOverrides loaded opts) file pl p1))"

section \<open>The record and the report\<close>

definition enrol_record :: "env \<Rightarrow> registration \<Rightarrow> Record" where
  "enrol_record env g =
     \<lparr>rc_HostID = en_HostID (rg_res g), rc_Name = en_Name (rg_res g), rc_Hostname = rg_hostname g,
      rc_Groups = en_Groups (rg_res g), rc_Accounts = en_Accounts (rg_res g), rc_Issuer = c_Issuer (rg_cfg g),
      rc_APIBase = rg_base g, rc_Fingerprint = hi_Fingerprint (rg_id g), rc_AgentVersion = Version, rc_EnrolledAt = fe_Now env\<rparr>"

definition storeRecord :: "('h, 'p, 'w) enroll_libs \<Rightarrow> env \<Rightarrow> registration \<Rightarrow> 'w proc \<Rightarrow> 'w proc" where
  "storeRecord L env g p =
     (let dir = c_CacheDir (rg_cfg g);
          (e1, p1) = on_os (Purge \<lparr>c_dir = dir, c_ttl = Hour\<rparr>) p;
          p2 = (case e1 of None \<Rightarrow> p1 | Some e \<Rightarrow> warnf env (''could not clear the key cache in '' @ dir @ '': '' @ err_msg e) p1);
          ((created, e3), p3) = on_os (writeRecord (el_record L) (rg_cfg g) (enrol_record env g)) p2;
          p4 = (case e3 of None \<Rightarrow> p3 | Some e \<Rightarrow> warnf env (''could not write the enrolment record: '' @ err_msg e) p3)
      in if created then warnf env (dir @ '' did not exist and now belongs to root; give it to the AuthorizedKeysCommand user ''
            @ ''(chown <user> '' @ dir @ '') or the cache will stay empty'') p4 else p4)"

definition commandPath :: "env \<Rightarrow> string" where
  "commandPath env = (case fe_Executable env of
     Inl e \<Rightarrow> defaultCommandPath | Inr x \<Rightarrow> if filepath_IsAbs x then x else defaultCommandPath)"

text \<open>Seconds are a float in the source; below a hundred days the truncation is exact.\<close>

definition sshdConfig :: "env \<Rightarrow> Config \<Rightarrow> string list \<Rightarrow> string" where
  "sshdConfig env cfg accounts =
     ''AuthorizedKeysCommand '' @ commandPath env @ '' authorized-keys %u %f'' @ [NL]
     @ ''AuthorizedKeysCommandUser oidc-ssh'' @ [NL]
     @ ''PermitUserEnvironment '' @ c_SessionEnv cfg @ '',OIDC_SUB'' @ [NL]
     @ ''KbdInteractiveAuthentication yes'' @ [NL]
     @ ''LoginGraceTime '' @ deci ((c_Timeout cfg + 4 * c_HTTPTimeout cfg) div Second) @ [NL]
     @ (if accounts \<noteq> [] then
          [NL] @ ''Match User '' @ Join '','' accounts @ [NL]
          @ ''    AuthenticationMethods publickey keyboard-interactive:pam'' @ [NL]
          @ ''    PubkeyAuthentication yes'' @ [NL] @ ''    AuthorizedKeysFile none'' @ [NL]
        else [])"

definition report :: "golib \<Rightarrow> env \<Rightarrow> registration \<Rightarrow> 'w proc \<Rightarrow> 'w proc" where
  "report G env g =
     (let res = rg_res g; state = (if en_Created res then ''enrolled'' else ''updated'') in
      printf env ([NL] @ ''Host '' @ state @ '' as '' @ quoted G (en_Name res) @ [NL]
        @ ''  host id:   '' @ en_HostID res @ [NL]
        @ ''  key:       '' @ c_IdentityKey (rg_cfg g) @ '' ('' @ hi_Fingerprint (rg_id g) @ '')'' @ [NL]
        @ ''  provider:  '' @ c_Issuer (rg_cfg g) @ [NL]
        @ ''  api base:  '' @ rg_base g @ [NL]
        @ ''  groups:    '' @ listOrNone (en_Groups res) @ [NL]
        @ ''  accounts:  '' @ listOrNone (en_Accounts res) @ [NL]
        @ ''  config:    '' @ rg_path g @ [NL]
        @ [NL] @ ''Add this to /etc/ssh/sshd_config and reload sshd:'' @ [NL] @ [NL]
        @ sshdConfig env (rg_cfg g) (en_Accounts res) @ [NL]))"

definition updates :: "EnrollOptions \<Rightarrow> registration \<Rightarrow> strmap" where
  "updates opts g = configUpdates (rg_cfg g) opts (rg_base g) (en_HostID (rg_res g))"

definition Enroll :: "('h, 'p, 'w) enroll_libs \<Rightarrow> defaults \<Rightarrow> Env \<Rightarrow> ctx \<Rightarrow> EnrollOptions \<Rightarrow> 'w proc \<Rightarrow> go_error option \<times> 'w proc" where
  "Enroll L d e ctx opts p =
     (let env = fill d e in
      case register L env ctx opts p of
        (Inl er, p1) \<Rightarrow> (Some er, p1)
      | (Inr g, p1) \<Rightarrow> (case on_os (setConfigValues (el_yaml L) (rg_path g) (updates opts g) configComment) p1 of
          (Some er, p2) \<Rightarrow> (Some (wrapf [] er ([NL] @ ''the provider assigned host_id '' @ en_HostID (rg_res g) @ '' and api_base ''
              @ rg_base g @ '': set them in '' @ rg_path g @ '' by hand'')), p2)
        | (None, p2) \<Rightarrow> (None, report (sl_go (el_ssh L)) env g (storeRecord L env g p2))))"

section \<open>The groups\<close>

lemma groups_loop_spec:
  "distinct out \<Longrightarrow> [] \<notin> set out \<Longrightarrow> distinct (groups_loop G xs out) \<and> [] \<notin> set (groups_loop G xs out)
    \<and> set (groups_loop G xs out) = set out \<union> {g. g \<noteq> [] \<and> g \<in> (\<lambda>x. ToLower G (TrimSpace x)) ` set xs}"
proof (induction xs arbitrary: out)
  case (Cons x xs)
  define g where "g = ToLower G (TrimSpace x)"
  have step: "groups_loop G (x # xs) out = groups_loop G xs (if g = [] \<or> g \<in> set out then out else out @ [g])"
    by (simp add: g_def Let_def)
  have "distinct (if g = [] \<or> g \<in> set out then out else out @ [g])" "[] \<notin> set (if g = [] \<or> g \<in> set out then out else out @ [g])"
    using Cons.prems by auto
  note IH = Cons.IH [OF this]
  have "set (if g = [] \<or> g \<in> set out then out else out @ [g]) \<union> {g. g \<noteq> [] \<and> g \<in> (\<lambda>x. ToLower G (TrimSpace x)) ` set xs}
    = set out \<union> {g. g \<noteq> [] \<and> g \<in> (\<lambda>x. ToLower G (TrimSpace x)) ` set (x # xs)}"
    by (auto simp: g_def [symmetric])
  with IH Cons.prems(2) show ?case unfolding step by simp
qed auto

lemma normaliseGroups_spec:
  "distinct (normaliseGroups G xs)" "[] \<notin> set (normaliseGroups G xs)"
  "set (normaliseGroups G xs) = {g. g \<noteq> [] \<and> g \<in> (\<lambda>x. ToLower G (TrimSpace x)) ` set xs}"
  using groups_loop_spec [of "[]" G xs] by (simp_all add: normaliseGroups_def)

lemma enroll_params_sent:
  assumes "[] \<notin> set groups" "name \<noteq> []"
  shows "device_params name (enroll_params confirm groups) =
    [(''device_name'', name)] @ (if confirm then [(''confirmation_supported'', ''true'')] else [])
    @ (if groups \<noteq> [] then [(''groups'', Join '','' groups)] else []) @ [(''intent'', ''enroll'')]"
proof -
  have j: "groups \<noteq> [] \<Longrightarrow> Join '','' groups \<noteq> []" using assms(1) by (subst Join_eq_Nil) auto
  have "sorted_keys (enroll_params confirm groups) =
    (if confirm then [''confirmation_supported''] else []) @ (if groups \<noteq> [] then [''groups''] else []) @ [''intent'']"
  proof -
    have "sort [''intent'', ''confirmation_supported'', ''groups''] = [''confirmation_supported'', ''groups'', ''intent'']"
      "sort [''intent'', ''confirmation_supported''] = [''confirmation_supported'', ''intent'']"
      "sort [''intent'', ''groups''] = [''groups'', ''intent'']" "sort [''intent''] = [''intent'']" by code_simp+
    then show ?thesis by (simp add: sorted_keys_def enroll_params_def)
  qed
  with j assms(2) show ?thesis by (simp add: device_params_def sent_extra_def enroll_params_def intentEnroll_def)
qed

section \<open>Which files the registration touches\<close>

text \<open>Every file stays but one created at \<open>key\<close>.\<close>

definition spares :: "string \<Rightarrow> 'w proc \<Rightarrow> 'w proc \<Rightarrow> bool" where
  "spares key p p' = (\<forall>q h x. q \<noteq> key \<or> x \<noteq> None \<longrightarrow> stable h (holds_at q x) (ps_os p) \<longrightarrow> stable h (holds_at q x) (ps_os p'))"

lemma spares_refl [simp]: "ps_os p' = ps_os p \<Longrightarrow> spares key p p'"
  by (simp add: spares_def)

lemma spares_trans: "spares key p q \<Longrightarrow> spares key q r \<Longrightarrow> spares key p r"
  by (simp add: spares_def)

lemma spares_os:
  assumes "\<And>q h x. q \<noteq> key \<or> x \<noteq> None \<Longrightarrow> stable h (holds_at q x) (ps_os p) \<Longrightarrow> stable h (holds_at q x) (snd (f (ps_os p)))"
    and "on_os f p = (r, p')"
  shows "spares key p p'"
proof -
  have "ps_os p' = snd (f (ps_os p))" using on_os_simps(5) [of f p] assms(2) by simp
  with assms(1) show ?thesis by (simp add: spares_def)
qed

lemma output_os [simp]: "ps_os (printf env t p) = ps_os p" "ps_os (warnf env t p) = ps_os p"
  by (simp_all add: printf_def warnf_def split: writer.split)

lemma FindDefault_stable: "stable h P w \<Longrightarrow> stable h P (snd (FindDefault w))"
proof -
  have "stable h P w \<Longrightarrow> stable h P (snd (find_loop ps w))" for ps
  proof (induction ps arbitrary: w)
    case (Cons p ps)
    obtain r w1 where 1: "os_Stat p w = (r, w1)" by fastforce
    then have "stable h P w1" using looks(1) [OF Cons.prems, of p] by simp
    with 1 Cons.IH show ?case by (cases r) simp_all
  qed simp
  then show "stable h P w \<Longrightarrow> stable h P (snd (FindDefault w))" by (auto simp: FindDefault_def findFirst_def split: prod.split option.split) (metis snd_conv)+
qed
lemma looks_run:
  "os_ReadFile f w = (r, w1) \<Longrightarrow> stable h P w \<Longrightarrow> stable h P w1" "os_Stat f w = (o1, w1) \<Longrightarrow> stable h P w \<Longrightarrow> stable h P w1"
  using looks(1,2) [of h P w f] by simp_all

lemma Load_stable: "stable h P w \<Longrightarrow> stable h P (snd (Config.Load G Y H f w))"
  by (auto simp: Config.Load_def split: prod.split sum.split dest: looks_run(1))

lemma loadConfig_spares: "loadConfig S env p = (r, p') \<Longrightarrow> spares key p p'"
proof -
  assume run: "loadConfig S env p = (r, p')"
  obtain o1 p1 where 1: "configPath env p = (o1, p1)" by fastforce
  then have s1: "spares key p p1"
    using spares_os [OF FindDefault_stable] by (auto simp: configPath_def split: if_splits)
  obtain o2 p2 where 2: "on_os (Config.Load (sl_go S) (sl_yaml S) (sl_hostname S) f) p1 = (o2, p2)" if "o1 = Inr f" for f
    by (cases o1) fastforce+
  have "o1 = Inr f \<Longrightarrow> spares key p1 p2" for f using spares_os [OF Load_stable 2] by blast
  with run 1 2 s1 show ?thesis
    by (cases o1; cases o2) (auto simp: loadConfig_def intro: spares_trans)
qed

text \<open>A configuration that loads was read from the file at the path that is returned.\<close>

lemma loadConfig_file:
  assumes "loadConfig S env p = ((Inr cfg, f), p')" "stable h (holds_at f x) (ps_os p)"
  shows "\<exists>n. x = Some n"
proof -
  obtain p1 where 1: "configPath env p = (Inr f, p1)"
    and 2: "on_os (Config.Load (sl_go S) (sl_yaml S) (sl_hostname S) f) p1 = (Inr cfg, p')"
    using assms(1) by (auto simp: loadConfig_def split: prod.splits sum.splits)
  have "stable h (holds_at f x) (ps_os p1)"
  proof (cases "fe_ConfigPath env = []")
    case True
    with 1 have "on_os FindDefault p = (Inr f, p1)" by (simp add: configPath_def)
    then have "ps_os p1 = snd (FindDefault (ps_os p))" by (metis on_os_simps(5) snd_conv)
    with FindDefault_stable [OF assms(2)] show ?thesis by simp
  qed (use 1 assms(2) in \<open>simp add: configPath_def\<close>)
  then have "file_at (dsk (ps_os p1)) f = x" by (auto simp: stable_def holds_at_def)
  moreover have "\<exists>n. file_at (dsk (ps_os p1)) f = Some n"
    using 2 by (auto simp: on_os_def Config.Load_def os_ReadFile_def observe_def split: prod.splits sum.splits option.splits if_splits)
  ultimately show ?thesis by auto
qed

lemma Generate_keeps:
  assumes "stable h (holds_at q x) w" "q \<noteq> key \<or> x \<noteq> None" "Generate K generated key comment w = (r, w')"
  shows "stable h (holds_at q x) w'"
proof (cases "q = key")
  case True
  have d: "holds_at q x (dsk w)" using assms(1) by (simp add: stable_def)
  with True assms(2) have "ent (dsk w) key \<noteq> None"
    by (cases "ent (dsk w) key") (auto simp: holds_at_def file_at_def)
  from Generate_exists [OF this assms(3)] have "stable (hist w) (\<lambda>d. d = dsk w) w'" by blast
  with assms(1) d show ?thesis unfolding stable_def list_all_iff by auto
next
  case False
  then have "key \<noteq> q" by simp
  from Generate_run(1) [OF assms(1) this assms(3)] show ?thesis .
qed

lemma identity_spares:
  assumes "on_os (loadOrCreateIdentity K generated key comment) p = (r, p')"
  shows "spares key p p'"
proof (rule spares_os [OF _ assms])
  fix q h x
  assume q: "q \<noteq> key \<or> x \<noteq> None" and st: "stable h (holds_at q x) (ps_os p)"
  obtain o1 w1 where 1: "Hostid.Load K key (ps_os p) = (o1, w1)" by fastforce
  have s1: "stable h (holds_at q x) w1"
    using 1 looks(2) [OF st, of key] by (auto simp: Hostid.Load_def split: prod.splits sum.splits)
  obtain o2 w2 where 2: "os_MkdirAll (filepath_Dir key) identityDirMode w1 = (o2, w2)" by fastforce
  have s2: "stable h (holds_at q x) w2" using stable_MkdirAll [OF s1] 2 by (metis snd_conv)
  obtain o3 w3 where 3: "Generate K generated key comment w2 = (o3, w3)" by fastforce
  have s3: "stable h (holds_at q x) w3" by (rule Generate_keeps [OF s2 q 3])
  show "stable h (holds_at q x) (snd (loadOrCreateIdentity K generated key comment (ps_os p)))"
    using 1 2 3 s1 s2 s3 by (cases o1; cases o2; cases o3) (auto simp: loadOrCreateIdentity_def)
qed

lemma discover_os: "ps_os (snd (discover L ctx cfg p)) = ps_os p"
  by (simp add: discover_def Let_def on_net_def split: prod.split sum.split)

lemma askPin_os: "ps_os (snd (askPin env p)) = ps_os p"
  by (simp add: askPin_def Let_def)

lemma await_approval_os: "ps_os (snd (await_approval L ctx env cfg client name confirm da p)) = ps_os p"
proof -
  let ?p1 = "printf env (open_message (sl_go (el_ssh L)) da name) p"
  obtain r p2 where 1: "(if confirm then askPin env ?p1 else (Inr [], printf env (''Waiting for approval...'' @ [NL]) ?p1)) = (r, p2)"
    by fastforce
  then have "ps_os p2 = ps_os p" using askPin_os [of env ?p1] by (auto split: if_splits)
  then show ?thesis
    by (cases r) (simp_all add: await_approval_def Let_def 1 [simplified] on_net_def split: prod.split sum.split)
qed

lemma authorize_os: "ps_os (snd (authorizeEnrolment L ctx env cfg client name groups p)) = ps_os p"
  by (simp add: authorizeEnrolment_def Let_def on_net_def await_approval_os split: prod.split sum.split option.split)

lemma register_at_os: "ps_os (snd (register_at L env ctx cfg pl i p)) = ps_os p"
proof -
  obtain r p1 where 1: "discover L ctx cfg p = (r, p1)" by fastforce
  then have o1: "ps_os p1 = ps_os p" using discover_os [of L ctx cfg p] by simp
  show ?thesis
  proof (cases r)
    case (Inr client)
    obtain t p2 where 2: "authorizeEnrolment L ctx env cfg client (pl_name pl) (pl_groups pl) p1 = (t, p2)" by fastforce
    then have "ps_os p2 = ps_os p" using authorize_os [of L ctx env cfg client "pl_name pl" "pl_groups pl" p1] o1 by simp
    with 1 2 o1 Inr show ?thesis
      by (cases t) (simp_all add: register_at_def Let_def on_net_def split: prod.split sum.split)
  qed (simp add: register_at_def 1 o1)
qed

lemma applyOverrides_other [simp]:
  "c_IdentityKey (applyOverrides cfg opts) = c_IdentityKey cfg" "c_CacheDir (applyOverrides cfg opts) = c_CacheDir cfg"
  "c_Users (applyOverrides cfg opts) = c_Users cfg"
  by (simp_all add: applyOverrides_def Let_def)
lemma register_planned_spares:
  assumes "register_planned L env ctx cfg file pl p = (r, p')"
  shows "spares (c_IdentityKey cfg) p p'"
proof -
  obtain o1 p1 where 1: "on_os (loadOrCreateIdentity (sl_keys (el_ssh L)) (el_keypair L) (c_IdentityKey cfg)
      (''oidc-ssh@'' @ pl_hostname pl)) p = (o1, p1)" by fastforce
  have s1: "spares (c_IdentityKey cfg) p p1" by (rule identity_spares [OF 1])
  have "ps_os p' = ps_os p1"
  proof (cases o1)
    case (Inl e)
    with assms 1 show ?thesis by (simp add: register_planned_def)
  next
    case (Inr ig)
    obtain i gen where ig: "ig = (i, gen)" by fastforce
    define p2 where "p2 = (if gen then printf env (''Generated a host key in '' @ c_IdentityKey cfg @ [NL]) p1 else p1)"
    obtain o3 p3 where 3: "register_at L env ctx cfg pl i p2 = (o3, p3)" by fastforce
    have "ps_os p3 = ps_os p2" using register_at_os 3 by (metis snd_conv)
    moreover have "ps_os p2 = ps_os p1" by (simp add: p2_def)
    moreover have "p' = p3"
      using assms 3 unfolding register_planned_def 1 Inr ig prod.case sum.case p2_def [symmetric] 3
      by (auto split: sum.splits prod.splits)
    ultimately show ?thesis by simp
  qed
  with s1 show ?thesis by (simp add: spares_def)
qed

lemma register_spares:
  assumes "register L env ctx opts p = (r, p')" "stable h (holds_at q x) (ps_os p)"
    "x = None \<longrightarrow> \<not> (\<exists>cfg f. fst (loadConfig (el_ssh L) env p) = (Inr cfg, f) \<and> q = c_IdentityKey cfg)"
  shows "stable h (holds_at q x) (ps_os p')"
proof (cases "fe_Geteuid env = 0")
  case True
  obtain ld f p1 where 1: "loadConfig (el_ssh L) env p = ((ld, f), p1)" by (metis prod.exhaust)
  have s1: "stable h (holds_at q x) (ps_os p1)"
    using loadConfig_spares [OF 1, of "CHR ''x'' # q"] assms(2) by (simp add: spares_def)
  show ?thesis
  proof (cases ld)
    case (Inr c)
    show ?thesis
    proof (cases "plan_for (sl_go (el_ssh L)) env (applyOverrides c opts) opts")
      case p: (Inr pl)
      with assms(1) 1 True Inr have "register_planned L env ctx (applyOverrides c opts) f pl p1 = (r, p')"
        by (simp add: register_def)
      from register_planned_spares [OF this] s1 assms(3) 1 Inr show ?thesis by (auto simp: spares_def)
    qed (use assms(1) 1 True Inr s1 in \<open>auto simp: register_def\<close>)
  qed (use assms(1) 1 True s1 in \<open>auto simp: register_def\<close>)
qed (use assms in \<open>auto simp: register_def\<close>)

lemma register_Inr:
  assumes "register L env ctx opts p = (Inr g, p')"
  obtains loaded p1 pl p2 generated p3 where
    "fe_Geteuid env = 0" "loadConfig (el_ssh L) env p = ((Inr loaded, rg_path g), p1)" "rg_cfg g = applyOverrides loaded opts"
    "plan_for (sl_go (el_ssh L)) env (rg_cfg g) opts = Inr pl"
    "register_planned L env ctx (rg_cfg g) (rg_path g) pl p1 = (Inr g, p')"
    "on_os (loadOrCreateIdentity (sl_keys (el_ssh L)) (el_keypair L) (c_IdentityKey (rg_cfg g)) (''oidc-ssh@'' @ pl_hostname pl)) p1
       = (Inr (rg_id g, generated), p2)" "ps_net p3 = ps_net p2"
    "register_at L env ctx (rg_cfg g) pl (rg_id g) p3 = (Inr (rg_res g, rg_base g), p')"
proof -
  from assms obtain loaded f p1 pl where 1: "fe_Geteuid env = 0" "loadConfig (el_ssh L) env p = ((Inr loaded, f), p1)"
    "plan_for (sl_go (el_ssh L)) env (applyOverrides loaded opts) opts = Inr pl"
    "register_planned L env ctx (applyOverrides loaded opts) f pl p1 = (Inr g, p')"
    by (auto simp: register_def split: if_splits prod.splits sum.splits)
  from 1(4) obtain i gen p2 where 2: "on_os (loadOrCreateIdentity (sl_keys (el_ssh L)) (el_keypair L)
      (c_IdentityKey (applyOverrides loaded opts)) (''oidc-ssh@'' @ pl_hostname pl)) p1 = (Inr (i, gen), p2)"
    by (auto simp: register_planned_def split: prod.splits sum.splits)
  define p3 where "p3 = (if gen then printf env (''Generated a host key in '' @ c_IdentityKey (applyOverrides loaded opts) @ [NL]) p2 else p2)"
  from 1(4) 2 obtain res base where 3: "register_at L env ctx (applyOverrides loaded opts) pl i p3 = (Inr (res, base), p')"
    "g = \<lparr>rg_cfg = applyOverrides loaded opts, rg_path = f, rg_res = res, rg_id = i, rg_base = base, rg_hostname = pl_hostname pl\<rparr>"
    unfolding register_planned_def 2 prod.case sum.case p3_def [symmetric] by (auto split: prod.splits sum.splits)
  have "ps_net p3 = ps_net p2" by (simp add: p3_def printf_def split: writer.split)
  with that [of loaded p1 pl gen p2 p3] 1 2 3 show ?thesis by simp
qed

section \<open>What the record leaves alone\<close>

definition apart :: "Config \<Rightarrow> string \<Rightarrow> bool" where
  "apart cfg f = (c_IdentityKey cfg \<noteq> f \<and> recordPath cfg \<noteq> f \<and> (\<forall>c. good_component c \<longrightarrow> \<not> under (filepath_Join [c_CacheDir cfg, c]) f))"

lemma RemoveAll_frame:
  assumes "stable h (holds_at q x) w" "\<not> under p q"
  shows "stable h (holds_at q x) (snd (os_RemoveAll p w))"
  using assms stable_dsk [OF assms(1)]
  by (auto simp: os_RemoveAll_def holds_at_def wf_keep_ents file_at_keep_ents split: option.split)

lemma Purge_frame:
  assumes "stable h (holds_at q x) w" "\<forall>e. good_component e \<longrightarrow> \<not> under (filepath_Join [c_dir c, e]) q"
  shows "stable h (holds_at q x) (snd (Purge c w))"
proof -
  have loop: "stable h (holds_at q x) v \<Longrightarrow> list_all good_component es
    \<Longrightarrow> stable h (holds_at q x) (snd (purge_loop (c_dir c) es v))" for es v
  proof (induction es arbitrary: v)
    case (Cons e es)
    obtain r v' where 1: "os_RemoveAll (filepath_Join [c_dir c, e]) v = (r, v')" by fastforce
    have "stable h (holds_at q x) v'" using RemoveAll_frame [OF Cons.prems(1)] assms(2) Cons.prems(2) 1
      by (metis list.pred_inject(2) snd_conv)
    with 1 Cons.IH Cons.prems(2) show ?case by (cases r) simp_all
  qed simp
  obtain r w1 where 1: "os_ReadDir (c_dir c) w = (r, w1)" by fastforce
  then have s1: "stable h (holds_at q x) w1" 
    using stable_observe [OF assms(1), of "\<lambda>d. if is_dir d (c_dir c) then Inr (children d (c_dir c))
      else if file_at d (c_dir c) \<noteq> None then Inl (path_error ''readdirent'' (c_dir c) [] ''not a directory'')
      else Inl (enoent ''open'' (c_dir c))"] by (simp add: os_ReadDir_def)
  have "r = Inr es \<Longrightarrow> list_all good_component es" for es
    using 1 children_good by (auto simp: os_ReadDir_def observe_def list_all_iff split: option.splits if_splits)
  then show ?thesis by (cases r) (simp_all add: Purge_def 1 loop [OF s1] s1 assms(1))
qed

lemma WriteFile_frame:
  assumes "stable h (holds_at q x) w" "p \<noteq> q"
  shows "stable h (holds_at q x) (snd (os_WriteFile p data m w))"
proof -
  obtain o1 w1 where 1: "os_OpenTrunc p m w = (o1, w1)" by fastforce
  note s1 = OpenTrunc_spec [OF assms 1]
  show ?thesis
  proof (cases o1)
    case (Inr f)
    obtain r f' w2 where 2: "f_Write f data w1 = ((r, f'), w2)" by (metis prod.exhaust)
    have "stable h (holds_at q x) w2" using Write_spec(1) [OF s1(1) assms(2) _ 2] s1(2) [OF Inr] by blast
    then have "stable h (holds_at q x) (snd (f_Close f' w2))" by simp
    then have "f_Close f' w2 = (c, w3) \<Longrightarrow> stable h (holds_at q x) w3" for c w3 by simp
    with 1 2 Inr show ?thesis by (auto simp: os_WriteFile_def split: prod.split)
  qed (use 1 s1(1) in \<open>simp add: os_WriteFile_def\<close>)
qed

lemma putRecord_frame:
  assumes "stable h (holds_at q x) w" "recordPath cfg \<noteq> q"
  shows "stable h (holds_at q x) (snd (putRecord R cfg rec created w))"
proof (cases "rl_marshal R rec")
  case (Inr data)
  obtain r w1 where 1: "os_WriteFile (recordPath cfg) (data @ [NL]) recordMode w = (r, w1)" by fastforce
  then have "stable h (holds_at q x) w1" using WriteFile_frame [OF assms] by (metis snd_conv)
  with 1 Inr show ?thesis by (cases r) (simp_all add: putRecord_def)
qed (simp add: putRecord_def assms)

lemma writeRecord_frame:
  assumes "stable h (holds_at q x) w" "recordPath cfg \<noteq> q"
  shows "stable h (holds_at q x) (snd (writeRecord R cfg rec w))"
proof -
  obtain o1 w1 where 1: "os_Stat (c_CacheDir cfg) w = (o1, w1)" by fastforce
  have s1: "stable h (holds_at q x) w1" by (rule looks_run(2) [OF 1 assms(1)])
  obtain o2 w2 where 2: "os_MkdirAll (c_CacheDir cfg) 448 w1 = (o2, w2)" by fastforce
  have s2: "stable h (holds_at q x) w2" using stable_MkdirAll [OF s1] 2 by (metis snd_conv)
  note put = putRecord_frame [OF s1 assms(2)] putRecord_frame [OF s2 assms(2)]
  show ?thesis
    using s1 s2 put by (cases o1; cases o2) (simp_all add: writeRecord_def 1 2)
qed

lemma storeRecord_frame:
  assumes "stable h (holds_at q x) (ps_os p)" "apart (rg_cfg g) q"
  shows "stable h (holds_at q x) (ps_os (storeRecord L env g p))"
proof -
  let ?c = "\<lparr>c_dir = c_CacheDir (rg_cfg g), c_ttl = Hour\<rparr>"
  obtain e1 p1 where 1: "on_os (Purge ?c) p = (e1, p1)" by fastforce
  have "stable h (holds_at q x) (snd (Purge ?c (ps_os p)))"
    using assms by (intro Purge_frame) (auto simp: apart_def)
  then have s1: "stable h (holds_at q x) (ps_os p1)" using 1 by (metis on_os_simps(5) snd_conv)
  define p2 where "p2 = (case e1 of None \<Rightarrow> p1
    | Some e \<Rightarrow> warnf env (''could not clear the key cache in '' @ c_CacheDir (rg_cfg g) @ '': '' @ err_msg e) p1)"
  have s2: "stable h (holds_at q x) (ps_os p2)" using s1 by (simp add: p2_def split: option.split)
  obtain c e3 p3 where 3: "on_os (writeRecord (el_record L) (rg_cfg g) (enrol_record env g)) p2 = ((c, e3), p3)"
    by (metis prod.exhaust)
  have "stable h (holds_at q x) (snd (writeRecord (el_record L) (rg_cfg g) (enrol_record env g) (ps_os p2)))"
    using s2 assms(2) by (intro writeRecord_frame) (simp_all add: apart_def)
  then have "stable h (holds_at q x) (ps_os p3)" using 3 by (metis on_os_simps(5) snd_conv)
  with 1 3 show ?thesis
    unfolding storeRecord_def Let_def 1 prod.case p2_def [symmetric] 3 by (simp split: option.split)
qed

text \<open>The request behind an enrolment that the provider accepts.\<close>

lemma Enroll_posts:
  assumes "Provider.Enroll G E pc token rq w = (Inr res, w')"
  shows "\<exists>body req resp. pe_marshal E (enroll_wire rq) = Inr body \<and> rq_body req = body
    \<and> map_of (rq_header req) ''Authorization'' = Some (''Bearer '' @ token)
    \<and> pe_do E (cl_http pc) req w = (Inr resp, w') \<and> enroll_answer G E resp = Inr res"
proof -
  obtain body u where b: "pe_marshal E (enroll_wire rq) = Inr body" "url_Parse G (cl_endpoint pc @ ''/hosts/enroll'') = Inr u"
      "enroll_check token rq = None"
    using assms by (auto simp: Provider.Enroll_def split: option.splits sum.splits)
  define req where "req = \<lparr>rq_method = ''POST'', rq_url = cl_endpoint pc @ ''/hosts/enroll'',
    rq_header = [(''Authorization'', ''Bearer '' @ token), (''Content-Type'', ''application/json''),
                 (''Accept'', ''application/json'')], rq_body = body\<rparr>"
  obtain x v where x: "pe_do E (cl_http pc) req w = (x, v)" by fastforce
  from assms b x obtain resp where "x = Inr resp" "v = w'" "enroll_answer G E resp = Inr res"
    unfolding Provider.Enroll_def b option.case sum.case req_def [symmetric] x prod.case
    by (cases x) auto
  with b(1) x show ?thesis by (intro exI [of _ body] exI [of _ req]) (simp add: req_def)
qed

section \<open>A concrete enrolment\<close>

definition sample_answer :: enrollResult where
  "sample_answer = \<lparr>re_hostId = ''h1'', re_name = ''n'', re_groups = Some [''a''], re_accounts = Some [''bob'']\<rparr>"

definition sample_enroll :: "(unit, unit, nat) enroll_libs" where
  "sample_enroll = \<lparr>el_ssh = (sample_libs 201 ''b'' 0)\<lparr>sl_keys := plain_keys\<lparr>kl_line := (\<lambda>pub. Inr ''kp'')\<rparr>, sl_provider := (canned (Inr \<lparr>rs_status = 201, rs_ctype = [], rs_body = ''b'',
        rs_body_err = None\<rparr>))\<lparr>pe_result := (\<lambda>s. Some sample_answer), pe_marshal := (\<lambda>x. Inr ''j'')\<rparr>\<rparr>,
     el_oidc = scripted (Inr (Some sample_device)) (Inr (Some \<lparr>tk_AccessToken = ''t'', tk_Extra = (\<lambda>x. JNull)\<rparr>)) (Inl (errors_New [])),
     el_yaml = sample_yaml, el_record = \<lparr>rl_marshal = (\<lambda>r. Inr ''r''), rl_unmarshal = (\<lambda>s. Inl (errors_New []))\<rparr>,
     el_keypair = Inl (errors_New [])\<rparr>"

definition sample_opts :: EnrollOptions where
  "sample_opts = \<lparr>eo_Issuer = [], eo_ClientID = [], eo_Name = ''n'', eo_Hostname = ''n'', eo_Groups = [''A'', ''a''],
     eo_Accounts = [], eo_APIBase = []\<rparr>"

lemma sample_register:
  "\<exists>g p'. register sample_enroll (fill sample_defaults sample_Env) None sample_opts sample_host = (Inr g, p')
    \<and> rg_cfg g = sample_cfg \<and> rg_path g = ''/e/c'' \<and> rg_res g = \<lparr>en_HostID = ''h1'', en_Name = ''n'', en_Groups = [''a''],
      en_Accounts = [''bob''], en_Created = True\<rparr>"
proof -
  let ?L = "el_ssh sample_enroll" and ?env = "fill sample_defaults sample_Env" and ?X = "el_oidc sample_enroll"
  have ts: "TrimSpace [] = []" "TrimSpace ''n'' = ''n''" "TrimSpace ''https://i/a'' = ''https://i/a''" "TrimSpace ''t'' = ''t''"
    "TrimSpace ''kp'' = ''kp''" "TrimSpace ''https://i'' = ''https://i''"
    by (simp_all add: TrimSpace_plain byte_def)
  have G: "sl_go ?L = plain_lib" "sl_keys ?L = plain_keys\<lparr>kl_line := (\<lambda>pub. Inr ''kp'')\<rparr>" by (simp_all add: sample_enroll_def sample_libs_def)
  have cp: "configPath ?env p = (Inr ''/e/c'', p)" for p :: "nat proc"
    by (simp add: configPath_def fill_def sample_Env_def)
  define p1 where "p1 = sample_host\<lparr>ps_os := advance (dsk (ps_os sample_host)) (ps_os sample_host)\<rparr>"
  have load: "loadConfig ?L ?env sample_host = ((Inr sample_cfg, ''/e/c''), p1)"
    by (simp add: loadConfig_def cp on_os_def Config.Load_def Parse_def sample_enroll_def sample_libs_def sample_parse sample_host_def
        calm_def os_ReadFile_def observe_def fault_def file_at_def ent_def p1_def)
  have cfg: "applyOverrides sample_cfg sample_opts = sample_cfg" by (simp add: applyOverrides_def sample_opts_def ts Let_def)
  obtain pl where pl: "plan_for plain_lib ?env sample_cfg sample_opts = Inr pl" "pl_name pl = ''n''" "pl_accounts pl = [''bob'']"
    by (simp add: plan_for_def sample_opts_def ts trimAll_def configuredAccounts_def sample_cfg_def sorted_keys_def Let_def)
  have "\<exists>i. fst (Hostid.Load (sl_keys ?L) ''/e/k'' (ps_os p1)) = Inr i \<and> hi_PublicKeyLine i = ''kp''"
    by (simp add: G Hostid.Load_def p1_def sample_host_def calm_def os_ReadFile_def observe_def fault_def file_at_def ent_def
        advance_def plain_keys_simps load_ed25519_def PrivateKeySize_def newIdentity_def keyComment_def HasPrefix_def
        key_magic_def TrimRightBytes_def Let_def)
  then obtain i w2 where key: "Hostid.Load (sl_keys ?L) ''/e/k'' (ps_os p1) = (Inr i, w2)" "hi_PublicKeyLine i = ''kp''"
    by (metis prod.collapse)
  define p2 where "p2 = p1\<lparr>ps_os := w2\<rparr>"
  have id: "on_os (loadOrCreateIdentity (sl_keys ?L) (el_keypair sample_enroll) (c_IdentityKey sample_cfg)
      (''oidc-ssh@'' @ pl_hostname pl)) p1 = (Inr (i, False), p2)"
    by (simp add: on_os_def loadOrCreateIdentity_def key sample_cfg_def p2_def)
  obtain client p3 where disc: "discover sample_enroll None sample_cfg p2 = (Inr client, p3)"
    and ssh: "SSH ?X client = \<lparr>sm_AccessEndpoint = [], sm_ConfirmationSupported = False\<rparr>"
    by (simp add: discover_def on_net_def OidcClient.New_def sample_cfg_def url_simps DefaultHTTPTimeout_def G
        sample_enroll_def scripted_def discovered_client_def sample_discovery_def checkEndpointsHTTPS_def SSH_def Metadata_def Let_def)
  obtain p4 where auth: "authorizeEnrolment sample_enroll None ?env sample_cfg client (pl_name pl) (pl_groups pl) p3 = (Inr ''t'', p4)"
  proof -
    have "plain_name plain_lib n" if "n \<in> {''intent'', ''groups'', ''confirmation_supported''}" for n
      using that runes_map_byte [of n]
      by (auto simp: plain_name_def reservedDeviceParams_def ascii_def byte_def IsSpace_def IsPrint_def)
    then have "list_all (plain_name plain_lib) (map fst (enroll_params b gs))" for b gs
      by (simp add: enroll_params_def)
    then have "StartDeviceAuth plain_lib ?X client c nm (enroll_params b gs) w = (Inr (Some sample_device), Suc w)" for c nm b gs w
      by (simp add: StartDeviceAuth_eq sample_enroll_def scripted_def)
    moreover have "WaitForToken plain_lib ?X client c (Some sample_device) pin w
        = (Inr (Some \<lparr>tk_AccessToken = ''t'', tk_Extra = (\<lambda>x. JNull)\<rparr>), Suc w)" for c pin w
      by (simp add: WaitForToken_def sample_enroll_def scripted_def Let_def)
    ultimately show ?thesis
      using that by (simp add: authorizeEnrolment_def on_net_def G ssh await_approval_def Let_def)
  qed
  define cl where "cl = (\<lparr>cl_base = ''https://i/a'', cl_endpoint = ''https://i/a'', cl_http = NoRedirectClient DefaultHTTPTimeout\<rparr> :: unit Provider.Client)"
  have new: "newProviderClient plain_lib sample_cfg ''https://i/a'' = Inr cl"
    by (simp add: newProviderClient_def Provider.New_def Let_def ts url_simps Contains_def sample_cfg_def cl_def
        DefaultHTTPTimeout_def TrimSuffix_def)
  have base: "ResolveBase (c_APIBase sample_cfg) (c_Issuer sample_cfg) x = ''https://i/a''" for x
    by (simp add: ResolveBase_def sample_cfg_def ts)
  let ?res = "\<lparr>en_HostID = ''h1'', en_Name = ''n'', en_Groups = [''a''], en_Accounts = [''bob''], en_Created = True\<rparr>"
  obtain p5 where post: "on_net (Provider.Enroll plain_lib (sl_provider ?L) cl ''t''
      (enroll_request i (pl_name pl) (pl_hostname pl) (pl_groups pl) (pl_accounts pl))) p4 = (Inr ?res, p5)"
    by (simp add: on_net_def Provider.Enroll_def enroll_check_def enroll_request_def nonNil_def pl key ts cl_def url_simps
        sample_enroll_def canned_def enroll_answer_def readLimited_def readAll_def maxJSONBody_def sample_answer_def Let_def)
  have "register_at sample_enroll ?env None sample_cfg pl i p2 = (Inr (?res, ''https://i/a''), p5)"
    by (simp add: register_at_def disc auth base new post G Let_def)
  then have "register_planned sample_enroll ?env None sample_cfg ''/e/c'' pl p1 = (Inr \<lparr>rg_cfg = sample_cfg, rg_path = ''/e/c'',
      rg_res = ?res, rg_id = i, rg_base = ''https://i/a'', rg_hostname = pl_hostname pl\<rparr>, p5)"
    unfolding register_planned_def id by simp
  moreover have "fe_Geteuid ?env = 0" by (simp add: fill_def or_default_def sample_Env_def sample_defaults_def)
  ultimately show ?thesis by (simp add: register_def load cfg G pl(1))
qed

lemma sample_apart: "apart sample_cfg ''/e/c''"
proof -
  have "recordPath sample_cfg = ''/c/host.json''" unfolding recordPath_def sample_cfg_def by code_simp
  moreover have "\<not> under (filepath_Join [''/c'', c]) ''/e/c''" if "good_component c" for c
  proof -
    have "clean_abs ''/c''" by code_simp
    from filepath_Join2 [OF this that] show ?thesis by (simp add: under_def dir_prefix_def HasPrefix_def)
  qed
  ultimately show ?thesis by (simp add: apart_def sample_cfg_def)
qed

section \<open>Properties\<close>

text \<open>C8: the configuration is the last thing enrolment changes. When the registration fails, for whatever
  reason, every path holds at every moment the file it held before, the configuration and an
  existing host key included: at most a host key was created, at the path the configuration names
  for it and only when nothing was there. When it succeeds, the configuration is
  at every moment the file that was loaded or that file with host_id, api_base and the overridden
  keys set, so a crash never leaves a host that acts as enrolled and is not; the command succeeds only
  with the new file in place and fails only with the old one. (The configuration is not the key file
  and not below the cache directory.)\<close>

theorem Enroll_config_last:
  assumes "wf_disk (dsk (ps_os p))" "Enroll L d e ctx opts p = (r, p')"
  shows "case register L (fill d e) ctx opts p of
      (Inl er, p1) \<Rightarrow> r = Some er \<and> (\<forall>q.
        stable (hist (ps_os p)) (holds_at q (file_at (dsk (ps_os p)) q)) (ps_os p')
        \<or> (\<exists>cfg f. fst (loadConfig (el_ssh L) (fill d e) p) = (Inr cfg, f) \<and> q = c_IdentityKey cfg
             \<and> file_at (dsk (ps_os p)) q = None))
    | (Inr g, p1) \<Rightarrow> apart (rg_cfg g) (rg_path g) \<longrightarrow> (\<exists>n hs. file_at (dsk (ps_os p)) (rg_path g) = Some n
        \<and> hist (ps_os p') = hist (ps_os p) @ hs
        \<and> list_all (\<lambda>d. \<exists>n'. file_at d (rg_path g) = Some n'
            \<and> n' \<in> {n} \<union> Collect (rewritten (el_yaml L) (updates opts g) configComment (may_refuse (ps_os p1)) n)) hs
        \<and> (r \<noteq> None \<longrightarrow> file_at (dsk (ps_os p')) (rg_path g) = Some n)
        \<and> (r = None \<longrightarrow> (\<exists>n'. file_at (dsk (ps_os p')) (rg_path g) = Some n'
            \<and> withConfigValues (el_yaml L) (i_data n) (updates opts g) configComment = Inr (i_data n'))))"
proof -
  have st: "stable (hist (ps_os p)) (holds_at q (file_at (dsk (ps_os p)) q)) (ps_os p)" for q
    using assms(1) by (intro stable_start) (simp add: holds_at_def)
  obtain o1 p1 where 1: "register L (fill d e) ctx opts p = (o1, p1)" by fastforce
  show ?thesis
  proof (cases o1)
    case (Inl er)
    with assms(2) 1 have "r = Some er" "p' = p1" by (simp_all add: Enroll_def)
    from register_spares [OF 1 st] 1 Inl \<open>r = Some er\<close> \<open>p' = p1\<close> show ?thesis by auto
  next
    case (Inr g)
    let ?f = "rg_path g" and ?R = "rewritten (el_yaml L) (updates opts g) configComment (may_refuse (ps_os p1))"
    have "\<exists>n hs. file_at (dsk (ps_os p)) ?f = Some n \<and> hist (ps_os p') = hist (ps_os p) @ hs
        \<and> list_all (\<lambda>d. \<exists>n'. file_at d ?f = Some n' \<and> n' \<in> {n} \<union> Collect (?R n)) hs
        \<and> (r \<noteq> None \<longrightarrow> file_at (dsk (ps_os p')) ?f = Some n)
        \<and> (r = None \<longrightarrow> (\<exists>n'. file_at (dsk (ps_os p')) ?f = Some n'
            \<and> withConfigValues (el_yaml L) (i_data n) (updates opts g) configComment = Inr (i_data n')))"
      if ap: "apart (rg_cfg g) ?f"
    proof -
      from 1 Inr have "register L (fill d e) ctx opts p = (Inr g, p1)" by simp
      then obtain n where n: "file_at (dsk (ps_os p)) ?f = Some n" and s1: "stable (hist (ps_os p)) (holds_at ?f (Some n)) (ps_os p1)"
      proof (cases rule: register_Inr)
        case (1 loaded p0 pl p2 gen p3)
        from loadConfig_file [OF 1(2) st] obtain n where n: "file_at (dsk (ps_os p)) ?f = Some n" ..
        have "spares (c_IdentityKey (rg_cfg g)) p p1"
          using spares_trans [OF loadConfig_spares [OF 1(2)] register_planned_spares [OF 1(5)]] .
        with st [of ?f] ap n that show ?thesis by (auto simp: spares_def apart_def)
      qed
      obtain o2 p2 where 2: "on_os (setConfigValues (el_yaml L) ?f (updates opts g) configComment) p1 = (o2, p2)" by fastforce
      then have "setConfigValues (el_yaml L) ?f (updates opts g) configComment (ps_os p1) = (o2, ps_os p2)"
        by (metis on_os_simps(5,6) fst_conv snd_conv prod.collapse)
      from setConfigValues_outcome [OF s1 this] obtain hs where hs: "hist (ps_os p2) = hist (ps_os p) @ hs"
        "list_all (\<lambda>d. \<exists>n'. file_at d ?f = Some n' \<and> n' \<in> {n} \<union> Collect (?R n)) hs"
        "o2 \<noteq> None \<Longrightarrow> file_at (dsk (ps_os p2)) ?f = Some n"
        "o2 = None \<Longrightarrow> \<exists>n'. file_at (dsk (ps_os p2)) ?f = Some n'
          \<and> withConfigValues (el_yaml L) (i_data n) (updates opts g) configComment = Inr (i_data n') \<and> n' \<in> {n} \<union> Collect (?R n)"
        "wf_disk (dsk (ps_os p2))" by blast
      show ?thesis
      proof (cases o2)
        case (Some er)
        with assms(2) 1 2 Inr have "r \<noteq> None" "p' = p2" by (auto simp: Enroll_def)
        with n hs Some show ?thesis by auto
      next
        case None
        with assms(2) 1 2 Inr have r: "r = None" "ps_os p' = ps_os (storeRecord L (fill d e) g p2)"
          by (auto simp: Enroll_def report_def Let_def)
        from hs(4) [OF None] obtain n' where n': "file_at (dsk (ps_os p2)) ?f = Some n'"
          "withConfigValues (el_yaml L) (i_data n) (updates opts g) configComment = Inr (i_data n')" "n' \<in> {n} \<union> Collect (?R n)" by blast
        have "stable (hist (ps_os p2)) (holds_at ?f (Some n')) (ps_os p2)"
          using n'(1) hs(5) by (intro stable_start) (simp add: holds_at_def)
        from storeRecord_frame [OF this ap, of L "fill d e"] r(2)
        have "stable (hist (ps_os p2)) (holds_at ?f (Some n')) (ps_os p')" by simp
        then obtain ks where "hist (ps_os p') = hist (ps_os p2) @ ks" "list_all (holds_at ?f (Some n')) ks"
          "file_at (dsk (ps_os p')) ?f = Some n'" by (auto simp: stable_def holds_at_def)
        with n hs(1,2) n' r(1) show ?thesis
          by (intro exI [of _ n] exI [of _ "hs @ ks"]) (auto simp: list_all_iff holds_at_def)
      qed
    qed
    then show ?thesis using 1 Inr by simp
  qed
qed

theorem Enroll_config_last_witness:
  "let p' = snd (Enroll sample_enroll sample_defaults sample_Env None sample_opts sample_host)
   in \<exists>n. file_at (dsk (ps_os p')) ''/e/c'' = Some n \<and> (i_data n = ''y'' \<or>
     (\<exists>base. withConfigValues sample_yaml ''y'' [(''host_id'', ''h1''), (''api_base'', base)] configComment = Inr (i_data n)))"
proof -
  obtain g p1 where g: "register sample_enroll (fill sample_defaults sample_Env) None sample_opts sample_host = (Inr g, p1)"
    "rg_cfg g = sample_cfg" "rg_path g = ''/e/c''" "en_HostID (rg_res g) = ''h1''" using sample_register by auto
  obtain r p' where E: "Enroll sample_enroll sample_defaults sample_Env None sample_opts sample_host = (r, p')" by fastforce
  have "wf_disk (dsk (ps_os sample_host))" by code_simp
  from Enroll_config_last [OF this E] sample_apart g obtain n where n: "file_at (dsk (ps_os sample_host)) ''/e/c'' = Some n"
    "r \<noteq> None \<longrightarrow> file_at (dsk (ps_os p')) ''/e/c'' = Some n"
    "r = None \<longrightarrow> (\<exists>n'. file_at (dsk (ps_os p')) ''/e/c'' = Some n'
       \<and> withConfigValues (el_yaml sample_enroll) (i_data n) (updates sample_opts g) configComment = Inr (i_data n'))"
    by auto
  have "i_data n = ''y''" using n(1) by (auto simp: sample_host_def file_at_def ent_def)
  moreover have "updates sample_opts g = [(''host_id'', ''h1''), (''api_base'', rg_base g)]"
    using g TrimSpace_plain [of "[]"] by (simp add: updates_def configUpdates_def sample_opts_def)
  moreover have "el_yaml sample_enroll = sample_yaml" by (simp add: sample_enroll_def)
  ultimately show ?thesis using n(2,3) E by (cases r) (auto simp: Let_def)
qed


text \<open>C9: what a person approves is what the provider records. A registration that succeeds announced the
  normalised groups in the device request, obtained the token for that request, and posted under
  that token a body with the very same groups and name: the list has no duplicates and no empty
  code, and nothing is added to the request but the name, the intent and the two hints.\<close>

theorem approved_groups_are_enrolled:
  assumes "register L env ctx opts p = (Inr g, p')"
  shows "\<exists>groups confirm http oauth w1 da w2 ctx' polled pin w3 tok w4 wire body http' req resp. let X = el_oidc L; S = el_ssh L in
    groups = normaliseGroups (sl_go S) (eo_Groups opts) \<and> distinct groups \<and> [] \<notin> set groups
    \<and> ox_device X http oauth ctx
        ([(''device_name'', TrimSpace (eo_Name opts))] @ (if confirm then [(''confirmation_supported'', ''true'')] else [])
         @ (if groups \<noteq> [] then [(''groups'', Join '','' groups)] else []) @ [(''intent'', ''enroll'')]) w1 = (Inr (Some da), w2)
    \<and> da_DeviceCode polled = da_DeviceCode da
    \<and> ox_token X http oauth ctx' polled pin w3 = (Inr (Some tok), w4)
    \<and> ew_groups wire = groups \<and> ew_name wire = TrimSpace (eo_Name opts) \<and> ew_accounts wire \<noteq> []
    \<and> pe_marshal (sl_provider S) wire = Inr body \<and> rq_body req = body
    \<and> map_of (rq_header req) ''Authorization'' = Some (''Bearer '' @ tk_AccessToken tok) \<and> tk_AccessToken tok \<noteq> []
    \<and> pe_do (sl_provider S) http' req w4 = (Inr resp, ps_net p')
    \<and> enroll_answer (sl_go S) (sl_provider S) resp = Inr (rg_res g)"
proof -
  let ?X = "el_oidc L" and ?S = "el_ssh L"
  from assms show ?thesis
  proof (cases rule: register_Inr)
    case (1 loaded p1 pl p2 generated p3)
    define groups where "groups = normaliseGroups (sl_go ?S) (eo_Groups opts)"
    from 1(4) have pl: "pl_name pl = TrimSpace (eo_Name opts)" "pl_name pl \<noteq> []" "pl_groups pl = groups" "pl_accounts pl \<noteq> []"
      by (auto simp: plan_for_def Let_def groups_def split: if_splits)
    have gs: "distinct groups" "[] \<notin> set groups" using normaliseGroups_spec(1,2) by (simp_all add: groups_def)
    from 1(8) obtain client q1 token q2 pc where
      a: "authorizeEnrolment L ctx env (rg_cfg g) client (pl_name pl) groups q1 = (Inr token, q2)"
      and e: "on_net (Provider.Enroll (sl_go ?S) (sl_provider ?S) pc token
        (enroll_request (rg_id g) (pl_name pl) (pl_hostname pl) groups (pl_accounts pl))) q2 = (Inr (rg_res g), p')"
      unfolding register_at_def Let_def pl(3) by (fastforce split: prod.splits sum.splits)
    define confirm where "confirm = sm_ConfirmationSupported (SSH ?X client)"
    from a obtain da r1 where d: "on_net (StartDeviceAuth (sl_go ?S) ?X client ctx (pl_name pl) (enroll_params confirm groups)) q1
        = (Inr (Some da), r1)" and w: "await_approval L ctx env (rg_cfg g) client (pl_name pl) confirm da r1 = (Inr token, q2)"
      unfolding authorizeEnrolment_def Let_def confirm_def by (fastforce split: prod.splits sum.splits option.splits)
    from d have dev: "ox_device ?X (oc_httpClient client) (oc_oauth client) ctx (device_params (pl_name pl) (enroll_params confirm groups))
        (ps_net q1) = (Inr (Some da), ps_net r1)"
      by (auto simp: on_net_def StartDeviceAuth_eq split: prod.splits sum.splits if_splits)
    from w obtain pin r2 ctx' tok where t: "on_net (WaitForToken (sl_go ?S) ?X client ctx' (Some da) pin) r2 = (Inr tok, q2)"
      and token: "token = (case tok of None \<Rightarrow> [] | Some t \<Rightarrow> tk_AccessToken t)" "token \<noteq> []"
      unfolding await_approval_def Let_def by (fastforce split: prod.splits sum.splits if_splits)
    then obtain tk where tk: "tok = Some tk" "token = tk_AccessToken tk" by (cases tok) auto
    define polled where "polled = da\<lparr>da_Interval := clampInterval (da_Interval da)\<rparr>"
    from t tk have tkn: "ox_token ?X (oc_httpClient client) (oc_oauth client) ctx' polled
        (if pin \<noteq> [] then [(''user_confirmation'', pin)] else []) (ps_net r2) = (Inr (Some tk), ps_net q2)"
      by (auto simp: on_net_def WaitForToken_def Let_def polled_def split: prod.splits sum.splits)
    define wire where "wire = enroll_wire (enroll_request (rg_id g) (pl_name pl) (pl_hostname pl) groups (pl_accounts pl))"
    have "Provider.Enroll (sl_go ?S) (sl_provider ?S) pc token
        (enroll_request (rg_id g) (pl_name pl) (pl_hostname pl) groups (pl_accounts pl)) (ps_net q2) = (Inr (rg_res g), ps_net p')"
      using e by (metis on_net_simps(5,6) fst_conv snd_conv prod.collapse)
    from Enroll_posts [OF this, folded wire_def] obtain body req resp where b: "pe_marshal (sl_provider ?S) wire = Inr body"
      "rq_body req = body" "map_of (rq_header req) ''Authorization'' = Some (''Bearer '' @ token)"
      "pe_do (sl_provider ?S) (cl_http pc) req (ps_net q2) = (Inr resp, ps_net p')"
      "enroll_answer (sl_go ?S) (sl_provider ?S) resp = Inr (rg_res g)" by blast
    have wf: "ew_groups wire = groups" "ew_name wire = TrimSpace (eo_Name opts)" "ew_accounts wire \<noteq> []"
      using pl by (simp_all add: wire_def enroll_wire_def enroll_request_def nonNil_def)
    have dc: "da_DeviceCode polled = da_DeviceCode da" by (simp add: polled_def)
    have tne: "tk_AccessToken tk \<noteq> []" using tk(2) token(2) by simp
    note b' = b(3) [unfolded tk(2)]
    note dev' = dev [unfolded enroll_params_sent [OF gs(2) pl(2)], unfolded pl(1)]
    show ?thesis
      unfolding Let_def
      by (intro exI [of _ groups] exI [of _ confirm] exI [of _ "oc_httpClient client"] exI [of _ "oc_oauth client"] exI [of _ "ps_net q1"] exI [of _ da] exI [of _ "ps_net r1"]
          exI [of _ ctx'] exI [of _ polled] exI [of _ "if pin \<noteq> [] then [(''user_confirmation'', pin)] else []"]
          exI [of _ "ps_net r2"] exI [of _ tk] exI [of _ "ps_net q2"] exI [of _ wire] exI [of _ body] exI [of _ "cl_http pc"]
          exI [of _ req] exI [of _ resp] conjI)
        (fact groups_def gs dev' dc tkn wf b(1,2) b' tne b(4,5))+
  qed
qed

theorem approved_groups_are_enrolled_witness:
  "\<exists>g p' confirm http oauth w1 da w2 ctx' polled pin w3 tok w4 wire body http' req resp. let X = el_oidc sample_enroll; S = el_ssh sample_enroll in
    register sample_enroll (fill sample_defaults sample_Env) None sample_opts sample_host = (Inr g, p')
    \<and> ox_device X http oauth None
        ([(''device_name'', ''n'')] @ (if confirm then [(''confirmation_supported'', ''true'')] else [])
         @ [(''groups'', ''a'')] @ [(''intent'', ''enroll'')]) w1 = (Inr (Some da), w2)
    \<and> da_DeviceCode polled = da_DeviceCode da
    \<and> ox_token X http oauth ctx' polled pin w3 = (Inr (Some tok), w4)
    \<and> ew_groups wire = [''a''] \<and> ew_name wire = ''n'' \<and> pe_marshal (sl_provider S) wire = Inr body \<and> rq_body req = body
    \<and> map_of (rq_header req) ''Authorization'' = Some (''Bearer '' @ tk_AccessToken tok) \<and> tk_AccessToken tok \<noteq> []
    \<and> pe_do (sl_provider S) http' req w4 = (Inr resp, ps_net p')
    \<and> enroll_answer (sl_go S) (sl_provider S) resp = Inr (rg_res g)"
proof -
  obtain g p' where g: "register sample_enroll (fill sample_defaults sample_Env) None sample_opts sample_host = (Inr g, p')"
    using sample_register by blast
  have gs: "normaliseGroups (sl_go (el_ssh sample_enroll)) (eo_Groups sample_opts) = [''a'']"
  proof -
    have "lower_char (CHR ''A'') = CHR ''a''" "lower_char (CHR ''a'') = CHR ''a''" by code_simp+
    then show ?thesis by (simp add: normaliseGroups_def sample_opts_def ToLower_def TrimSpace_plain byte_def Let_def)
  qed
  have n: "TrimSpace (eo_Name sample_opts) = ''n''" by (simp add: sample_opts_def TrimSpace_plain byte_def)
  let ?X = "el_oidc sample_enroll" and ?S = "el_ssh sample_enroll"
  obtain groups confirm http oauth w1 da w2 ctx' polled pin w3 tok w4 wire body http' req resp where t:
    "groups = [''a'']"
    "ox_device ?X http oauth None
        ([(''device_name'', ''n'')] @ (if confirm then [(''confirmation_supported'', ''true'')] else [])
         @ (if groups \<noteq> [] then [(''groups'', Join '','' groups)] else []) @ [(''intent'', ''enroll'')]) w1 = (Inr (Some da), w2)"
    "da_DeviceCode polled = da_DeviceCode da" "ox_token ?X http oauth ctx' polled pin w3 = (Inr (Some tok), w4)"
    "ew_groups wire = groups" "ew_name wire = ''n''" "pe_marshal (sl_provider ?S) wire = Inr body" "rq_body req = body"
    "map_of (rq_header req) ''Authorization'' = Some (''Bearer '' @ tk_AccessToken tok)" "tk_AccessToken tok \<noteq> []"
    "pe_do (sl_provider ?S) http' req w4 = (Inr resp, ps_net p')"
    "enroll_answer (sl_go ?S) (sl_provider ?S) resp = Inr (rg_res g)"
    using approved_groups_are_enrolled [OF g] unfolding Let_def gs n by (elim exE conjE) (rule that; assumption)
  have d: "ox_device ?X http oauth None ([(''device_name'', ''n'')] @ (if confirm then [(''confirmation_supported'', ''true'')] else [])
      @ [(''groups'', ''a'')] @ [(''intent'', ''enroll'')]) w1 = (Inr (Some da), w2)"
    using t(2) by (simp add: t(1))
  show ?thesis
    unfolding Let_def
    by (intro exI conjI) (fact g, fact d, fact t(3), fact t(4), fact t(5) [unfolded t(1)], (fact t)+)
qed

end
