(* ===== verification/TestProvider.thy ===== *)
theory TestProvider
  imports OidcClient Hostid
begin

text \<open>
  The provider the integration tests run against (\<^verbatim>\<open>src/internal/testprovider/provider.go\<close> and
  \<^verbatim>\<open>ssh.go\<close>): the device flow with its programmable outcome, enrolment, host assertions with
  replay protection, and the authorized-keys endpoint. One handler is one function from the state
  to the answer and the new state; where a handler takes the lock several times, each critical
  section is a function of its own. The clock and the random draws are arguments, JOSE, JSON and the
  OpenSSH key parser are the functions of record \<open>prov_lib\<close>. The lemmas show that no assertion is
  accepted twice, that hosts stay unique, and that polling reaches the programmed outcome.
\<close>

section \<open>Constants and data\<close>

definition DeviceGrantType :: string where "DeviceGrantType = ''urn:ietf:params:oauth:grant-type:device_code''"
definition KeyID :: string where "KeyID = ''test-key-1''"
definition DefaultClientID :: string where "DefaultClientID = ''test-client''"
definition SSHBasePath :: string where "SSHBasePath = ''/api/ssh''"
definition assertionSkew :: duration where "assertionSkew = 60 * Second"
definition assertionMaxLifetime :: duration where "assertionMaxLifetime = 60 * Second"
definition accessTokenLifetime :: duration where "accessTokenLifetime = 300 * Second"
definition maxEnrollBody :: nat where "maxEnrollBody = 65536"

text \<open>Both enumerations are integers in the source; the last constructor stands for the other ones.\<close>

datatype Outcome = Approved | Denied | Expired | UnknownOutcome int
datatype KeysOutcome = KeysOK | KeysServerError | KeysTimeout

text \<open>A public key: an Ed25519 key, another key that exposes its crypto key, or one that does not.\<close>

datatype pub_key = EdPub string | CryptoPub string string | PlainPub string string

fun key_type :: "pub_key \<Rightarrow> string" where
  "key_type (EdPub k) = ''ssh-ed25519''"
| "key_type (CryptoPub ty k) = ty"
| "key_type (PlainPub ty k) = ty"

record Host =
  ho_ID :: string
  ho_Name :: string
  ho_Hostname :: string
  ho_PublicKey :: pub_key
  ho_Fingerprint :: string
  ho_Groups :: "string list"
  ho_Accounts :: "string list"
  ho_AgentVersion :: string
  ho_Active :: bool

record issuedAT =
  ia_intent :: string
  ia_exp :: time

record hostClaims =
  hc_Issuer :: string
  hc_Subject :: string
  hc_Audience :: json
  hc_IssuedAt :: int
  hc_Expiry :: int
  hc_ID :: string

record enrollPayload =
  ep_PublicKey :: string
  ep_Name :: string
  ep_Hostname :: string
  ep_Groups :: "string list option"
  ep_Accounts :: "string list option"
  ep_AgentVersion :: string

text \<open>
  \<open>tl_signed\<close> is jose.ParseSigned for EdDSA, \<open>tl_payload\<close> the payload before verification and
  \<open>tl_verify\<close> the verified one; \<open>tl_claims\<close> and \<open>tl_enroll\<close> are the decodings the package asks
  for, \<open>tl_json\<close> encodes a JSON object, \<open>tl_rs256\<close> and \<open>tl_hs256\<close> are the two signatures.
\<close>

record prov_lib =
  tl_parse :: "string \<Rightarrow> go_error + (pub_key \<times> string)"
  tl_fingerprint :: "pub_key \<Rightarrow> string"
  tl_signed :: "string \<Rightarrow> go_error + string"
  tl_payload :: "string \<Rightarrow> string"
  tl_verify :: "string \<Rightarrow> string \<Rightarrow> go_error + string"
  tl_claims :: "string \<Rightarrow> hostClaims option"
  tl_enroll :: "string \<Rightarrow> enrollPayload option"
  tl_json :: "claims \<Rightarrow> go_error + nat list"
  tl_rs256 :: "string \<Rightarrow> go_error + nat list"
  tl_hs256 :: "nat list \<Rightarrow> string \<Rightarrow> nat list"
  tl_b64 :: "string \<Rightarrow> go_error + nat list"

record sshState =
  ss_hosts :: "(string \<times> Host) list"
  ss_accessTokens :: "(string \<times> issuedAT) list"
  ss_seenJTI :: "(string \<times> time) list"
  ss_keys :: "(string \<times> string list) list"
  ss_keysOutcome :: KeysOutcome
  ss_requireHost :: bool
  ss_policyDeny :: bool
  ss_hostAssertion :: string
  ss_account :: string
  ss_intent :: string
  ss_flowHost :: "Host option"
  ss_keysAccount :: string
  ss_keysFingerprint :: string
  ss_keysEnv :: string
  ss_keysRequests :: nat

record provider =
  tp_url :: string
  tp_outcome :: Outcome
  tp_claims :: claims
  tp_pending :: int
  tp_slowDown :: bool
  tp_interval :: int
  tp_expiresIn :: int
  tp_deviceCode :: string
  tp_userCode :: string
  tp_clientID :: string
  tp_scope :: string
  tp_deviceName :: string
  tp_deviceParams :: "strmap option"
  tp_pollCount :: nat
  tp_ssh :: sshState

definition newSSHState :: sshState where
  "newSSHState = \<lparr>ss_hosts = [], ss_accessTokens = [], ss_seenJTI = [], ss_keys = [], ss_keysOutcome = KeysOK,
     ss_requireHost = False, ss_policyDeny = False, ss_hostAssertion = [], ss_account = [], ss_intent = [],
     ss_flowHost = None, ss_keysAccount = [], ss_keysFingerprint = [], ss_keysEnv = [], ss_keysRequests = 0\<rparr>"

text \<open>New without options, listening at \<open>url\<close>.\<close>

definition new_provider :: "string \<Rightarrow> provider" where
  "new_provider url = \<lparr>tp_url = TrimSuffix url ''/'', tp_outcome = Approved, tp_claims = [], tp_pending = 0, tp_slowDown = False,
     tp_interval = 1, tp_expiresIn = 600, tp_deviceCode = [], tp_userCode = [], tp_clientID = [], tp_scope = [],
     tp_deviceName = [], tp_deviceParams = None, tp_pollCount = 0, tp_ssh = newSSHState\<rparr>"

text \<open>The options of the constructor, and New once the server listens at \<open>url\<close>; the listening address and
  the request log do not reach the state.\<close>

definition WithOutcome :: "Outcome \<Rightarrow> provider \<Rightarrow> provider" where "WithOutcome x p = p\<lparr>tp_outcome := x\<rparr>"
definition WithClaims :: "claims \<Rightarrow> provider \<Rightarrow> provider" where "WithClaims c p = p\<lparr>tp_claims := c\<rparr>"
definition WithPendingPolls :: "int \<Rightarrow> provider \<Rightarrow> provider" where "WithPendingPolls n p = p\<lparr>tp_pending := n\<rparr>"
definition WithInterval :: "int \<Rightarrow> provider \<Rightarrow> provider" where "WithInterval n p = p\<lparr>tp_interval := n\<rparr>"
definition WithExpiresIn :: "int \<Rightarrow> provider \<Rightarrow> provider" where "WithExpiresIn n p = p\<lparr>tp_expiresIn := n\<rparr>"

definition New :: "string \<Rightarrow> (provider \<Rightarrow> provider) list \<Rightarrow> provider" where
  "New url opts = fold (\<lambda>opt. opt) opts (new_provider url)"

definition put :: "'k \<Rightarrow> 'v \<Rightarrow> ('k \<times> 'v) list \<Rightarrow> ('k \<times> 'v) list" where
  "put k v m = (k, v) # filter (\<lambda>x. fst x \<noteq> k) m"

definition on_ssh :: "(sshState \<Rightarrow> sshState) \<Rightarrow> provider \<Rightarrow> provider" where
  "on_ssh f p = p\<lparr>tp_ssh := f (tp_ssh p)\<rparr>"

section \<open>Programming the provider\<close>

definition SetOutcome :: "Outcome \<Rightarrow> provider \<Rightarrow> provider" where "SetOutcome x p = p\<lparr>tp_outcome := x\<rparr>"
definition SetClaims :: "claims \<Rightarrow> provider \<Rightarrow> provider" where "SetClaims c p = p\<lparr>tp_claims := c\<rparr>"
definition SetPendingPolls :: "int \<Rightarrow> provider \<Rightarrow> provider" where "SetPendingPolls n p = p\<lparr>tp_pending := n\<rparr>"
definition SetSlowDownOnce :: "provider \<Rightarrow> provider" where "SetSlowDownOnce p = p\<lparr>tp_slowDown := True\<rparr>"
definition SetInterval :: "int \<Rightarrow> provider \<Rightarrow> provider" where "SetInterval n p = p\<lparr>tp_interval := n\<rparr>"
definition SetExpiresIn :: "int \<Rightarrow> provider \<Rightarrow> provider" where "SetExpiresIn n p = p\<lparr>tp_expiresIn := n\<rparr>"

definition SetAuthorizedKeys :: "string \<Rightarrow> string list \<Rightarrow> provider \<Rightarrow> provider" where
  "SetAuthorizedKeys account ls = on_ssh (\<lambda>s. s\<lparr>ss_keys := put account ls (ss_keys s)\<rparr>)"

definition SetKeysOutcome :: "KeysOutcome \<Rightarrow> provider \<Rightarrow> provider" where
  "SetKeysOutcome x = on_ssh (\<lambda>s. s\<lparr>ss_keysOutcome := x\<rparr>)"

definition SetRequireHost :: "bool \<Rightarrow> provider \<Rightarrow> provider" where
  "SetRequireHost b = on_ssh (\<lambda>s. s\<lparr>ss_requireHost := b\<rparr>)"

definition SetPolicyDeny :: "bool \<Rightarrow> provider \<Rightarrow> provider" where
  "SetPolicyDeny b = on_ssh (\<lambda>s. s\<lparr>ss_policyDeny := b\<rparr>)"

definition RevokeHost :: "string \<Rightarrow> provider \<Rightarrow> provider" where
  "RevokeHost i = on_ssh (\<lambda>s. case map_of (ss_hosts s) i of None \<Rightarrow> s
     | Some h \<Rightarrow> s\<lparr>ss_hosts := put i (h\<lparr>ho_Active := False\<rparr>) (ss_hosts s)\<rparr>)"

definition hex_char :: "nat \<Rightarrow> char" where
  "hex_char n = char_of (if n < 10 then 48 + n else 87 + n)"

definition hex :: "nat list \<Rightarrow> string" where
  "hex bs = concat (map (\<lambda>b. [hex_char (b div 16), hex_char (b mod 16)]) bs)"

text \<open>\<open>raw\<close> are the random bytes of the host id.\<close>

definition addHostLocked :: "prov_lib \<Rightarrow> nat list \<Rightarrow> string \<Rightarrow> pub_key \<Rightarrow> sshState \<Rightarrow> Host \<times> sshState" where
  "addHostLocked L raw name pub s =
     (let h = \<lparr>ho_ID = hex raw, ho_Name = name, ho_Hostname = [], ho_PublicKey = pub, ho_Fingerprint = tl_fingerprint L pub,
            ho_Groups = [], ho_Accounts = [], ho_AgentVersion = [], ho_Active = True\<rparr>
      in (h, s\<lparr>ss_hosts := put (ho_ID h) h (ss_hosts s)\<rparr>))"

definition store_host :: "Host \<Rightarrow> sshState \<Rightarrow> sshState" where
  "store_host h s = s\<lparr>ss_hosts := put (ho_ID h) h (ss_hosts s)\<rparr>"

definition AddHost :: "prov_lib \<Rightarrow> nat list \<Rightarrow> string \<Rightarrow> pub_key \<Rightarrow> string list \<Rightarrow> string list \<Rightarrow> provider \<Rightarrow> string \<times> provider" where
  "AddHost L raw name pub accounts groups p =
     (let (h, s) = addHostLocked L raw name pub (tp_ssh p)
      in (ho_ID h, p\<lparr>tp_ssh := store_host (h\<lparr>ho_Accounts := accounts, ho_Groups := groups\<rparr>) s\<rparr>))"

definition SSHBase :: "provider \<Rightarrow> string" where
  "SSHBase p = tp_url p @ SSHBasePath"

section \<open>Requests and answers\<close>

text \<open>A request as the handlers see it: the form when the body parses as one, the query, the
  Authorization header and the body.\<close>

record web_request =
  wq_form :: "strmap option"
  wq_query :: strmap
  wq_auth :: string
  wq_body :: "go_error + string"

datatype payload = Json "(string \<times> json) list" | PlainText string

datatype answer = Answer (an_status: int) (an_body: payload)

definition get :: "strmap \<Rightarrow> string \<Rightarrow> string" where
  "get form key = (case map_of form key of None \<Rightarrow> [] | Some v \<Rightarrow> v)"

definition writeStatusError :: "int \<Rightarrow> string \<Rightarrow> string \<Rightarrow> answer" where
  "writeStatusError status code description =
     Answer status (Json [(''error'', JString code), (''error_description'', JString description)])"

definition writeError :: "string \<Rightarrow> string \<Rightarrow> answer" where
  "writeError = writeStatusError 400"

definition writeText :: "int \<Rightarrow> string \<Rightarrow> answer" where
  "writeText status body = Answer status (PlainText body)"

text \<open>The error code of an answer, when it is an error in JSON.\<close>

definition error_code :: "answer \<Rightarrow> string option" where
  "error_code a = (case an_body a of Json m \<Rightarrow> (case map_of m ''error'' of Some (JString c) \<Rightarrow> Some c | _ \<Rightarrow> None)
     | PlainText t \<Rightarrow> None)"

definition random_failed :: "go_error \<Rightarrow> go_error" where
  "random_failed e = wrapf ''testprovider: random: '' e []"

definition randomToken :: "go_error + nat list \<Rightarrow> go_error + string" where
  "randomToken draw = (case draw of Inl e \<Rightarrow> Inl (random_failed e) | Inr bs \<Rightarrow> Inr (RawURLEncoding bs))"

definition alphabet :: string where "alphabet = ''BCDFGHJKLMNPQRSTVWXZ''"

text \<open>The loop over eight draws below the size of the alphabet; \<open>draw i\<close> is the one of round \<open>i\<close>.\<close>

fun user_code_loop :: "(nat \<Rightarrow> go_error + nat) \<Rightarrow> nat list \<Rightarrow> string \<Rightarrow> go_error + string" where
  "user_code_loop draw [] sb = Inr sb"
| "user_code_loop draw (i # is) sb =
     (case draw i of Inl e \<Rightarrow> Inl (random_failed e)
      | Inr n \<Rightarrow> user_code_loop draw is ((if i = 4 then sb @ ''-'' else sb) @ [alphabet ! n]))"

definition randomUserCode :: "(nat \<Rightarrow> go_error + nat) \<Rightarrow> go_error + string" where
  "randomUserCode draw = user_code_loop draw [0..<8] []"

definition prefix_EqualFold :: "string \<Rightarrow> string \<Rightarrow> bool" where
  "prefix_EqualFold a b = (map lower_char a = map lower_char b)"

definition bearerToken :: "web_request \<Rightarrow> string" where
  "bearerToken r =
     (let h = wq_auth r; n = length ''Bearer '' in
      if length h \<le> n \<or> \<not> prefix_EqualFold (take n h) ''Bearer '' then [] else TrimSpace (drop n h))"

section \<open>Tokens\<close>

definition encodeJWT :: "prov_lib \<Rightarrow> claims \<Rightarrow> claims \<Rightarrow> go_error + string" where
  "encodeJWT L header claims =
     (case tl_json L header of Inl e \<Rightarrow> Inl (wrapf ''testprovider: marshal header: '' e [])
      | Inr h \<Rightarrow> (case tl_json L claims of Inl e \<Rightarrow> Inl (wrapf ''testprovider: marshal claims: '' e [])
        | Inr c \<Rightarrow> Inr (RawURLEncoding h @ ''.'' @ RawURLEncoding c)))"

definition merge :: "claims \<Rightarrow> claims \<Rightarrow> claims" where
  "merge base extra = fold (\<lambda>(k, v). put k v) extra base"

definition withDefaultClaims :: "time \<Rightarrow> provider \<Rightarrow> claims \<Rightarrow> claims" where
  "withDefaultClaims now p claims =
     (let aud = (if tp_clientID p = [] then DefaultClientID else tp_clientID p) in
      merge [(''iss'', JString (tp_url p)), (''aud'', JString aud), (''iat'', JNumber (deci (now div Second))),
             (''exp'', JNumber (deci ((now + 300 * Second) div Second)))] claims)"

definition jwt_header :: "string \<Rightarrow> claims" where
  "jwt_header alg = [(''alg'', JString alg), (''typ'', JString ''JWT''), (''kid'', JString KeyID)]"

definition SignIDToken :: "prov_lib \<Rightarrow> time \<Rightarrow> provider \<Rightarrow> claims \<Rightarrow> go_error + string" where
  "SignIDToken L now p claims =
     (case encodeJWT L (jwt_header ''RS256'') (withDefaultClaims now p claims) of
        Inl e \<Rightarrow> Inl e
      | Inr input \<Rightarrow> (case tl_rs256 L input of
          Inl e \<Rightarrow> Inl (wrapf ''testprovider: sign: '' e [])
        | Inr sig \<Rightarrow> Inr (input @ ''.'' @ RawURLEncoding sig)))"

definition SignHS256 :: "prov_lib \<Rightarrow> time \<Rightarrow> provider \<Rightarrow> claims \<Rightarrow> nat list \<Rightarrow> go_error + string" where
  "SignHS256 L now p claims secret =
     (case encodeJWT L (jwt_header ''HS256'') (withDefaultClaims now p claims) of
        Inl e \<Rightarrow> Inl e | Inr input \<Rightarrow> Inr (input @ ''.'' @ RawURLEncoding (tl_hs256 L secret input)))"

text \<open>A claim that cannot be encoded panics in the source: no token.\<close>

definition SignWithAlgNone :: "prov_lib \<Rightarrow> time \<Rightarrow> provider \<Rightarrow> claims \<Rightarrow> string option" where
  "SignWithAlgNone L now p claims =
     (case encodeJWT L [(''alg'', JString ''none''), (''typ'', JString ''JWT'')] (withDefaultClaims now p claims) of
        Inl e \<Rightarrow> None | Inr input \<Rightarrow> Some (input @ ''.''))"

definition flip_tail :: "nat list \<Rightarrow> nat list" where
  "flip_tail sig = take (length sig - 4) sig @ map (\<lambda>b. 255 - b) (drop (length sig - 4) sig)"

definition CorruptSignature :: "prov_lib \<Rightarrow> string \<Rightarrow> string" where
  "CorruptSignature L token =
     (let sig = rev (takeWhile (\<lambda>c. c \<noteq> CHR ''.'') (rev token)); before = take (length token - length sig) token in
      if before = [] then token
      else case tl_b64 L sig of
        Inl e \<Rightarrow> before @ ''AAAA''
      | Inr bs \<Rightarrow> if bs = [] then before @ ''AAAA'' else before @ RawURLEncoding (flip_tail bs))"

definition appendGroup :: "json option \<Rightarrow> string \<Rightarrow> json" where
  "appendGroup groups g = (case groups of Some (JArray gs) \<Rightarrow> JArray (gs @ [JString g]) | _ \<Rightarrow> JArray [JString g])"

section \<open>Host assertions\<close>

datatype assertionError = AssertionError (ae_status: int) (ae_reason: string)

definition unverifiable :: "string \<Rightarrow> assertionError" where
  "unverifiable reason = AssertionError 401 reason"

text \<open>Subtraction of two int64.\<close>

definition int64 :: "int \<Rightarrow> int" where
  "int64 x = (x + 2 ^ 63) mod 2 ^ 64 - 2 ^ 63"

definition audienceMatches :: "json \<Rightarrow> string \<Rightarrow> bool" where
  "audienceMatches aud want = (case aud of
     JString a \<Rightarrow> a = want
   | JArray xs \<Rightarrow> (case xs of [x] \<Rightarrow> x = JString want | _ \<Rightarrow> False)
   | _ \<Rightarrow> False)"

text \<open>Up to the verified claims: the host the token names and what it claims under the key of the host.\<close>

definition authentic :: "prov_lib \<Rightarrow> string \<Rightarrow> (string \<times> Host) list \<Rightarrow> assertionError + (Host \<times> hostClaims)" where
  "authentic L tok hosts =
     (if tok = [] then Inl (unverifiable ''missing host assertion'')
      else case tl_signed L tok of
        Inl e \<Rightarrow> Inl (unverifiable (''malformed assertion: '' @ err_msg e))
      | Inr jws \<Rightarrow> (case tl_claims L (tl_payload L jws) of
        None \<Rightarrow> Inl (unverifiable ''malformed claims'')
      | Some unverified \<Rightarrow> (case map_of hosts (hc_Issuer unverified) of
        None \<Rightarrow> Inl (unverifiable ''unknown host'')
      | Some host \<Rightarrow> (case ho_PublicKey host of
        PlainPub ty k \<Rightarrow> Inl (unverifiable ''host key is not usable'')
      | CryptoPub ty k \<Rightarrow> Inl (unverifiable ''host key is not ed25519'')
      | EdPub k \<Rightarrow> (case tl_verify L jws k of
        Inl e \<Rightarrow> Inl (unverifiable ''bad signature'')
      | Inr verified \<Rightarrow> (case tl_claims L verified of
        None \<Rightarrow> Inl (unverifiable ''malformed claims'')
      | Some c \<Rightarrow> Inr (host, c)))))))"

definition check_claims :: "provider \<Rightarrow> hostClaims \<Rightarrow> time \<Rightarrow> string option" where
  "check_claims p c now =
     (if hc_Subject c \<noteq> hc_Issuer c then Some ''sub != iss''
      else if \<not> audienceMatches (hc_Audience c) (SSHBase p) then Some ''wrong audience''
      else if hc_IssuedAt c = 0 \<or> hc_Expiry c = 0 then Some ''missing iat or exp''
      else if hc_Expiry c \<le> hc_IssuedAt c then Some ''exp before iat''
      else if assertionMaxLifetime div Second < int64 (hc_Expiry c - hc_IssuedAt c) then Some ''lifetime exceeds 60 s''
      else if now + assertionSkew < hc_IssuedAt c * Second then Some ''issued in the future''
      else if hc_Expiry c * Second < now - assertionSkew then Some ''expired''
      else if hc_ID c = [] then Some ''missing jti''
      else None)"

definition jti_key :: "Host \<Rightarrow> hostClaims \<Rightarrow> string" where
  "jti_key h c = ho_ID h @ [CHR 0x00] @ hc_ID c"

definition verifyHostAssertionLocked :: "prov_lib \<Rightarrow> string \<Rightarrow> time \<Rightarrow> provider \<Rightarrow> (assertionError + Host) \<times> provider" where
  "verifyHostAssertionLocked L tok now p =
     (case authentic L tok (ss_hosts (tp_ssh p)) of
        Inl e \<Rightarrow> (Inl e, p)
      | Inr (host, c) \<Rightarrow> (case check_claims p c now of
        Some reason \<Rightarrow> (Inl (unverifiable reason), p)
      | None \<Rightarrow>
          if \<not> ho_Active host then (Inl (AssertionError 403 ''host revoked''), p)
          else (let seen = filter (\<lambda>x. \<not> snd x < now) (ss_seenJTI (tp_ssh p)) in
            if map_of seen (jti_key host c) \<noteq> None then
              (Inl (unverifiable ''replayed jti''), on_ssh (\<lambda>s. s\<lparr>ss_seenJTI := seen\<rparr>) p)
            else (Inr host, on_ssh (\<lambda>s. s\<lparr>ss_seenJTI := put (jti_key host c) (hc_Expiry c * Second + assertionSkew) seen\<rparr>) p))))"

section \<open>The device flow\<close>

text \<open>The critical section of the device authorization endpoint. The extension parameters are
  recorded first, so that they can be inspected even when the request is refused.\<close>

definition device_section :: "prov_lib \<Rightarrow> time \<Rightarrow> strmap \<Rightarrow> string \<Rightarrow> string \<Rightarrow> string \<Rightarrow> provider \<Rightarrow> answer option \<times> provider" where
  "device_section L now form intent deviceCode userCode p =
     (let hostAssertion = get form ''host_assertion'';
          p1 = on_ssh (\<lambda>s. s\<lparr>ss_hostAssertion := hostAssertion, ss_account := get form ''account'', ss_intent := intent,
                 ss_flowHost := None\<rparr>) p;
          record_flow = (\<lambda>q. q\<lparr>tp_clientID := get form ''client_id'', tp_scope := get form ''scope'',
                 tp_deviceName := get form ''device_name'', tp_deviceParams := Some form, tp_deviceCode := deviceCode,
                 tp_userCode := userCode\<rparr>) in
      if hostAssertion = [] then
        (if ss_requireHost (tp_ssh p1) then (Some (writeError ''invalid_request'' ''host_assertion is required''), p1)
         else (None, record_flow p1))
      else case verifyHostAssertionLocked L hostAssertion now p1 of
        (Inl e, p2) \<Rightarrow> (Some (writeError ''invalid_request'' (''host_assertion: '' @ ae_reason e)), p2)
      | (Inr host, p2) \<Rightarrow> (None, record_flow (on_ssh (\<lambda>s. s\<lparr>ss_flowHost := Some host\<rparr>) p2)))"

definition device_answer :: "provider \<Rightarrow> answer" where
  "device_answer p = Answer 200 (Json [(''device_code'', JString (tp_deviceCode p)), (''user_code'', JString (tp_userCode p)),
     (''verification_uri'', JString (tp_url p @ ''/device'')),
     (''verification_uri_complete'', JString (tp_url p @ ''/device?user_code='' @ tp_userCode p)),
     (''expires_in'', JNumber (deci (tp_expiresIn p))), (''interval'', JNumber (deci (tp_interval p)))])"

definition handleDeviceAuthorization :: "prov_lib \<Rightarrow> time \<Rightarrow> go_error + nat list \<Rightarrow> (nat \<Rightarrow> go_error + nat) \<Rightarrow> web_request \<Rightarrow> provider
    \<Rightarrow> answer \<times> provider" where
  "handleDeviceAuthorization L now draw draws r p =
     (case wq_form r of None \<Rightarrow> (writeError ''invalid_request'' ''malformed form body'', p)
      | Some form \<Rightarrow>
          if get form ''client_id'' = [] then (writeError ''invalid_request'' ''client_id is required'', p)
          else (let intent = (if get form ''intent'' = [] then ''login'' else get form ''intent'') in
            if intent \<notin> {''login'', ''enroll''} then (writeError ''invalid_request'' ''intent must be login or enroll'', p)
            else case randomToken draw of
              Inl e \<Rightarrow> (writeError ''server_error'' (err_msg e), p)
            | Inr deviceCode \<Rightarrow> (case randomUserCode draws of
              Inl e \<Rightarrow> (writeError ''server_error'' (err_msg e), p)
            | Inr userCode \<Rightarrow> (case device_section L now form intent deviceCode userCode p of
                (Some a, p1) \<Rightarrow> (a, p1)
              | (None, p1) \<Rightarrow> (device_answer p1, p1)))))"

record grant =
  gt_outcome :: Outcome
  gt_scope :: string
  gt_claims :: claims
  gt_intent :: string

text \<open>The first critical section of the token endpoint: an error for now, or what to grant.\<close>

definition token_poll :: "string \<Rightarrow> provider \<Rightarrow> (answer + grant) \<times> provider" where
  "token_poll deviceCode p0 =
     (let p = p0\<lparr>tp_pollCount := Suc (tp_pollCount p0)\<rparr> in
      if deviceCode \<noteq> tp_deviceCode p then (Inl (writeError ''invalid_grant'' ''unknown device_code''), p)
      else if tp_slowDown p then
        (Inl (writeError ''slow_down'' ''polling too fast; increase the interval''), p\<lparr>tp_slowDown := False\<rparr>)
      else if 0 < tp_pending p then
        (Inl (writeError ''authorization_pending'' ''the user has not yet completed authorization''), p\<lparr>tp_pending := tp_pending p - 1\<rparr>)
      else (let s = tp_ssh p; hostFlow = (ss_flowHost s \<noteq> None); claims = merge [(''sub'', JString ''user-1'')] (tp_claims p) in
        (Inr \<lparr>gt_outcome = (if hostFlow \<and> ss_policyDeny s \<and> tp_outcome p = Approved then Denied else tp_outcome p),
              gt_scope = tp_scope p,
              gt_claims = (if hostFlow \<and> ss_account s \<noteq> [] then
                  put ''groups'' (appendGroup (map_of claims ''groups'') (''ssh:'' @ ss_account s)) claims else claims),
              gt_intent = ss_intent s\<rparr>, p)))"

text \<open>The second one records the access token.\<close>

definition token_grant :: "prov_lib \<Rightarrow> time \<Rightarrow> go_error + nat list \<Rightarrow> grant \<Rightarrow> provider \<Rightarrow> answer \<times> provider" where
  "token_grant L now draw g p =
     (case gt_outcome g of
        Denied \<Rightarrow> (writeError ''access_denied'' ''the user denied the authorization request'', p)
      | Expired \<Rightarrow> (writeError ''expired_token'' ''the device_code has expired'', p)
      | UnknownOutcome n \<Rightarrow> (writeError ''server_error'' (''unknown outcome '' @ deci n), p)
      | Approved \<Rightarrow> (case randomToken draw of
          Inl e \<Rightarrow> (writeError ''server_error'' (err_msg e), p)
        | Inr t \<Rightarrow> (case SignIDToken L now p (gt_claims g) of
          Inl e \<Rightarrow> (writeError ''server_error'' (err_msg e), p)
        | Inr idToken \<Rightarrow>
            (Answer 200 (Json [(''access_token'', JString (''at-'' @ t)), (''token_type'', JString ''Bearer''),
               (''expires_in'', JNumber ''300''), (''scope'', JString (gt_scope g)), (''id_token'', JString idToken)]),
             on_ssh (\<lambda>s. s\<lparr>ss_accessTokens := put (''at-'' @ t) \<lparr>ia_intent = gt_intent g, ia_exp = now + accessTokenLifetime\<rparr>
               (ss_accessTokens s)\<rparr>) p))))"

definition token_checks :: "web_request \<Rightarrow> answer + string" where
  "token_checks r =
     (case wq_form r of None \<Rightarrow> Inl (writeError ''invalid_request'' ''malformed form body'')
      | Some form \<Rightarrow>
          if get form ''grant_type'' \<noteq> DeviceGrantType then
            Inl (writeError ''unsupported_grant_type'' (''grant_type must be '' @ DeviceGrantType))
          else if get form ''client_id'' = [] then Inl (writeError ''invalid_request'' ''client_id is required'')
          else if get form ''device_code'' = [] then Inl (writeError ''invalid_request'' ''device_code is required'')
          else Inr (get form ''device_code''))"

definition handleToken :: "prov_lib \<Rightarrow> time \<Rightarrow> go_error + nat list \<Rightarrow> web_request \<Rightarrow> provider \<Rightarrow> answer \<times> provider" where
  "handleToken L now draw r p =
     (case token_checks r of Inl a \<Rightarrow> (a, p)
      | Inr deviceCode \<Rightarrow> (case token_poll deviceCode p of
          (Inl a, p1) \<Rightarrow> (a, p1) | (Inr g, p1) \<Rightarrow> token_grant L now draw g p1))"

section \<open>Enrolment\<close>

definition parseEd25519AuthorizedKey :: "prov_lib \<Rightarrow> string \<Rightarrow> go_error + pub_key" where
  "parseEd25519AuthorizedKey L line =
     (if TrimSpace line = [] then Inl (errors_New ''required'')
      else case tl_parse L line of
        Inl e \<Rightarrow> Inl (wrapf ''not an OpenSSH public key: '' e [])
      | Inr (pub, rest) \<Rightarrow>
          if TrimSpace rest \<noteq> [] then Inl (errors_New ''must hold exactly one key'')
          else if key_type pub \<noteq> ''ssh-ed25519'' then Inl (errors_New (''key type '' @ key_type pub @ '' is not ssh-ed25519''))
          else Inr pub)"

text \<open>The loop over the hosts keeps the last match; the order of a Go map is not specified.\<close>

definition last_host :: "(Host \<Rightarrow> bool) \<Rightarrow> (string \<times> Host) list \<Rightarrow> Host option" where
  "last_host P hosts = fold (\<lambda>x found. if P (snd x) then Some (snd x) else found) hosts None"

text \<open>Which host an enrolment is for: a conflict, a known host, or none yet.\<close>

definition enrol_target :: "prov_lib \<Rightarrow> (string \<times> Host) list \<Rightarrow> pub_key \<Rightarrow> string \<Rightarrow> answer + Host option" where
  "enrol_target L hosts pub name =
     (let byKey = last_host (\<lambda>h. ho_Fingerprint h = tl_fingerprint L pub) hosts;
          byName = last_host (\<lambda>h. ho_Name h = name) hosts in
      case byKey of
        Some k \<Rightarrow>
          if map_option ho_ID byName \<noteq> Some (ho_ID k) then
            Inl (writeStatusError 409 ''conflict'' (''publicKey is already registered under name '' @ ho_Name k))
          else Inr (Some k)
      | None \<Rightarrow>
          if byName \<noteq> None then Inl (writeStatusError 409 ''conflict'' ''name is taken by a host with a different key'')
          else Inr None)"

definition enrolled :: "enrollPayload \<Rightarrow> Host \<Rightarrow> Host" where
  "enrolled req h = h\<lparr>ho_Hostname := ep_Hostname req, ho_Groups := the (ep_Groups req), ho_Accounts := the (ep_Accounts req),
     ho_AgentVersion := ep_AgentVersion req\<rparr>"

definition enroll_answer :: "int \<Rightarrow> Host \<Rightarrow> answer" where
  "enroll_answer status h = Answer status (Json [(''hostId'', JString (ho_ID h)), (''name'', JString (ho_Name h)),
     (''groups'', JArray (map JString (ho_Groups h))), (''accounts'', JArray (map JString (ho_Accounts h)))])"

definition enroll_payload_error :: "enrollPayload \<Rightarrow> answer option" where
  "enroll_payload_error req =
     (if ep_Name req = [] then Some (writeStatusError 400 ''invalid_request'' ''name is required'')
      else if ep_Groups req = None then Some (writeStatusError 400 ''invalid_request'' ''groups is required (may be empty)'')
      else if ep_Accounts req = None \<or> ep_Accounts req = Some [] then
        Some (writeStatusError 400 ''invalid_request'' ''accounts is required and must not be empty'')
      else None)"

text \<open>The critical section: \<open>raw\<close> are the random bytes of a new host id.\<close>

definition enroll_section :: "prov_lib \<Rightarrow> time \<Rightarrow> nat list \<Rightarrow> string \<Rightarrow> enrollPayload \<Rightarrow> sshState \<Rightarrow> answer \<times> sshState" where
  "enroll_section L now raw tok req s =
     (let invalid = writeStatusError 401 ''invalid_token'' ''unknown or expired access token'' in
      case map_of (ss_accessTokens s) tok of
        None \<Rightarrow> (invalid, s)
      | Some issued \<Rightarrow>
          if ia_exp issued < now then (invalid, s)
          else if ia_intent issued \<noteq> ''enroll'' then
            (writeStatusError 403 ''insufficient_scope'' ''access token was not issued with intent=enroll'', s)
          else case parseEd25519AuthorizedKey L (ep_PublicKey req) of
            Inl e \<Rightarrow> (writeStatusError 400 ''invalid_request'' (''publicKey: '' @ err_msg e), s)
          | Inr pub \<Rightarrow> (case enroll_payload_error req of Some a \<Rightarrow> (a, s)
            | None \<Rightarrow> (case enrol_target L (ss_hosts s) pub (ep_Name req) of
                Inl a \<Rightarrow> (a, s)
              | Inr (Some k) \<Rightarrow> (enroll_answer 200 (enrolled req k), store_host (enrolled req k) s)
              | Inr None \<Rightarrow> (let (h, s1) = addHostLocked L raw (ep_Name req) pub s
                  in (enroll_answer 201 (enrolled req h), store_host (enrolled req h) s1)))))"

definition handleEnroll :: "prov_lib \<Rightarrow> time \<Rightarrow> nat list \<Rightarrow> web_request \<Rightarrow> provider \<Rightarrow> answer \<times> provider" where
  "handleEnroll L now raw r p =
     (if bearerToken r = [] then (writeStatusError 401 ''invalid_token'' ''missing bearer token'', p)
      else case wq_body r of
        Inl e \<Rightarrow> (writeStatusError 400 ''invalid_request'' ''cannot read body'', p)
      | Inr body \<Rightarrow>
          if maxEnrollBody < length body then (writeStatusError 400 ''invalid_request'' ''cannot read body'', p)
          else case tl_enroll L body of
            None \<Rightarrow> (writeStatusError 400 ''invalid_request'' ''body is not valid JSON'', p)
          | Some req \<Rightarrow> (case enroll_section L now raw (bearerToken r) req (tp_ssh p) of (a, s) \<Rightarrow> (a, p\<lparr>tp_ssh := s\<rparr>)))"

section \<open>Authorized keys\<close>

definition filterByFingerprint :: "prov_lib \<Rightarrow> string list \<Rightarrow> string \<Rightarrow> string list" where
  "filterByFingerprint L ls fp =
     filter (\<lambda>l. case tl_parse L l of Inl e \<Rightarrow> False | Inr (pub, rest) \<Rightarrow> tl_fingerprint L pub = fp) ls"

text \<open>The regular expression \<^verbatim>\<open>^[A-Za-z_][A-Za-z0-9_]*$\<close>.\<close>

definition word_char :: "char \<Rightarrow> bool" where
  "word_char c = ((65 \<le> byte c \<and> byte c \<le> 90) \<or> (97 \<le> byte c \<and> byte c \<le> 122) \<or> c = CHR ''_'')"

definition envNameRe :: "string \<Rightarrow> bool" where
  "envNameRe s = (case s of [] \<Rightarrow> False | c # cs \<Rightarrow> word_char c \<and> list_all (\<lambda>d. word_char d \<or> is_digit d) cs)"

definition keys_count :: "web_request \<Rightarrow> provider \<Rightarrow> KeysOutcome \<times> provider" where
  "keys_count r p =
     (ss_keysOutcome (tp_ssh p),
      on_ssh (\<lambda>s. s\<lparr>ss_keysRequests := Suc (ss_keysRequests s), ss_keysAccount := get (wq_query r) ''account'',
        ss_keysFingerprint := get (wq_query r) ''fingerprint'', ss_keysEnv := get (wq_query r) ''env''\<rparr>) p)"

text \<open>The second critical section and what follows; \<open>now\<close> was read before the first one.\<close>

definition keys_section :: "prov_lib \<Rightarrow> time \<Rightarrow> web_request \<Rightarrow> provider \<Rightarrow> answer \<times> provider" where
  "keys_section L now r p =
     (let account = get (wq_query r) ''account''; fp = get (wq_query r) ''fingerprint''; env = get (wq_query r) ''env'' in
      case verifyHostAssertionLocked L (bearerToken r) now p of
        (Inl e, p1) \<Rightarrow> (writeText (ae_status e) (ae_reason e @ [NL]), p1)
      | (Inr host, p1) \<Rightarrow>
          if account = [] then (writeText 400 (''account is required'' @ [NL]), p1)
          else if env \<noteq> [] \<and> \<not> envNameRe env then (writeText 400 (''env is not a valid variable name'' @ [NL]), p1)
          else if account \<notin> set (ho_Accounts host) then (writeText 403 (''account not declared at enrolment'' @ [NL]), p1)
          else (let lines = (if ss_policyDeny (tp_ssh p1) then []
                    else case map_of (ss_keys (tp_ssh p1)) account of None \<Rightarrow> [] | Some ls \<Rightarrow> ls)
            in (writeText 200 (unlines (if fp \<noteq> [] then filterByFingerprint L lines fp else lines)), p1)))"

definition handleAuthorizedKeys :: "prov_lib \<Rightarrow> time \<Rightarrow> web_request \<Rightarrow> provider \<Rightarrow> answer \<times> provider" where
  "handleAuthorizedKeys L now r p =
     (case keys_count r p of
        (KeysServerError, p1) \<Rightarrow> (writeText 500 (''internal server error'' @ [NL]), p1)
      | (KeysTimeout, p1) \<Rightarrow> (writeText 504 (''timed out'' @ [NL]), p1)
      | (KeysOK, p1) \<Rightarrow> keys_section L now r p1)"

section \<open>Documents\<close>

definition handleDiscovery :: "provider \<Rightarrow> answer" where
  "handleDiscovery p = Answer 200 (Json
     [(''issuer'', JString (tp_url p)), (''authorization_endpoint'', JString (tp_url p @ ''/authorize'')),
      (''token_endpoint'', JString (tp_url p @ ''/token'')), (''jwks_uri'', JString (tp_url p @ ''/jwks'')),
      (''device_authorization_endpoint'', JString (tp_url p @ ''/device_authorization'')),
      (''grant_types_supported'', JArray [JString ''authorization_code'', JString DeviceGrantType]),
      (''id_token_signing_alg_values_supported'', JArray [JString ''RS256'']),
      (''response_types_supported'', JArray [JString ''code'']), (''subject_types_supported'', JArray [JString ''public'']),
      (''ssh_access_endpoint'', JString (SSHBase p))])"

text \<open>\<open>n\<close> and \<open>e\<close> are the big-endian bytes of the public key.\<close>

definition handleJWKS :: "nat list \<Rightarrow> nat list \<Rightarrow> answer" where
  "handleJWKS n e = Answer 200 (Json [(''keys'', JArray [JObject
     [(''kty'', JString ''RSA''), (''use'', JString ''sig''), (''alg'', JString ''RS256''), (''kid'', JString KeyID),
      (''n'', JString (RawURLEncoding n)), (''e'', JString (RawURLEncoding e))]])])"

definition handleVerificationPage :: "golib \<Rightarrow> web_request \<Rightarrow> answer" where
  "handleVerificationPage G r =
     Answer 200 (PlainText (''test provider: user_code '' @ quoted G (get (wq_query r) ''user_code'') @ '' would be verified here'' @ [NL]))"

section \<open>Runs of the provider\<close>

text \<open>
  A run interleaves critical sections and calls of the exported methods, in any order. The ghost
  log has an entry for every accepted assertion: the host, the jti and the expiry. The ghost trace
  has an event for every verification, with the time it was given, and for every call of AddHost,
  which checks neither the name nor the key; the last event comes first. Nothing is required of the
  times: the code reads the clock before it takes the lock.
\<close>

type_synonym accepted = "string \<times> string \<times> int"

definition verify_log :: "prov_lib \<Rightarrow> string \<Rightarrow> time \<Rightarrow> provider \<Rightarrow> accepted list" where
  "verify_log L tok now p =
     (case (authentic L tok (ss_hosts (tp_ssh p)), fst (verifyHostAssertionLocked L tok now p)) of
        (Inr (h, c), Inr h') \<Rightarrow> [(ho_ID h, hc_ID c, hc_Expiry c)] | _ \<Rightarrow> [])"

datatype prov_event = Verified time | HostAdded

fun readings :: "prov_event list \<Rightarrow> time list" where
  "readings [] = []"
| "readings (Verified t # evs) = t # readings evs"
| "readings (HostAdded # evs) = readings evs"

text \<open>What a test programs through the exported methods, AddHost apart.\<close>

inductive programs :: "prov_lib \<Rightarrow> provider \<Rightarrow> provider \<Rightarrow> bool" for L where
  outcome: "programs L p (SetOutcome x p)"
| claims: "programs L p (SetClaims c p)"
| pending: "programs L p (SetPendingPolls n p)"
| slow: "programs L p (SetSlowDownOnce p)"
| interval: "programs L p (SetInterval n p)"
| expires: "programs L p (SetExpiresIn n p)"
| keys: "programs L p (SetAuthorizedKeys account ls p)"
| keys_outcome: "programs L p (SetKeysOutcome k p)"
| require: "programs L p (SetRequireHost b p)"
| policy: "programs L p (SetPolicyDeny b p)"
| revoke: "programs L p (RevokeHost i p)"

inductive prov_run :: "prov_lib \<Rightarrow> provider \<Rightarrow> accepted list \<Rightarrow> prov_event list \<Rightarrow> bool" for L where
  start: "prov_run L (new_provider url) [] []"
| program: "prov_run L p acc evs \<Longrightarrow> programs L p p' \<Longrightarrow> prov_run L p' acc evs"
| add: "prov_run L p acc evs \<Longrightarrow> prov_run L (snd (AddHost L raw name pub accounts groups p)) acc (HostAdded # evs)"
| device: "prov_run L p acc evs \<Longrightarrow> device_section L now form intent dc uc p = (a, p') \<Longrightarrow> get form ''host_assertion'' = []
    \<Longrightarrow> prov_run L p' acc evs"
| host_device: "prov_run L p acc evs \<Longrightarrow> device_section L now form intent dc uc p = (a, p') \<Longrightarrow> get form ''host_assertion'' \<noteq> []
    \<Longrightarrow> prov_run L p' (verify_log L (get form ''host_assertion'') now p @ acc) (Verified now # evs)"
| poll: "prov_run L p acc evs \<Longrightarrow> prov_run L (snd (token_poll dc p)) acc evs"
| grant: "prov_run L p acc evs \<Longrightarrow> prov_run L (snd (token_grant L now draw g p)) acc evs"
| enroll: "prov_run L p acc evs \<Longrightarrow> prov_run L (snd (handleEnroll L now raw r p)) acc evs"
| count: "prov_run L p acc evs \<Longrightarrow> prov_run L (snd (keys_count r p)) acc evs"
| keys: "prov_run L p acc evs \<Longrightarrow> keys_section L now r p = (a, p')
    \<Longrightarrow> prov_run L p' (verify_log L (bearerToken r) now p @ acc) (Verified now # evs)"

text \<open>The handlers are such runs of their sections.\<close>

lemma handleDevice_sections:
  "\<exists>a form intent dc uc. snd (handleDeviceAuthorization L now draw draws r p) = p
    \<or> snd (handleDeviceAuthorization L now draw draws r p) = snd (device_section L now form intent dc uc p)"
  by (auto simp: handleDeviceAuthorization_def Let_def split: option.split sum.split prod.split) (metis snd_conv)+

lemma handleToken_sections:
  "snd (handleToken L now draw r p) = p \<or> (\<exists>dc. snd (handleToken L now draw r p) = snd (token_poll dc p))
    \<or> (\<exists>dc g. snd (handleToken L now draw r p) = snd (token_grant L now draw g (snd (token_poll dc p))))"
proof (cases "token_checks r")
  case (Inr dc)
  obtain x p1 where 1: "token_poll dc p = (x, p1)" by fastforce
  show ?thesis
  proof (cases x)
    case (Inl a)
    with Inr 1 have "snd (handleToken L now draw r p) = snd (token_poll dc p)" by (simp add: handleToken_def)
    then show ?thesis by blast
  next
    case (Inr g)
    with \<open>token_checks r = Inr dc\<close> 1
    have "snd (handleToken L now draw r p) = snd (token_grant L now draw g (snd (token_poll dc p)))" by (simp add: handleToken_def)
    then show ?thesis by blast
  qed
qed (simp add: handleToken_def)

section \<open>Replay protection\<close>

lemma put_simps [simp]: "map_of (put k v m) x = (if x = k then Some v else map_of m x)"
proof -
  have "map_of (filter (\<lambda>y. fst y \<noteq> k) m) x = (if x = k then None else map_of m x)" by (induction m) auto
  then show ?thesis by (simp add: put_def)
qed

lemma map_of_filter_value:
  "distinct (map fst m) \<Longrightarrow> map_of (filter (\<lambda>x. P (snd x)) m) k = (case map_of m k of None \<Rightarrow> None | Some v \<Rightarrow> if P v then Some v else None)"
proof (induction m)
  case (Cons x m)
  have "map_of m (fst x) = None" using Cons.prems by (simp add: map_of_eq_None_iff)
  with Cons show ?case by (auto split: option.split)
qed simp

lemma distinct_put: "distinct (map fst m) \<Longrightarrow> distinct (map fst (put k v m))"
  by (auto simp: put_def distinct_map_filter)

text \<open>Every accepted assertion is still remembered, or it has expired.\<close>

definition remembers :: "provider \<Rightarrow> accepted list \<Rightarrow> time \<Rightarrow> bool" where
  "remembers p acc t = (distinct acc \<and> distinct (map fst (ss_seenJTI (tp_ssh p)))
     \<and> (\<forall>(h, j, e) \<in> set acc. map_of (ss_seenJTI (tp_ssh p)) (h @ [CHR 0x00] @ j) = Some (e * Second + assertionSkew)
          \<or> e * Second + assertionSkew < t))"

lemma verify_cases:
  obtains (refused) e where "verifyHostAssertionLocked L tok now p = (Inl e, p)" "verify_log L tok now p = []"
  | (replay) e where "verifyHostAssertionLocked L tok now p =
        (Inl e, on_ssh (\<lambda>s. s\<lparr>ss_seenJTI := filter (\<lambda>x. \<not> snd x < now) (ss_seenJTI s)\<rparr>) p)" "verify_log L tok now p = []"
  | (accept) h c where "authentic L tok (ss_hosts (tp_ssh p)) = Inr (h, c)" "check_claims p c now = None" "ho_Active h"
      "map_of (filter (\<lambda>x. \<not> snd x < now) (ss_seenJTI (tp_ssh p))) (jti_key h c) = None"
      "verifyHostAssertionLocked L tok now p = (Inr h, on_ssh (\<lambda>s. s\<lparr>ss_seenJTI :=
         put (jti_key h c) (hc_Expiry c * Second + assertionSkew) (filter (\<lambda>x. \<not> snd x < now) (ss_seenJTI s))\<rparr>) p)"
      "verify_log L tok now p = [(ho_ID h, hc_ID c, hc_Expiry c)]"
proof (cases "authentic L tok (ss_hosts (tp_ssh p))")
  case (Inl e)
  then show ?thesis using refused by (simp add: verifyHostAssertionLocked_def verify_log_def)
next
  case (Inr hc)
  obtain h c where hc: "hc = (h, c)" by fastforce
  show ?thesis
  proof (cases "check_claims p c now = None \<and> ho_Active h")
    case False
    then obtain e where "verifyHostAssertionLocked L tok now p = (Inl e, p)"
      using Inr hc by (cases "check_claims p c now") (auto simp: verifyHostAssertionLocked_def)
    with refused Inr hc show ?thesis by (simp add: verify_log_def)
  next
    case True
    show ?thesis
    proof (cases "map_of (filter (\<lambda>x. \<not> snd x < now) (ss_seenJTI (tp_ssh p))) (jti_key h c)")
      case None
      with True Inr hc show ?thesis
        by (intro accept [of h c]) (auto simp: verifyHostAssertionLocked_def verify_log_def Let_def on_ssh_def)
    next
      case (Some t)
      with True Inr hc show ?thesis
        by (intro replay) (auto simp: verifyHostAssertionLocked_def verify_log_def Let_def on_ssh_def)
    qed
  qed
qed

lemma check_claims_None:
  "check_claims p c now = None \<longleftrightarrow> hc_Subject c = hc_Issuer c \<and> audienceMatches (hc_Audience c) (SSHBase p)
    \<and> hc_IssuedAt c \<noteq> 0 \<and> hc_Expiry c \<noteq> 0 \<and> hc_IssuedAt c < hc_Expiry c \<and> int64 (hc_Expiry c - hc_IssuedAt c) \<le> 60
    \<and> hc_IssuedAt c * Second \<le> now + assertionSkew \<and> now \<le> hc_Expiry c * Second + assertionSkew \<and> hc_ID c \<noteq> []"
  by (auto simp: check_claims_def assertionMaxLifetime_def)

lemma verify_remembers:
  assumes "remembers p acc t" "t \<le> now" "verifyHostAssertionLocked L tok now p = (r, p')"
  shows "remembers p' (verify_log L tok now p @ acc) now"
proof -
  have later: "remembers p acc now" using assms(1,2) by (fastforce simp: remembers_def)
  have pruned: "map_of (filter (\<lambda>x. \<not> snd x < now) (ss_seenJTI (tp_ssh p))) k = (case map_of (ss_seenJTI (tp_ssh p)) k of
      None \<Rightarrow> None | Some e \<Rightarrow> if e < now then None else Some e)" for k
    using assms(1) map_of_filter_value [of "ss_seenJTI (tp_ssh p)" "\<lambda>e. \<not> e < now" k] by (auto simp: remembers_def split: option.splits)
  have dist: "distinct (map fst (filter (\<lambda>x. \<not> snd x < now) (ss_seenJTI (tp_ssh p))))"
    using assms(1) by (simp add: remembers_def distinct_map_filter)
  show ?thesis
  proof (cases rule: verify_cases [of L tok now p])
    case refused
    with later assms(3) show ?thesis by simp
  next
    case replay
    with later assms(3) dist show ?thesis
      by (auto simp: remembers_def on_ssh_def pruned split: option.split)
  next
    case (accept h c)
    have new: "(ho_ID h, hc_ID c, hc_Expiry c) \<notin> set acc"
    proof
      assume "(ho_ID h, hc_ID c, hc_Expiry c) \<in> set acc"
      with assms(1,2) have "map_of (ss_seenJTI (tp_ssh p)) (jti_key h c) = Some (hc_Expiry c * Second + assertionSkew)
          \<or> hc_Expiry c * Second + assertionSkew < now" by (fastforce simp: remembers_def jti_key_def)
      with accept(2,4) pruned [of "jti_key h c"] show False by (auto simp: check_claims_None)
    qed
    have kept: "map_of (put (jti_key h c) (hc_Expiry c * Second + assertionSkew) (filter (\<lambda>x. \<not> snd x < now) (ss_seenJTI (tp_ssh p))))
          (hh @ [CHR 0x00] @ j) = Some (e * Second + assertionSkew) \<or> e * Second + assertionSkew < now"
      if "(hh, j, e) \<in> set acc" for hh j e
    proof (cases "e * Second + assertionSkew < now")
      case False
      with that later have "map_of (ss_seenJTI (tp_ssh p)) (hh @ [CHR 0x00] @ j) = Some (e * Second + assertionSkew)"
        by (fastforce simp: remembers_def)
      with False have "map_of (filter (\<lambda>x. \<not> snd x < now) (ss_seenJTI (tp_ssh p))) (hh @ [CHR 0x00] @ j)
          = Some (e * Second + assertionSkew)" by (simp only: pruned) simp
      with accept(4) show ?thesis by auto
    qed simp
    have p': "p' = on_ssh (\<lambda>s. s\<lparr>ss_seenJTI := put (jti_key h c) (hc_Expiry c * Second + assertionSkew)
        (filter (\<lambda>x. \<not> snd x < now) (ss_seenJTI s))\<rparr>) p" using accept(5) assms(3) by simp
    have "distinct acc" using assms(1) by (simp add: remembers_def)
    with new kept dist show ?thesis
      unfolding accept(6) p' remembers_def on_ssh_def
      by (auto simp: distinct_put jti_key_def simp del: put_simps) (simp add: put_def)
  qed
qed
section \<open>What a step keeps\<close>

lemma verify_frame:
  "verifyHostAssertionLocked L tok now p = (r, p') \<Longrightarrow> \<exists>x. p' = on_ssh (\<lambda>s. s\<lparr>ss_seenJTI := x\<rparr>) p"
proof -
  assume run: "verifyHostAssertionLocked L tok now p = (r, p')"
  have "\<exists>x. p = on_ssh (\<lambda>s. s\<lparr>ss_seenJTI := x\<rparr>) p"
    by (rule exI [of _ "ss_seenJTI (tp_ssh p)"]) (simp add: on_ssh_def)
  moreover have seen: "\<exists>x. q = on_ssh (\<lambda>s. s\<lparr>ss_seenJTI := x\<rparr>) p" if "q = on_ssh (\<lambda>s. s\<lparr>ss_seenJTI := f (ss_seenJTI s)\<rparr>) p" for f q
    unfolding that by (rule exI [of _ "f (ss_seenJTI (tp_ssh p))"]) (simp add: on_ssh_def)
  ultimately show ?thesis
  proof (cases rule: verify_cases [of L tok now p])
    case (replay e)
    then have "p' = on_ssh (\<lambda>s. s\<lparr>ss_seenJTI := filter (\<lambda>x. \<not> snd x < now) (ss_seenJTI s)\<rparr>) p" using run by simp
    then show ?thesis by (rule seen)
  next
    case (accept h c)
    then have "p' = on_ssh (\<lambda>s. s\<lparr>ss_seenJTI := put (jti_key h c) (hc_Expiry c * Second + assertionSkew)
        (filter (\<lambda>x. \<not> snd x < now) (ss_seenJTI s))\<rparr>) p" using run by simp
    then show ?thesis by (rule seen)
  qed (use run in simp)
qed

lemma verify_log_cong:
  assumes "ss_hosts (tp_ssh p) = ss_hosts (tp_ssh q)" "ss_seenJTI (tp_ssh p) = ss_seenJTI (tp_ssh q)" "tp_url p = tp_url q"
  shows "verify_log L tok now p = verify_log L tok now q"
proof -
  have "check_claims p c now = check_claims q c now" for c using assms(3) by (simp add: check_claims_def SSHBase_def)
  then have "fst (verifyHostAssertionLocked L tok now p) = fst (verifyHostAssertionLocked L tok now q)"
    by (simp add: verifyHostAssertionLocked_def assms Let_def split: sum.split option.split)
  then show ?thesis by (simp add: verify_log_def assms(1))
qed

lemma remembers_cong: "ss_seenJTI (tp_ssh p) = ss_seenJTI (tp_ssh q) \<Longrightarrow> remembers p acc t = remembers q acc t"
  by (simp add: remembers_def)

lemma remembers_later: "remembers p acc t \<Longrightarrow> t \<le> t' \<Longrightarrow> remembers p acc t'"
  by (fastforce simp: remembers_def)

lemma device_section_spec:
  assumes "device_section L now form intent dc uc p = (a, p')"
  shows "ss_hosts (tp_ssh p') = ss_hosts (tp_ssh p)"
    and "get form ''host_assertion'' = [] \<Longrightarrow> ss_seenJTI (tp_ssh p') = ss_seenJTI (tp_ssh p)"
    and "get form ''host_assertion'' \<noteq> [] \<Longrightarrow> \<exists>p1 r p2. ss_hosts (tp_ssh p1) = ss_hosts (tp_ssh p)
      \<and> ss_seenJTI (tp_ssh p1) = ss_seenJTI (tp_ssh p) \<and> tp_url p1 = tp_url p
      \<and> verifyHostAssertionLocked L (get form ''host_assertion'') now p1 = (r, p2) \<and> ss_seenJTI (tp_ssh p') = ss_seenJTI (tp_ssh p2)"
    and "tp_url p' = tp_url p"
proof -
  define p1 where "p1 = on_ssh (\<lambda>s. s\<lparr>ss_hostAssertion := get form ''host_assertion'', ss_account := get form ''account'',
    ss_intent := intent, ss_flowHost := None\<rparr>) p"
  obtain r p2 where v: "verifyHostAssertionLocked L (get form ''host_assertion'') now p1 = (r, p2)" by fastforce
  obtain x where p2: "p2 = on_ssh (\<lambda>s. s\<lparr>ss_seenJTI := x\<rparr>) p1" using verify_frame [OF v] by blast
  have s1: "ss_hosts (tp_ssh p1) = ss_hosts (tp_ssh p)" "ss_seenJTI (tp_ssh p1) = ss_seenJTI (tp_ssh p)" "tp_url p1 = tp_url p"
    by (simp_all add: p1_def on_ssh_def)
  note run = assms [unfolded device_section_def Let_def, folded p1_def, unfolded v prod.case]
  have "ss_hosts (tp_ssh p') = ss_hosts (tp_ssh p) \<and> tp_url p' = tp_url p
    \<and> ss_seenJTI (tp_ssh p') = (if get form ''host_assertion'' = [] then ss_seenJTI (tp_ssh p) else ss_seenJTI (tp_ssh p2))"
    using run s1 p2 by (auto simp: on_ssh_def split: if_splits sum.splits)
  then show "ss_hosts (tp_ssh p') = ss_hosts (tp_ssh p)" "tp_url p' = tp_url p"
    "get form ''host_assertion'' = [] \<Longrightarrow> ss_seenJTI (tp_ssh p') = ss_seenJTI (tp_ssh p)"
    "get form ''host_assertion'' \<noteq> [] \<Longrightarrow> \<exists>p1 r p2. ss_hosts (tp_ssh p1) = ss_hosts (tp_ssh p)
      \<and> ss_seenJTI (tp_ssh p1) = ss_seenJTI (tp_ssh p) \<and> tp_url p1 = tp_url p
      \<and> verifyHostAssertionLocked L (get form ''host_assertion'') now p1 = (r, p2) \<and> ss_seenJTI (tp_ssh p') = ss_seenJTI (tp_ssh p2)"
    using s1 v by auto
qed

lemma keys_section_state: "snd (keys_section L now r p) = snd (verifyHostAssertionLocked L (bearerToken r) now p)"
  by (simp add: keys_section_def Let_def split: prod.split sum.split)

text \<open>Every host is stored under its id, with the fingerprint of its key.\<close>

definition keyed_hosts :: "prov_lib \<Rightarrow> (string \<times> Host) list \<Rightarrow> bool" where
  "keyed_hosts L hosts = (distinct (map fst hosts)
     \<and> list_all (\<lambda>x. ho_ID (snd x) = fst x \<and> ho_Fingerprint (snd x) = tl_fingerprint L (ho_PublicKey (snd x))) hosts)"

lemma keyed_put:
  "keyed_hosts L hosts \<Longrightarrow> ho_ID h = k \<Longrightarrow> ho_Fingerprint h = tl_fingerprint L (ho_PublicKey h) \<Longrightarrow> keyed_hosts L (put k h hosts)"
  using distinct_put [of hosts k h] by (auto simp: keyed_hosts_def put_def list_all_iff)

lemma keyed_map_of: "keyed_hosts L hosts \<Longrightarrow> (k, h) \<in> set hosts \<Longrightarrow> k = ho_ID h \<and> map_of hosts (ho_ID h) = Some h"
  by (force simp: keyed_hosts_def list_all_iff)

lemma keyed_fingerprint: "keyed_hosts L hosts \<Longrightarrow> (k, h) \<in> set hosts \<Longrightarrow> ho_Fingerprint h = tl_fingerprint L (ho_PublicKey h)"
  by (force simp: keyed_hosts_def list_all_iff)

text \<open>Their ids, names and keys are different.\<close>

definition unique_hosts :: "prov_lib \<Rightarrow> (string \<times> Host) list \<Rightarrow> bool" where
  "unique_hosts L hosts = (keyed_hosts L hosts
     \<and> inj_on (\<lambda>x. ho_Name (snd x)) (set hosts) \<and> inj_on (\<lambda>x. ho_Fingerprint (snd x)) (set hosts))"

lemma unique_put_new:
  assumes "unique_hosts L hosts" "ho_ID h = k" "ho_Fingerprint h = tl_fingerprint L (ho_PublicKey h)"
    "\<And>x. x \<in> set hosts \<Longrightarrow> fst x \<noteq> k \<Longrightarrow> ho_Name (snd x) \<noteq> ho_Name h \<and> ho_Fingerprint (snd x) \<noteq> ho_Fingerprint h"
  shows "unique_hosts L (put k h hosts)"
proof -
  have ins: "set (put k h hosts) = insert (k, h) {x \<in> set hosts. fst x \<noteq> k}" by (simp add: put_def)
  have inj: "inj_on f (set (put k h hosts))"
    if "inj_on f (set hosts)" "\<And>x. x \<in> set hosts \<Longrightarrow> fst x \<noteq> k \<Longrightarrow> f x \<noteq> f (k, h)" for f :: "string \<times> Host \<Rightarrow> string"
    unfolding ins inj_on_insert
  proof
    show "inj_on f {x \<in> set hosts. fst x \<noteq> k}" using that(1) by (rule inj_on_subset) auto
    show "f (k, h) \<notin> f ` ({x \<in> set hosts. fst x \<noteq> k} - {(k, h)})" using that(2) by fastforce
  qed
  have "inj_on (\<lambda>x. ho_Name (snd x)) (set (put k h hosts))" "inj_on (\<lambda>x. ho_Fingerprint (snd x)) (set (put k h hosts))"
    using assms(1,4) by (intro inj; simp add: unique_hosts_def)+
  moreover have "keyed_hosts L (put k h hosts)" using keyed_put assms(1-3) by (simp add: unique_hosts_def)
  ultimately show ?thesis by (simp add: unique_hosts_def)
qed

lemma unique_put_same:
  assumes "unique_hosts L hosts" "map_of hosts (ho_ID k) = Some k" "ho_ID h = ho_ID k" "ho_Name h = ho_Name k"
    "ho_PublicKey h = ho_PublicKey k" "ho_Fingerprint h = ho_Fingerprint k"
  shows "unique_hosts L (put (ho_ID h) h hosts)"
proof (rule unique_put_new [OF assms(1) refl])
  have k: "(ho_ID k, k) \<in> set hosts" using assms(2) by (rule map_of_SomeD)
  then show "ho_Fingerprint h = tl_fingerprint L (ho_PublicKey h)"
    using assms keyed_fingerprint [OF _ k] by (simp add: unique_hosts_def)
  fix x assume x: "x \<in> set hosts" "fst x \<noteq> ho_ID h"
  then have "x \<noteq> (ho_ID k, k)" using assms(3) by auto
  with x(1) k assms(1) have "ho_Name (snd x) \<noteq> ho_Name k" "ho_Fingerprint (snd x) \<noteq> ho_Fingerprint k"
    unfolding unique_hosts_def by (metis (no_types, lifting) inj_onD snd_conv)+
  with assms(4,6) show "ho_Name (snd x) \<noteq> ho_Name h \<and> ho_Fingerprint (snd x) \<noteq> ho_Fingerprint h" by simp
qed

lemma last_host_snoc [simp]:
  "last_host P [] = None" "last_host P (hosts @ [x]) = (if P (snd x) then Some (snd x) else last_host P hosts)"
  by (simp_all add: last_host_def)

lemma last_host_None: "last_host P hosts = None \<longleftrightarrow> (\<forall>x \<in> set hosts. \<not> P (snd x))"
  by (induction hosts rule: rev_induct) auto

lemma last_host_Some: "last_host P hosts = Some h \<Longrightarrow> \<exists>k. (k, h) \<in> set hosts \<and> P h"
  by (induction hosts rule: rev_induct) (auto split: if_splits)

lemma last_host_unique:
  assumes "inj_on f (set hosts)" "\<And>x. P (snd x) = (f x = v)" "(k, h) \<in> set hosts" "P h"
  shows "last_host P hosts = Some h"
proof (cases "last_host P hosts")
  case None
  with assms(3,4) show ?thesis by (auto simp: last_host_None)
next
  case (Some h')
  then obtain k' where "(k', h') \<in> set hosts" "P h'" using last_host_Some by blast
  with assms have "(k', h') = (k, h)" by (metis inj_onD snd_conv)
  with Some show ?thesis by simp
qed
lemma put_put [simp]: "put k h (put k h' m) = put k h m"
  by (simp add: put_def)

lemma enrol_target_known:
  assumes "enrol_target L hosts pub name = Inr (Some k)"
  shows "\<exists>i. (i, k) \<in> set hosts" "ho_Fingerprint k = tl_fingerprint L pub"
proof -
  from assms have "last_host (\<lambda>h. ho_Fingerprint h = tl_fingerprint L pub) hosts = Some k"
    by (auto simp: enrol_target_def Let_def split: option.splits if_splits)
  from last_host_Some [OF this] show "\<exists>i. (i, k) \<in> set hosts" "ho_Fingerprint k = tl_fingerprint L pub" by blast+
qed

lemma enrol_target_new:
  "enrol_target L hosts pub name = Inr None \<Longrightarrow> x \<in> set hosts \<Longrightarrow> ho_Name (snd x) \<noteq> name \<and> ho_Fingerprint (snd x) \<noteq> tl_fingerprint L pub"
  by (auto simp: enrol_target_def Let_def last_host_None split: option.splits if_splits)

lemma enrolled_simps [simp]:
  "ho_ID (enrolled req h) = ho_ID h" "ho_Name (enrolled req h) = ho_Name h" "ho_PublicKey (enrolled req h) = ho_PublicKey h"
  "ho_Fingerprint (enrolled req h) = ho_Fingerprint h"
  by (simp_all add: enrolled_def)

lemma enroll_section_cases:
  "snd (enroll_section L now raw tok req s) = s
   \<or> (\<exists>pub k. enrol_target L (ss_hosts s) pub (ep_Name req) = Inr (Some k)
        \<and> snd (enroll_section L now raw tok req s) = store_host (enrolled req k) s)
   \<or> (\<exists>pub h. enrol_target L (ss_hosts s) pub (ep_Name req) = Inr None \<and> ho_ID h = hex raw \<and> ho_Name h = ep_Name req
        \<and> ho_PublicKey h = pub \<and> ho_Fingerprint h = tl_fingerprint L pub
        \<and> snd (enroll_section L now raw tok req s) = store_host (enrolled req h) (store_host h s))"
proof (cases "parseEd25519AuthorizedKey L (ep_PublicKey req)")
  case (Inl e)
  then have "snd (enroll_section L now raw tok req s) = s" by (simp add: enroll_section_def Let_def split: option.split)
  then show ?thesis ..
next
  case (Inr pub)
  have add: "addHostLocked L raw (ep_Name req) pub s = (h, store_host h s)" if "h = fst (addHostLocked L raw (ep_Name req) pub s)" for h
    using that by (simp add: addHostLocked_def store_host_def Let_def)
  define h where "h = fst (addHostLocked L raw (ep_Name req) pub s)"
  have h: "ho_ID h = hex raw" "ho_Name h = ep_Name req" "ho_PublicKey h = pub" "ho_Fingerprint h = tl_fingerprint L pub"
    by (simp_all add: h_def addHostLocked_def Let_def)
  show ?thesis
  proof (cases "enrol_target L (ss_hosts s) pub (ep_Name req)")
    case (Inl a)
    then have "snd (enroll_section L now raw tok req s) = s"
      by (simp add: enroll_section_def Let_def Inr split: option.split)
    then show ?thesis ..
  next
    case t: (Inr k)
    have "snd (enroll_section L now raw tok req s) \<in> {s, (case k of Some x \<Rightarrow> store_host (enrolled req x) s
        | None \<Rightarrow> store_host (enrolled req h) (store_host h s))}"
      by (simp add: enroll_section_def Let_def Inr t add [OF h_def] split: option.split)
    with t h show ?thesis by (cases k) fastforce+
  qed
qed

text \<open>What an enrolment keeps: always the keyed hosts, and different names and keys.\<close>

lemma enroll_hosts:
  assumes "keyed_hosts L (ss_hosts s)"
  shows "keyed_hosts L (ss_hosts (snd (enroll_section L now raw tok req s)))"
    "unique_hosts L (ss_hosts s) \<Longrightarrow> unique_hosts L (ss_hosts (snd (enroll_section L now raw tok req s)))"
    "ss_seenJTI (snd (enroll_section L now raw tok req s)) = ss_seenJTI s"
proof -
  let ?s = "snd (enroll_section L now raw tok req s)"
  consider (same) "?s = s"
    | (known) pub k where "enrol_target L (ss_hosts s) pub (ep_Name req) = Inr (Some k)" "?s = store_host (enrolled req k) s"
    | (new) pub h where "enrol_target L (ss_hosts s) pub (ep_Name req) = Inr None" "ho_ID h = hex raw" "ho_Name h = ep_Name req"
        "ho_PublicKey h = pub" "ho_Fingerprint h = tl_fingerprint L pub" "?s = store_host (enrolled req h) (store_host h s)"
    using enroll_section_cases by blast
  then have "keyed_hosts L (ss_hosts ?s) \<and> (unique_hosts L (ss_hosts s) \<longrightarrow> unique_hosts L (ss_hosts ?s)) \<and> ss_seenJTI ?s = ss_seenJTI s"
  proof cases
    case known
    obtain i where i: "(i, k) \<in> set (ss_hosts s)" using enrol_target_known(1) [OF known(1)] by blast
    have "map_of (ss_hosts s) (ho_ID k) = Some k" using keyed_map_of [OF assms i] by blast
    with unique_put_same [of L "ss_hosts s" k "enrolled req k"] keyed_put [OF assms, of "enrolled req k"] keyed_fingerprint [OF assms i]
    show ?thesis by (simp add: known(2) store_host_def)
  next
    case new
    have other: "ho_Name (snd x) \<noteq> ho_Name (enrolled req h) \<and> ho_Fingerprint (snd x) \<noteq> ho_Fingerprint (enrolled req h)"
      if "x \<in> set (ss_hosts s)" for x
      using enrol_target_new [OF new(1) that] new(3,5) by simp
    show ?thesis
      using unique_put_new [of L "ss_hosts s" "enrolled req h" "hex raw", OF _ _ _ other] keyed_put [OF assms, of "enrolled req h"] new
      by (simp add: store_host_def)
  qed (use assms in simp)
  then show "keyed_hosts L (ss_hosts ?s)" "unique_hosts L (ss_hosts s) \<Longrightarrow> unique_hosts L (ss_hosts ?s)"
    "ss_seenJTI ?s = ss_seenJTI s" by blast+
qed

lemma programs_inv:
  assumes "programs L p p'" "keyed_hosts L (ss_hosts (tp_ssh p))"
  shows "keyed_hosts L (ss_hosts (tp_ssh p')) \<and> (unique_hosts L (ss_hosts (tp_ssh p)) \<longrightarrow> unique_hosts L (ss_hosts (tp_ssh p')))
    \<and> ss_seenJTI (tp_ssh p') = ss_seenJTI (tp_ssh p)"
  using assms
proof cases
  case (revoke i)
  show ?thesis
  proof (cases "map_of (ss_hosts (tp_ssh p)) i")
    case None
    with revoke assms(2) show ?thesis by (simp add: RevokeHost_def on_ssh_def)
  next
    case (Some h)
    note h = map_of_SomeD [OF Some]
    have "ho_ID h = i" using keyed_map_of [OF assms(2) h] by simp
    with Some unique_put_same [of L "ss_hosts (tp_ssh p)" h "h\<lparr>ho_Active := False\<rparr>"]
      keyed_put [OF assms(2), of "h\<lparr>ho_Active := False\<rparr>"] keyed_fingerprint [OF assms(2) h] revoke show ?thesis
      by (simp add: RevokeHost_def on_ssh_def)
  qed
qed (auto simp: SetOutcome_def SetClaims_def SetPendingPolls_def SetSlowDownOnce_def SetInterval_def SetExpiresIn_def
    SetAuthorizedKeys_def SetKeysOutcome_def SetRequireHost_def SetPolicyDeny_def on_ssh_def)

lemma AddHost_keyed:
  assumes "keyed_hosts L (ss_hosts (tp_ssh p))"
  shows "keyed_hosts L (ss_hosts (tp_ssh (snd (AddHost L raw name pub accounts groups p))))"
    "ss_seenJTI (tp_ssh (snd (AddHost L raw name pub accounts groups p))) = ss_seenJTI (tp_ssh p)"
  by (auto simp: AddHost_def addHostLocked_def store_host_def Let_def intro!: keyed_put [OF assms])

lemma token_frame:
  "ss_hosts (tp_ssh (snd (token_poll dc p))) = ss_hosts (tp_ssh p)" "ss_seenJTI (tp_ssh (snd (token_poll dc p))) = ss_seenJTI (tp_ssh p)"
  "ss_hosts (tp_ssh (snd (token_grant L now draw g p))) = ss_hosts (tp_ssh p)"
  "ss_seenJTI (tp_ssh (snd (token_grant L now draw g p))) = ss_seenJTI (tp_ssh p)"
  by (simp_all add: token_poll_def Let_def token_grant_def on_ssh_def split: Outcome.split sum.split)

lemma handleEnroll_section:
  "snd (handleEnroll L now raw r p) = p \<or> (\<exists>req. snd (handleEnroll L now raw r p)
     = p\<lparr>tp_ssh := snd (enroll_section L now raw (bearerToken r) req (tp_ssh p))\<rparr>)"
proof (cases "wq_body r")
  case (Inr body)
  show ?thesis
  proof (cases "tl_enroll L body")
    case (Some req)
    then have "snd (handleEnroll L now raw r p) \<in> {p, p\<lparr>tp_ssh := snd (enroll_section L now raw (bearerToken r) req (tp_ssh p))\<rparr>}"
      using Inr by (simp add: handleEnroll_def split: prod.split)
    then show ?thesis by blast
  qed (simp add: handleEnroll_def Inr)
qed (simp add: handleEnroll_def)

text \<open>The hosts of a run are keyed; without AddHost they are different.\<close>

lemma prov_run_hosts:
  "prov_run L p acc evs \<Longrightarrow> keyed_hosts L (ss_hosts (tp_ssh p)) \<and> (HostAdded \<notin> set evs \<longrightarrow> unique_hosts L (ss_hosts (tp_ssh p)))"
proof (induction rule: prov_run.induct)
  case (start url)
  show ?case by (simp add: keyed_hosts_def unique_hosts_def new_provider_def newSSHState_def)
next
  case (program p acc evs p')
  then show ?case using programs_inv [of L p p'] by blast
next
  case (add p acc evs raw name pub accounts groups)
  then show ?case using AddHost_keyed(1) by simp
next
  case (device p acc evs now form intent dc uc a p')
  with device_section_spec(1) [OF device.hyps(2)] show ?case by simp
next
  case (host_device p acc evs now form intent dc uc a p')
  with device_section_spec(1) [OF host_device.hyps(2)] show ?case by simp
next
  case (enroll p acc evs now raw r)
  from handleEnroll_section consider "snd (handleEnroll L now raw r p) = p"
    | req where "snd (handleEnroll L now raw r p) = p\<lparr>tp_ssh := snd (enroll_section L now raw (bearerToken r) req (tp_ssh p))\<rparr>" by blast
  then show ?case
    using enroll.IH enroll_hosts(1,2) [of L "tp_ssh p"] by cases simp_all
next
  case (keys p acc evs now r a p')
  then have "p' = snd (verifyHostAssertionLocked L (bearerToken r) now p)" using keys_section_state by (metis snd_conv)
  then obtain v where "verifyHostAssertionLocked L (bearerToken r) now p = (v, p')" by (metis prod.collapse)
  from verify_frame [OF this] keys.IH show ?case by (auto simp: on_ssh_def)
qed (simp_all add: token_frame keys_count_def on_ssh_def)

text \<open>As long as the times do not go back, what was accepted is remembered until it expires.\<close>

lemma prov_run_remembers:
  "prov_run L p acc evs \<Longrightarrow> sorted_wrt (\<ge>) (readings evs) \<Longrightarrow> (\<And>x. x \<in> set (readings evs) \<Longrightarrow> x \<le> t) \<Longrightarrow> remembers p acc t"
proof (induction arbitrary: t rule: prov_run.induct)
  case (start url)
  show ?case by (simp add: remembers_def new_provider_def newSSHState_def)
next
  case (program p acc evs p')
  have "ss_seenJTI (tp_ssh p') = ss_seenJTI (tp_ssh p)"
    using programs_inv [OF program.hyps(2)] prov_run_hosts [OF program.hyps(1)] by blast
  with program.IH program.prems show ?case using remembers_cong [of p' p] by simp
next
  case (add p acc evs raw name pub accounts groups)
  have "ss_seenJTI (tp_ssh (snd (AddHost L raw name pub accounts groups p))) = ss_seenJTI (tp_ssh p)"
    using AddHost_keyed(2) prov_run_hosts [OF add.hyps(1)] by blast
  with add.IH add.prems show ?case using remembers_cong [of "snd (AddHost L raw name pub accounts groups p)" p] by simp
next
  case (device p acc evs now form intent dc uc a p')
  with device_section_spec(2) [OF device.hyps(2,3)] show ?case using remembers_cong [of p' p] by simp
next
  case (host_device p acc evs now form intent dc uc a p')
  from device_section_spec(3) [OF host_device.hyps(2,3)] obtain p1 r p2 where 1: "ss_hosts (tp_ssh p1) = ss_hosts (tp_ssh p)"
    "ss_seenJTI (tp_ssh p1) = ss_seenJTI (tp_ssh p)" "tp_url p1 = tp_url p"
    "verifyHostAssertionLocked L (get form ''host_assertion'') now p1 = (r, p2)" "ss_seenJTI (tp_ssh p') = ss_seenJTI (tp_ssh p2)" by blast
  have "remembers p acc now" using host_device.prems(1) by (intro host_device.IH) simp_all
  then have "remembers p1 acc now" using remembers_cong [OF 1(2)] by simp
  from verify_remembers [OF this order_refl 1(4)] have "remembers p' (verify_log L (get form ''host_assertion'') now p @ acc) now"
    unfolding remembers_cong [OF 1(5)] verify_log_cong [OF 1(1-3)] .
  from remembers_later [OF this, of t] host_device.prems(2) show ?case by simp
next
  case (poll p acc evs dc)
  then show ?case using remembers_cong [of "snd (token_poll dc p)" p] by (simp add: token_frame)
next
  case (grant p acc evs now draw g)
  then show ?case using remembers_cong [of "snd (token_grant L now draw g p)" p] by (simp add: token_frame)
next
  case (enroll p acc evs now raw r)
  note same = enroll_hosts(3) [OF conjunct1 [OF prov_run_hosts [OF enroll.hyps(1)]]]
  from handleEnroll_section consider "snd (handleEnroll L now raw r p) = p"
    | req where "snd (handleEnroll L now raw r p) = p\<lparr>tp_ssh := snd (enroll_section L now raw (bearerToken r) req (tp_ssh p))\<rparr>" by blast
  then have "ss_seenJTI (tp_ssh (snd (handleEnroll L now raw r p))) = ss_seenJTI (tp_ssh p)"
    by cases (simp_all add: same)
  with enroll.IH enroll.prems show ?case using remembers_cong [of "snd (handleEnroll L now raw r p)" p] by simp
next
  case (count p acc evs r)
  then show ?case using remembers_cong [of "snd (keys_count r p)" p] by (simp add: keys_count_def on_ssh_def)
next
  case (keys p acc evs now r a p')
  then have "p' = snd (verifyHostAssertionLocked L (bearerToken r) now p)" using keys_section_state by (metis snd_conv)
  then obtain v where v: "verifyHostAssertionLocked L (bearerToken r) now p = (v, p')" by (metis prod.collapse)
  have "remembers p acc now" using keys.prems(1) by (intro keys.IH) simp_all
  from remembers_later [OF verify_remembers [OF this order_refl v], of t] keys.prems(2) show ?case by simp
qed

section \<open>Replay\<close>

lemma authentic_Inr:
  assumes "authentic L tok hosts = Inr (h, c)"
  obtains jws k payload unv where "tl_signed L tok = Inr jws" "tl_claims L (tl_payload L jws) = Some unv"
    "map_of hosts (hc_Issuer unv) = Some h" "ho_PublicKey h = EdPub k" "tl_verify L jws k = Inr payload" "tl_claims L payload = Some c"
  using assms by (auto simp: authentic_def split: if_splits sum.splits option.splits pub_key.splits)

lemma accepted_inv:
  assumes "verifyHostAssertionLocked L tok now p = (Inr h, p')"
  obtains c where "authentic L tok (ss_hosts (tp_ssh p)) = Inr (h, c)" "check_claims p c now = None" "ho_Active h"
    "verify_log L tok now p = [(ho_ID h, hc_ID c, hc_Expiry c)]"
    "map_of (filter (\<lambda>x. \<not> snd x < now) (ss_seenJTI (tp_ssh p))) (jti_key h c) = None"
  by (cases rule: verify_cases [of L tok now p]) (use assms that in auto)

lemma refused_again:
  assumes "remembers p' ((ho_ID h, hc_ID c, hc_Expiry c) # acc) t" "t \<le> now"
    "authentic L tok (ss_hosts (tp_ssh p')) = Inr (h, c)"
  shows "\<exists>e. fst (verifyHostAssertionLocked L tok now p') = Inl e"
proof (cases "fst (verifyHostAssertionLocked L tok now p')")
  case (Inr h')
  then obtain q where v: "verifyHostAssertionLocked L tok now p' = (Inr h', q)" by (metis prod.collapse)
  from accepted_inv [OF v] assms(3) have log: "verify_log L tok now p' = [(ho_ID h, hc_ID c, hc_Expiry c)]" by (metis Inr_inject prod.inject)
  from verify_remembers [OF assms(1,2) v] log show ?thesis by (simp add: remembers_def)
qed simp

text \<open>C33: no host assertion is accepted twice, and an accepted one is genuine. Take any run of the
  provider, however its critical sections interleave and whatever a test programs, in which the
  times given to the verifications do not decrease (a condition, and not a consequence: the code
  reads the clock before it takes the lock). Then the accepted assertions are pairwise different,
  and what is accepted next verified under the Ed25519 key of an enrolled and active host it names,
  has the SSH endpoint as audience and a subject equal to its issuer, expires after it was issued
  and, when it was not issued before 1970, at most sixty seconds later, is neither from the future
  nor expired by more than the skew, was not accepted before, and is refused from then on.\<close>

theorem assertion_accepted_once:
  assumes "prov_run L p acc evs" "sorted_wrt (\<ge>) (now # readings evs)" "verifyHostAssertionLocked L tok now p = (Inr h, p')"
  shows "distinct acc \<and> ho_Active h \<and> (\<exists>jws unv k payload c.
      tl_signed L tok = Inr jws \<and> tl_claims L (tl_payload L jws) = Some unv
    \<and> map_of (ss_hosts (tp_ssh p)) (hc_Issuer unv) = Some h \<and> ho_ID h = hc_Issuer unv \<and> ho_PublicKey h = EdPub k
    \<and> tl_verify L jws k = Inr payload \<and> tl_claims L payload = Some c
    \<and> hc_Subject c = hc_Issuer c \<and> audienceMatches (hc_Audience c) (SSHBase p)
    \<and> hc_IssuedAt c < hc_Expiry c \<and> (0 \<le> hc_IssuedAt c \<and> hc_Expiry c < 2 ^ 63 \<longrightarrow> hc_Expiry c \<le> hc_IssuedAt c + 60)
    \<and> hc_IssuedAt c * Second \<le> now + assertionSkew \<and> now \<le> hc_Expiry c * Second + assertionSkew
    \<and> (ho_ID h, hc_ID c, hc_Expiry c) \<notin> set acc)
    \<and> (\<forall>later \<ge> now. \<exists>e. fst (verifyHostAssertionLocked L tok later p') = Inl e)"
proof -
  have rem0: "remembers p acc now" using assms(2) by (intro prov_run_remembers [OF assms(1)]) simp_all
  note keyed = conjunct1 [OF prov_run_hosts [OF assms(1)]]
  obtain c where c: "authentic L tok (ss_hosts (tp_ssh p)) = Inr (h, c)" "check_claims p c now = None" "ho_Active h"
    "verify_log L tok now p = [(ho_ID h, hc_ID c, hc_Expiry c)]"
    using accepted_inv [OF assms(3)] by metis
  note rem = verify_remembers [OF rem0 order_refl assms(3), unfolded c(4) append_Cons append_Nil]
  then have new: "distinct acc" "(ho_ID h, hc_ID c, hc_Expiry c) \<notin> set acc" by (simp_all add: remembers_def)
  obtain x where "p' = on_ssh (\<lambda>s. s\<lparr>ss_seenJTI := x\<rparr>) p" using verify_frame [OF assms(3)] by blast
  with c(1) have "authentic L tok (ss_hosts (tp_ssh p')) = Inr (h, c)" by (simp add: on_ssh_def)
  with rem have again: "\<forall>later \<ge> now. \<exists>e. fst (verifyHostAssertionLocked L tok later p') = Inl e" using refused_again by blast
  obtain jws k payload unv where a: "tl_signed L tok = Inr jws" "tl_claims L (tl_payload L jws) = Some unv"
    "map_of (ss_hosts (tp_ssh p)) (hc_Issuer unv) = Some h" "ho_PublicKey h = EdPub k" "tl_verify L jws k = Inr payload"
    "tl_claims L payload = Some c" using authentic_Inr [OF c(1)] .
  have "ho_ID h = hc_Issuer unv" using keyed_map_of [OF keyed map_of_SomeD [OF a(3)]] by simp
  moreover have "hc_Expiry c \<le> hc_IssuedAt c + 60" if "0 \<le> hc_IssuedAt c" "hc_Expiry c < 2 ^ 63"
  proof -
    have "int64 (hc_Expiry c - hc_IssuedAt c) \<le> 60" "hc_IssuedAt c < hc_Expiry c" using c(2) by (simp_all add: check_claims_None)
    moreover from this that have "int64 (hc_Expiry c - hc_IssuedAt c) = hc_Expiry c - hc_IssuedAt c" by (simp add: int64_def)
    ultimately show ?thesis by simp
  qed
  ultimately show ?thesis using a new again c(2,3) by (auto simp: check_claims_None)
qed
text \<open>Witnesses: a key is its own fingerprint and the token \<open>''t''\<close> is the assertion of host \<open>00\<close>, made in second 1.\<close>

definition sample_claims :: hostClaims where
  "sample_claims = \<lparr>hc_Issuer = ''00'', hc_Subject = ''00'', hc_Audience = JString ''https://i/api/ssh'', hc_IssuedAt = 1, hc_Expiry = 61, hc_ID = ''_w''\<rparr>"

definition sample_prov_lib :: prov_lib where
  "sample_prov_lib = \<lparr>tl_parse = (\<lambda>s. Inr (EdPub s, [])), tl_fingerprint = (\<lambda>p. case p of EdPub k \<Rightarrow> k | _ \<Rightarrow> []), tl_signed = Inr,
     tl_payload = (\<lambda>s. s), tl_verify = (\<lambda>s k. Inr s), tl_claims = (\<lambda>s. if s = ''t'' then Some sample_claims else None),
     tl_enroll = (\<lambda>s. None), tl_json = (\<lambda>c. Inr []), tl_rs256 = (\<lambda>s. Inr []), tl_hs256 = (\<lambda>k s. []), tl_b64 = (\<lambda>s. Inr [])\<rparr>"

definition sample_host_provider :: provider where
  "sample_host_provider = snd (AddHost sample_prov_lib [0] ''h1'' (EdPub ''k'') [''root''] [] (new_provider ''https://i''))"

definition sample_host :: Host where
  "sample_host = \<lparr>ho_ID = ''00'', ho_Name = ''h1'', ho_Hostname = [], ho_PublicKey = EdPub ''k'', ho_Fingerprint = ''k'',
     ho_Groups = [], ho_Accounts = [''root''], ho_AgentVersion = [], ho_Active = True\<rparr>"

lemma sample_prov_run: "prov_run sample_prov_lib sample_host_provider [] [HostAdded]"
  unfolding sample_host_provider_def by (rule prov_run.add [OF prov_run.start])

lemma sample_provider_simps:
  "ss_hosts (tp_ssh sample_host_provider) = [(''00'', sample_host)]" "ss_seenJTI (tp_ssh sample_host_provider) = []"
  "SSHBase sample_host_provider = ''https://i/api/ssh''"
  by code_simp+

lemma sample_verify:
  "verifyHostAssertionLocked sample_prov_lib ''t'' Second sample_host_provider
    = (Inr sample_host, on_ssh (\<lambda>s. s\<lparr>ss_seenJTI := [(jti_key sample_host sample_claims, 121 * Second)]\<rparr>) sample_host_provider)"
proof -
  have "authentic sample_prov_lib ''t'' [(''00'', sample_host)] = Inr (sample_host, sample_claims)" by code_simp
  moreover have "check_claims sample_host_provider sample_claims Second = None" by code_simp
  moreover have "ho_Active sample_host" by code_simp
  ultimately show ?thesis
    by (simp add: verifyHostAssertionLocked_def sample_provider_simps on_ssh_def put_def sample_claims_def assertionSkew_def
        algebra_simps)
qed

theorem assertion_accepted_once_witness:
  "fst (verifyHostAssertionLocked sample_prov_lib ''t'' Second sample_host_provider) = Inr sample_host
    \<and> (\<exists>e. fst (verifyHostAssertionLocked sample_prov_lib ''t'' (50 * Second)
        (snd (verifyHostAssertionLocked sample_prov_lib ''t'' Second sample_host_provider))) = Inl e)"
proof -
  have t: "sorted_wrt (\<ge>) (Second # readings [HostAdded])" by simp
  have "Second \<le> 50 * Second" by simp
  with assertion_accepted_once [OF sample_prov_run t sample_verify] show ?thesis by (simp add: sample_verify)
qed

section \<open>An assertion made by a host\<close>

text \<open>What the provider decodes from the claims of \<^verbatim>\<open>hostid\<close>, and the JOSE library reading what it wrote
  (documented behaviour: a compact EdDSA signature verifies under the public key and carries the
  payload; JSON strings and integers survive encoding).\<close>

definition as_received :: "assertionClaims \<Rightarrow> hostClaims" where
  "as_received c = \<lparr>hc_Issuer = ac_Issuer c, hc_Subject = ac_Subject c, hc_Audience = JString (ac_Audience c),
     hc_IssuedAt = ac_IssuedAt c, hc_Expiry = ac_Expiry c, hc_ID = ac_ID c\<rparr>"

definition reads_signatures :: "prov_lib \<Rightarrow> key_lib \<Rightarrow> bool" where
  "reads_signatures L K = (\<forall>priv claims payload jws token. kl_json K claims = Inr payload \<longrightarrow> kl_sign K priv payload = Inr jws
     \<longrightarrow> kl_serialize K jws = Inr token \<longrightarrow> token \<noteq> [] \<and> (\<exists>o'. tl_signed L token = Inr o' \<and> tl_payload L o' = payload
       \<and> tl_verify L o' (kl_public K priv) = Inr payload \<and> tl_claims L payload = Some (as_received claims)))"

lemma made_is_authentic:
  assumes "reads_signatures L K" "Assertion K i hostID audience issued (Inr nonce) = Inr token"
    "map_of hosts hostID = Some h" "ho_PublicKey h = EdPub (kl_public K (hi_Private i))"
  shows "authentic L token hosts = Inr (h, as_received (assertion_claims hostID audience issued nonce))"
proof -
  let ?c = "assertion_claims hostID audience issued nonce"
  obtain payload jws where "kl_json K ?c = Inr payload" "kl_sign K (hi_Private i) payload = Inr jws" "kl_serialize K jws = Inr token"
    using assms(2) by (auto simp: Assertion_def split: if_splits sum.splits option.splits)
  with assms(1) obtain o' where "token \<noteq> []" "tl_signed L token = Inr o'" "tl_payload L o' = payload"
    "tl_verify L o' (kl_public K (hi_Private i)) = Inr payload" "tl_claims L payload = Some (as_received ?c)"
    unfolding reads_signatures_def by blast
  moreover have "hc_Issuer (as_received ?c) = hostID" by (simp add: as_received_def assertion_claims_def Let_def)
  ultimately show ?thesis using assms(3,4) by (simp add: authentic_def)
qed

lemma RawURLEncoding_Nil [simp]: "RawURLEncoding bs = [] \<longleftrightarrow> bs = []"
  by (cases bs rule: RawURLEncoding.cases) simp_all

text \<open>C34: the provider accepts what \<^verbatim>\<open>hostid.Assertion\<close> makes. An assertion made for the provider's SSH
  endpoint by a host whose key is enrolled is accepted exactly from sixty seconds before the
  second it was issued in until two minutes after it, both included, when the host is active and
  its identifier is not remembered; otherwise the reason says which of these failed, and only
  revocation answers 403.\<close>

theorem made_assertion_verified:
  assumes "reads_signatures L K" "Assertion K i hostID (SSHBase p) issued (Inr nonce) = Inr token" "nonce \<noteq> []" "Second \<le> issued"
    "map_of (ss_hosts (tp_ssh p)) hostID = Some h" "ho_PublicKey h = EdPub (kl_public K (hi_Private i))" "ho_ID h = hostID"
    "distinct (map fst (ss_seenJTI (tp_ssh p)))"
  shows "fst (verifyHostAssertionLocked L token now p) =
    (if now + 60 * Second < issued div Second * Second then Inl (AssertionError 401 ''issued in the future'')
     else if issued div Second * Second + 120 * Second < now then Inl (AssertionError 401 ''expired'')
     else if \<not> ho_Active h then Inl (AssertionError 403 ''host revoked'')
     else case map_of (ss_seenJTI (tp_ssh p)) (hostID @ [CHR 0x00] @ RawURLEncoding nonce) of
       Some exp \<Rightarrow> if exp < now then Inr h else Inl (AssertionError 401 ''replayed jti'')
     | None \<Rightarrow> Inr h)"
proof -
  let ?c = "as_received (assertion_claims hostID (SSHBase p) issued nonce)"
  have c: "hc_Issuer ?c = hostID" "hc_Subject ?c = hostID" "hc_Audience ?c = JString (SSHBase p)" "hc_IssuedAt ?c = issued div Second"
    "hc_Expiry ?c = issued div Second + 60" "hc_ID ?c = RawURLEncoding nonce"
    by (simp_all add: as_received_def assertion_claims_def Let_def Unix_def AssertionLifetime_def)
  have "0 < issued div Second" using assms(4) by simp
  moreover have "int64 60 = 60" by (simp add: int64_def)
  ultimately have checks: "check_claims p ?c now = (if now + 60 * Second < issued div Second * Second then Some ''issued in the future''
      else if issued div Second * Second + 120 * Second < now then Some ''expired'' else None)"
    using assms(3) by (simp add: check_claims_def c audienceMatches_def assertionMaxLifetime_def assertionSkew_def algebra_simps)
  have "map_of (filter (\<lambda>x. \<not> snd x < now) (ss_seenJTI (tp_ssh p))) (jti_key h ?c)
    = (case map_of (ss_seenJTI (tp_ssh p)) (hostID @ [CHR 0x00] @ RawURLEncoding nonce) of None \<Rightarrow> None
        | Some e \<Rightarrow> if \<not> e < now then Some e else None)"
    unfolding jti_key_def c assms(7) by (rule map_of_filter_value [OF assms(8)])
  then show ?thesis
    by (simp add: verifyHostAssertionLocked_def made_is_authentic [OF assms(1,2,5,6)] checks unverifiable_def split: option.split)
qed

definition sample_keys :: key_lib where
  "sample_keys = plain_keys\<lparr>kl_public := (\<lambda>k. k), kl_serialize := Inr,
     kl_json := (\<lambda>c. if as_received c = sample_claims then Inr ''t'' else Inl (errors_New ''json''))\<rparr>"

lemma sample_reads: "reads_signatures sample_prov_lib sample_keys"
  by (simp add: reads_signatures_def sample_keys_def plain_keys_def sample_prov_lib_def)

theorem made_assertion_verified_witness:
  "Assertion sample_keys \<lparr>hi_Private = ''k'', hi_Public = [], hi_PublicKeyLine = [], hi_Fingerprint = []\<rparr> ''00''
      (SSHBase sample_host_provider) Second (Inr [255]) = Inr ''t''
   \<and> fst (verifyHostAssertionLocked sample_prov_lib ''t'' (121 * Second) sample_host_provider) = Inr sample_host
   \<and> fst (verifyHostAssertionLocked sample_prov_lib ''t'' (122 * Second) sample_host_provider) = Inl (AssertionError 401 ''expired'')"
proof -
  let ?i = "\<lparr>hi_Private = ''k'', hi_Public = [], hi_PublicKeyLine = [], hi_Fingerprint = []\<rparr>"
  have "as_received (assertion_claims ''00'' ''https://i/api/ssh'' Second [255]) = sample_claims" by code_simp
  then have a: "Assertion sample_keys ?i ''00'' (SSHBase sample_host_provider) Second (Inr [255]) = Inr ''t''"
    by (simp add: Assertion_def sample_provider_simps sample_keys_def plain_keys_simps plain_keys_def)
  have h: "map_of (ss_hosts (tp_ssh sample_host_provider)) ''00'' = Some sample_host"
    "ho_PublicKey sample_host = EdPub (kl_public sample_keys (hi_Private ?i))" "ho_ID sample_host = ''00''" "ho_Active sample_host"
    "distinct (map fst (ss_seenJTI (tp_ssh sample_host_provider)))" "[255::nat] \<noteq> []" "Second \<le> Second"
    by (simp_all add: sample_provider_simps sample_host_def sample_keys_def)
  from made_assertion_verified [OF sample_reads a h(6,7,1,2,3,5)] a h(4) show ?thesis by (simp add: sample_provider_simps)
qed

section \<open>Enrolment\<close>

text \<open>C36: which host an enrolment is for is well defined, as long as hosts come from enrolments and
  not from AddHost, which checks neither name nor key. In every such run the enrolled hosts have
  different ids, names and keys; so the decision does not depend on the order in which Go visits
  the map, and it is: the one host with this key and this name, a new host when no host has this
  key or this name, and a conflict otherwise.\<close>

theorem enrolment_well_defined:
  assumes "prov_run L p acc evs" "HostAdded \<notin> set evs"
  shows "distinct (map fst (ss_hosts (tp_ssh p))) \<and> inj_on (\<lambda>x. ho_Name (snd x)) (set (ss_hosts (tp_ssh p)))
    \<and> inj_on (\<lambda>x. tl_fingerprint L (ho_PublicKey (snd x))) (set (ss_hosts (tp_ssh p)))
    \<and> (set hosts = set (ss_hosts (tp_ssh p)) \<longrightarrow>
        enrol_target L hosts pub name = (case filter (\<lambda>x. ho_Fingerprint (snd x) = tl_fingerprint L pub) (ss_hosts (tp_ssh p)) of
            x # xs \<Rightarrow> if ho_Name (snd x) = name then Inr (Some (snd x))
              else Inl (writeStatusError 409 ''conflict'' (''publicKey is already registered under name '' @ ho_Name (snd x)))
          | [] \<Rightarrow> if \<exists>x \<in> set (ss_hosts (tp_ssh p)). ho_Name (snd x) = name
              then Inl (writeStatusError 409 ''conflict'' ''name is taken by a host with a different key'') else Inr None))"
proof -
  let ?H = "ss_hosts (tp_ssh p)" and ?fp = "\<lambda>x :: string \<times> Host. ho_Fingerprint (snd x)" and ?nm = "\<lambda>x :: string \<times> Host. ho_Name (snd x)"
  have k: "keyed_hosts L ?H" and u: "unique_hosts L ?H" using prov_run_hosts [OF assms(1)] assms(2) by simp_all
  then have inj: "inj_on ?nm (set ?H)" "inj_on ?fp (set ?H)" "distinct (map fst ?H)" by (simp_all add: unique_hosts_def keyed_hosts_def)
  have "\<forall>x \<in> set ?H. tl_fingerprint L (ho_PublicKey (snd x)) = ?fp x" using k by (auto simp: keyed_hosts_def list_all_iff)
  with inj(2) have keys: "inj_on (\<lambda>x. tl_fingerprint L (ho_PublicKey (snd x))) (set ?H)" by (simp cong: inj_on_cong)
  have "enrol_target L hosts pub name = (case filter (\<lambda>x. ?fp x = tl_fingerprint L pub) ?H of
            x # xs \<Rightarrow> if ?nm x = name then Inr (Some (snd x))
              else Inl (writeStatusError 409 ''conflict'' (''publicKey is already registered under name '' @ ?nm x))
          | [] \<Rightarrow> if \<exists>x \<in> set ?H. ?nm x = name
              then Inl (writeStatusError 409 ''conflict'' ''name is taken by a host with a different key'') else Inr None)"
    if same: "set hosts = set ?H"
  proof (cases "filter (\<lambda>x. ?fp x = tl_fingerprint L pub) ?H")
    case Nil
    then have "last_host (\<lambda>h. ho_Fingerprint h = tl_fingerprint L pub) hosts = None"
      by (simp add: last_host_None same filter_empty_conv)
    moreover have "(last_host (\<lambda>h. ho_Name h = name) hosts = None) = (\<not> (\<exists>x \<in> set ?H. ?nm x = name))"
      by (simp add: last_host_None same)
    ultimately show ?thesis using Nil by (auto simp: enrol_target_def Let_def)
  next
    case (Cons x xs)
    then have "x \<in> set (filter (\<lambda>x. ?fp x = tl_fingerprint L pub) ?H)" by simp
    then have x: "x \<in> set ?H" "?fp x = tl_fingerprint L pub" by simp_all
    have "last_host (\<lambda>h. ho_Fingerprint h = tl_fingerprint L pub) hosts = Some (snd x)"
      by (rule last_host_unique [of ?fp _ _ "tl_fingerprint L pub" "fst x"]) (use inj x same in auto)
    moreover have "(map_option ho_ID (last_host (\<lambda>h. ho_Name h = name) hosts) = Some (ho_ID (snd x))) = (?nm x = name)"
    proof
      assume "?nm x = name"
      then have "last_host (\<lambda>h. ho_Name h = name) hosts = Some (snd x)"
        by (intro last_host_unique [of ?nm _ _ name "fst x"]) (use inj x same in auto)
      then show "map_option ho_ID (last_host (\<lambda>h. ho_Name h = name) hosts) = Some (ho_ID (snd x))" by simp
    next
      assume "map_option ho_ID (last_host (\<lambda>h. ho_Name h = name) hosts) = Some (ho_ID (snd x))"
      then obtain h where h: "last_host (\<lambda>h. ho_Name h = name) hosts = Some h" "ho_ID h = ho_ID (snd x)" by auto
      with last_host_Some [OF h(1)] same obtain i where i: "(i, h) \<in> set ?H" "ho_Name h = name" by auto
      from keyed_map_of [OF k i(1)] have "map_of ?H (ho_ID h) = Some h" by blast
      moreover from x(1) have "(fst x, snd x) \<in> set ?H" by simp
      from keyed_map_of [OF k this] have "map_of ?H (ho_ID (snd x)) = Some (snd x)" by blast
      ultimately have "h = snd x" using h(2) by (metis option.inject)
      with i show "?nm x = name" by simp
    qed
    ultimately show ?thesis using Cons by (simp add: enrol_target_def Let_def)
  qed
  with inj keys show ?thesis by blast
qed

text \<open>A run that enrols a host: a device flow with the enrolment intent, its token, and the enrolment.\<close>

definition enrol_prov_lib :: prov_lib where
  "enrol_prov_lib = sample_prov_lib\<lparr>tl_enroll := (\<lambda>s. Some \<lparr>ep_PublicKey = ''k'', ep_Name = ''h1'', ep_Hostname = [],
     ep_Groups = Some [], ep_Accounts = Some [''root''], ep_AgentVersion = []\<rparr>)\<rparr>"

definition approved_provider :: provider where
  "approved_provider = (let p1 = snd (device_section enrol_prov_lib 0 [] ''enroll'' ''d'' ''u'' (new_provider ''https://i''));
     (r, p2) = token_poll ''d'' p1 in
     case r of Inl a \<Rightarrow> p2 | Inr g \<Rightarrow> snd (token_grant enrol_prov_lib 0 (Inr [0]) g p2))"

definition enrolled_provider :: provider where
  "enrolled_provider = snd (handleEnroll enrol_prov_lib 0 [0]
     \<lparr>wq_form = None, wq_query = [], wq_auth = ''Bearer at-AA'', wq_body = Inr ''b''\<rparr> approved_provider)"

lemma enrolled_run: "prov_run enrol_prov_lib enrolled_provider [] []"
proof -
  let ?p1 = "snd (device_section enrol_prov_lib 0 [] ''enroll'' ''d'' ''u'' (new_provider ''https://i''))"
  have 1: "prov_run enrol_prov_lib ?p1 [] []"
    by (rule prov_run.device [OF prov_run.start prod.collapse [symmetric]]) (simp add: get_def)
  obtain r p2 where 2: "token_poll ''d'' ?p1 = (r, p2)" by fastforce
  have "prov_run enrol_prov_lib p2 [] []" using prov_run.poll [OF 1, of "''d''"] by (simp add: 2)
  then have "prov_run enrol_prov_lib approved_provider [] []"
    using prov_run.grant by (cases r) (simp_all add: approved_provider_def Let_def 2)
  then show ?thesis unfolding enrolled_provider_def by (rule prov_run.enroll)
qed

lemma enrolled_host: "ss_hosts (tp_ssh enrolled_provider) = [(''00'', sample_host)]"
proof -
  have r: "b64_char 0 = CHR ''A''" by code_simp
  have 1: "ss_accessTokens (tp_ssh approved_provider) = [(''at-AA'', \<lparr>ia_intent = ''enroll'', ia_exp = accessTokenLifetime\<rparr>)]"
    "ss_hosts (tp_ssh approved_provider) = []"
    by (simp_all add: approved_provider_def device_section_def get_def new_provider_def newSSHState_def on_ssh_def token_poll_def
        token_grant_def randomToken_def r SignIDToken_def encodeJWT_def enrol_prov_lib_def sample_prov_lib_def put_def Let_def)
  let ?r = "\<lparr>wq_form = None, wq_query = [], wq_auth = ''Bearer at-AA'', wq_body = Inr ''b''\<rparr>"
  have "prefix_EqualFold ''Bearer '' ''Bearer ''" by (simp add: prefix_EqualFold_def)
  then have t: "bearerToken ?r = ''at-AA''" "TrimSpace ''k'' = ''k''" "TrimSpace [] = []"
    by (simp_all add: bearerToken_def TrimSpace_plain byte_def Let_def)
  have h: "hex [0] = ''00''" by code_simp
  show ?thesis
    by (simp add: enrolled_provider_def handleEnroll_def t h enroll_section_def 1 accessTokenLifetime_def parseEd25519AuthorizedKey_def
        enrol_prov_lib_def sample_prov_lib_def enroll_payload_error_def enrol_target_def addHostLocked_def store_host_def
        enrolled_def sample_host_def maxEnrollBody_def put_def Let_def)
qed

theorem enrolment_well_defined_witness:
  "enrol_target enrol_prov_lib [(''00'', sample_host)] (EdPub ''k'') ''h1'' = Inr (Some sample_host)"
proof -
  have "set [(''00'', sample_host)] = set (ss_hosts (tp_ssh enrolled_provider))" by (simp add: enrolled_host)
  with enrolment_well_defined [OF enrolled_run, of "[(''00'', sample_host)]" "EdPub ''k''" "''h1''"] show ?thesis
    by (simp add: enrolled_host) (simp add: sample_host_def enrol_prov_lib_def sample_prov_lib_def)
qed

section \<open>Polling\<close>

text \<open>The state after \<open>n\<close> requests of one client, the clock and the random draws of each given.\<close>

primrec polled :: "prov_lib \<Rightarrow> (nat \<Rightarrow> time) \<Rightarrow> (nat \<Rightarrow> go_error + nat list) \<Rightarrow> web_request \<Rightarrow> provider \<Rightarrow> nat \<Rightarrow> provider" where
  "polled L now draw r p 0 = p"
| "polled L now draw r p (Suc n) = snd (handleToken L (now n) (draw n) r (polled L now draw r p n))"

definition waits :: "provider \<Rightarrow> nat" where
  "waits p = (if tp_slowDown p then 1 else 0) + nat (tp_pending p)"

definition final_outcome :: "provider \<Rightarrow> Outcome" where
  "final_outcome p = (if ss_flowHost (tp_ssh p) \<noteq> None \<and> ss_policyDeny (tp_ssh p) \<and> tp_outcome p = Approved then Denied else tp_outcome p)"

definition after_polls :: "nat \<Rightarrow> provider \<Rightarrow> provider" where
  "after_polls n p = p\<lparr>tp_pollCount := tp_pollCount p + n, tp_slowDown := tp_slowDown p \<and> n = 0,
     tp_pending := (if n \<le> (if tp_slowDown p then 1 else 0) then tp_pending p
       else tp_pending p - int (n - (if tp_slowDown p then 1 else 0)))\<rparr>"

lemma waiting_poll:
  assumes "token_checks r = Inr (tp_deviceCode p)" "n < waits p"
  shows "handleToken L now draw r (after_polls n p)
    = (if n = 0 \<and> tp_slowDown p then writeError ''slow_down'' ''polling too fast; increase the interval''
       else writeError ''authorization_pending'' ''the user has not yet completed authorization'', after_polls (Suc n) p)"
  using assms by (auto simp: handleToken_def token_poll_def after_polls_def waits_def Let_def split: if_splits)

lemma polled_waiting:
  assumes "token_checks r = Inr (tp_deviceCode p)"
  shows "n \<le> waits p \<Longrightarrow> polled L now draw r p n = after_polls n p"
proof (induction n)
  case 0
  show ?case by (simp add: after_polls_def)
next
  case (Suc n)
  then show ?case by (simp add: waiting_poll [OF assms])
qed

lemma error_code_simps [simp]:
  "error_code (writeError c d) = Some c" "error_code (writeStatusError st c d) = Some c" "an_status (writeError c d) = 400"
  by (simp_all add: error_code_def writeError_def writeStatusError_def)

lemma final_poll:
  assumes "token_checks r = Inr (tp_deviceCode p)"
  shows "\<exists>claims. handleToken L now draw r (after_polls (waits p) p)
    = token_grant L now draw \<lparr>gt_outcome = final_outcome p, gt_scope = tp_scope p, gt_claims = claims, gt_intent = ss_intent (tp_ssh p)\<rparr>
        ((after_polls (waits p) p)\<lparr>tp_pollCount := Suc (tp_pollCount p + waits p)\<rparr>)"
proof -
  have "\<not> (tp_slowDown p \<and> waits p = 0)" "tp_pending (after_polls (waits p) p) \<le> 0" by (auto simp: waits_def after_polls_def)
  then show ?thesis using assms
    by (simp add: handleToken_def token_poll_def Let_def) (auto simp: after_polls_def final_outcome_def Let_def)
qed

text \<open>C35: a client that keeps polling learns the programmed outcome. With the device code of the flow,
  the requests before the last are answered with one slow_down when that was armed and then with
  authorization_pending, as many times as programmed; each is counted; and the next request gets
  the outcome: access_denied for a denied flow, which includes a host flow under a denying policy,
  expired_token for an expired one, and for an approved one, when the token can be drawn and
  signed, a token that is recorded with the intent of the flow for five minutes.\<close>

theorem polling_reaches_outcome:
  assumes "token_checks r = Inr (tp_deviceCode p)"
  shows "(\<forall>n < waits p. error_code (fst (handleToken L (now n) (draw n) r (polled L now draw r p n)))
        = Some (if n = 0 \<and> tp_slowDown p then ''slow_down'' else ''authorization_pending''))
    \<and> (\<forall>n \<le> waits p. tp_pollCount (polled L now draw r p n) = tp_pollCount p + n)
    \<and> (case handleToken L (now (waits p)) (draw (waits p)) r (polled L now draw r p (waits p)) of (a, p') \<Rightarrow>
        tp_pollCount p' = Suc (tp_pollCount p + waits p) \<and>
        (case final_outcome p of
          Denied \<Rightarrow> error_code a = Some ''access_denied''
        | Expired \<Rightarrow> error_code a = Some ''expired_token''
        | UnknownOutcome x \<Rightarrow> error_code a = Some ''server_error''
        | Approved \<Rightarrow> (\<forall>bs. draw (waits p) = Inr bs \<and> (\<forall>c. \<exists>x. tl_json L c = Inr x) \<and> (\<forall>s. \<exists>x. tl_rs256 L s = Inr x) \<longrightarrow>
            an_status a = 200 \<and> (\<exists>m. an_body a = Json m \<and> map_of m ''access_token'' = Some (JString (''at-'' @ RawURLEncoding bs)))
            \<and> map_of (ss_accessTokens (tp_ssh p')) (''at-'' @ RawURLEncoding bs)
              = Some \<lparr>ia_intent = ss_intent (tp_ssh p), ia_exp = now (waits p) + 300 * Second\<rparr>)))"
    (is "_ \<and> _ \<and> (case ?h of (a, p') \<Rightarrow> ?final a p')")
proof (intro conjI allI impI)
  fix n assume n: "n < waits p"
  show "error_code (fst (handleToken L (now n) (draw n) r (polled L now draw r p n)))
        = Some (if n = 0 \<and> tp_slowDown p then ''slow_down'' else ''authorization_pending'')"
    using polled_waiting [OF assms, of n] n by (simp add: waiting_poll [OF assms n])
next
  fix n assume "n \<le> waits p"
  then show "tp_pollCount (polled L now draw r p n) = tp_pollCount p + n"
    by (simp add: polled_waiting [OF assms]) (simp add: after_polls_def)
next
  obtain claims where g: "?h = token_grant L (now (waits p)) (draw (waits p))
      \<lparr>gt_outcome = final_outcome p, gt_scope = tp_scope p, gt_claims = claims, gt_intent = ss_intent (tp_ssh p)\<rparr>
      ((after_polls (waits p) p)\<lparr>tp_pollCount := Suc (tp_pollCount p + waits p)\<rparr>)"
    using final_poll [OF assms] polled_waiting [OF assms order.refl] by metis
  have signed: "\<exists>t. SignIDToken L n q c = Inr t" if json: "\<forall>c. \<exists>x. tl_json L c = Inr x" and rsa: "\<forall>s. \<exists>x. tl_rs256 L s = Inr x" for n q c
  proof -
    obtain h b where "tl_json L (jwt_header ''RS256'') = Inr h" "tl_json L (withDefaultClaims n q c) = Inr b" using json by meson
    then obtain i where "encodeJWT L (jwt_header ''RS256'') (withDefaultClaims n q c) = Inr i" by (simp add: encodeJWT_def)
    moreover obtain x where "tl_rs256 L i = Inr x" using rsa by meson
    ultimately show ?thesis by (simp add: SignIDToken_def)
  qed
  have count: "tp_pollCount (snd (token_grant L n d x q)) = tp_pollCount q" for n d x q
    by (simp add: token_grant_def on_ssh_def split: Outcome.split sum.split)
  show "case ?h of (a, p') \<Rightarrow> ?final a p'"
  proof (cases "final_outcome p")
    case Approved
    have "?final (fst ?h) (snd ?h)"
      unfolding g count Approved Outcome.case
    proof (intro conjI allI impI; (elim conjE)?)
      fix bs assume h: "draw (waits p) = Inr bs" "\<forall>c. \<exists>x. tl_json L c = Inr x" "\<forall>s. \<exists>x. tl_rs256 L s = Inr x"
      obtain t where t: "SignIDToken L (now (waits p)) ((after_polls (waits p) p)\<lparr>tp_pollCount := Suc (tp_pollCount p + waits p)\<rparr>) claims = Inr t"
        using signed [OF h(2,3)] by blast
      note run = token_grant_def randomToken_def h(1) t on_ssh_def accessTokenLifetime_def
      let ?g = "token_grant L (now (waits p)) (draw (waits p))
        \<lparr>gt_outcome = Approved, gt_scope = tp_scope p, gt_claims = claims, gt_intent = ss_intent (tp_ssh p)\<rparr>
        ((after_polls (waits p) p)\<lparr>tp_pollCount := Suc (tp_pollCount p + waits p)\<rparr>)"
      show "an_status (fst ?g) = 200" "\<exists>m. an_body (fst ?g) = Json m \<and> map_of m ''access_token'' = Some (JString (''at-'' @ RawURLEncoding bs))"
        "map_of (ss_accessTokens (tp_ssh (snd ?g))) (''at-'' @ RawURLEncoding bs)
              = Some \<lparr>ia_intent = ss_intent (tp_ssh p), ia_exp = now (waits p) + 300 * Second\<rparr>"
        by (simp_all add: run)
    qed simp
    then show ?thesis by (simp add: case_prod_beta)
  qed (simp_all add: g token_grant_def after_polls_def)
qed

theorem polling_reaches_outcome_witness:
  "\<exists>p :: provider. tp_pending p = 2 \<and> tp_slowDown p \<and> tp_outcome p = Denied \<and> (let r = \<lparr>wq_form = Some [(''grant_type'', DeviceGrantType),
      (''client_id'', ''c''), (''device_code'', ''d'')], wq_query = [], wq_auth = [], wq_body = Inr []\<rparr>;
      run = polled sample_prov_lib (\<lambda>n. 0) (\<lambda>n. Inr []) r p in
     map (\<lambda>n. error_code (fst (handleToken sample_prov_lib 0 (Inr []) r (run n)))) [0, 1, 2, 3]
       = [Some ''slow_down'', Some ''authorization_pending'', Some ''authorization_pending'', Some ''access_denied''])"
proof -
  let ?p = "(new_provider ''https://i'')\<lparr>tp_deviceCode := ''d'', tp_pending := 2, tp_slowDown := True, tp_outcome := Denied\<rparr>"
  let ?r = "\<lparr>wq_form = Some [(''grant_type'', DeviceGrantType), (''client_id'', ''c''), (''device_code'', ''d'')], wq_query = [],
    wq_auth = [], wq_body = Inr []\<rparr>"
  have c: "token_checks ?r = Inr (tp_deviceCode ?p)" by code_simp
  have w: "waits ?p = 3" "final_outcome ?p = Denied" by code_simp+
  note all = polling_reaches_outcome [OF c, of sample_prov_lib "\<lambda>n. 0" "\<lambda>n. Inr []", unfolded w]
  let ?e = "\<lambda>n. error_code (fst (handleToken sample_prov_lib 0 (Inr []) ?r (polled sample_prov_lib (\<lambda>n. 0) (\<lambda>n. Inr []) ?r ?p n)))"
  from all have "\<forall>n < 3. ?e n = Some (if n = 0 \<and> tp_slowDown ?p then ''slow_down'' else ''authorization_pending'')" by blast
  from this [THEN spec, of 0] this [THEN spec, of 1] this [THEN spec, of 2]
  have "?e 0 = Some ''slow_down''" "?e 1 = Some ''authorization_pending''" "?e 2 = Some ''authorization_pending''"
    by (simp_all only: simp_thms one_neq_zero zero_neq_numeral [symmetric] if_False) simp_all
  moreover from all have "?e 3 = Some ''access_denied''" by (simp add: case_prod_beta)
  ultimately have "map ?e [0, 1, 2, 3] = [Some ''slow_down'', Some ''authorization_pending'', Some ''authorization_pending'', Some ''access_denied'']"
    by simp
  then show ?thesis unfolding Let_def by (intro exI [of _ ?p]) simp
qed

end
