(* ===== verification/MockProvider.thy ===== *)
theory MockProvider
  imports TestProvider Fs
begin

text \<open>
  The standalone test provider (\<^verbatim>\<open>src/cmd/mock-provider/main.go\<close>): from the parsed flags to the
  provider it serves. Files are read on the disk of theory Fs; the address the server gets when it
  listens, or the error, is an argument. The lemmas show which provider the process serves, and
  that it is a state the runs of theory TestProvider start from.
\<close>

section \<open>Flags\<close>

definition parseOutcome :: "golib \<Rightarrow> string \<Rightarrow> go_error + Outcome" where
  "parseOutcome G s =
     (if s = ''approved'' then Inr Approved
      else if s = ''denied'' then Inr Denied
      else if s = ''expired'' then Inr Expired
      else Inl (errors_New (''unknown --outcome '' @ quoted G s @ '': want approved, denied or expired'')))"

definition parseKeysOutcome :: "golib \<Rightarrow> string \<Rightarrow> go_error + KeysOutcome" where
  "parseKeysOutcome G s =
     (if s = ''ok'' then Inr KeysOK
      else if s = ''500'' then Inr KeysServerError
      else if s = ''down'' then Inr KeysTimeout
      else Inl (errors_New (''unknown --keys-outcome '' @ quoted G s @ '': want ok, 500 or down'')))"

text \<open>The repeated flag: the accounts in the order given, and the file of each.\<close>

record sshKeysFlag =
  kf_accounts :: "string list"
  kf_files :: strmap

definition no_keys :: sshKeysFlag where
  "no_keys = \<lparr>kf_accounts = [], kf_files = []\<rparr>"

definition flag_String :: "sshKeysFlag \<Rightarrow> string" where
  "flag_String f = Join '','' (map (\<lambda>a. a @ ''='' @ (case map_of (kf_files f) a of None \<Rightarrow> [] | Some x \<Rightarrow> x)) (kf_accounts f))"

definition flag_Set :: "golib \<Rightarrow> string \<Rightarrow> sshKeysFlag \<Rightarrow> go_error + sshKeysFlag" where
  "flag_Set G v f =
     (let bad = Inl (errors_New (''want <account>=<file>, got '' @ quoted G v)) in
      case IndexByte v (CHR ''='') of
        None \<Rightarrow> bad
      | Some j \<Rightarrow> (let account = TrimSpace (take j v); fp = TrimSpace (drop (Suc j) v) in
          if account = [] \<or> fp = [] then bad
          else if map_of (kf_files f) account \<noteq> None then
            Inl (errors_New (''account '' @ quoted G account @ '' given twice''))
          else Inr \<lparr>kf_accounts = kf_accounts f @ [account], kf_files = (account, fp) # kf_files f\<rparr>))"

text \<open>The lines of a file that are served: blank ones and comments are dropped.\<close>

definition served_lines :: "string \<Rightarrow> string list" where
  "served_lines data =
     filter (\<lambda>l. TrimSpace l \<noteq> [] \<and> \<not> HasPrefix (TrimSpace l) ''#'') (map (\<lambda>l. TrimRightBytes l [CR]) (split_on NL data))"

fun read_loop :: "sshKeysFlag \<Rightarrow> string list \<Rightarrow> (string \<times> string list) list \<Rightarrow> os \<Rightarrow> (go_error + (string \<times> string list) list) \<times> os" where
  "read_loop f [] out w = (Inr out, w)"
| "read_loop f (account # rest) out w =
     (case os_ReadFile (case map_of (kf_files f) account of None \<Rightarrow> [] | Some x \<Rightarrow> x) w of
        (Inl e, w1) \<Rightarrow> (Inl (wrapf (''--ssh-keys '' @ account @ '': '') e []), w1)
      | (Inr data, w1) \<Rightarrow> read_loop f rest (put account (served_lines data) out) w1)"

definition flag_read :: "sshKeysFlag \<Rightarrow> os \<Rightarrow> (go_error + (string \<times> string list) list) \<times> os" where
  "flag_read f w = read_loop f (kf_accounts f) [] w"

definition splitGroups :: "string \<Rightarrow> string list" where
  "splitGroups s = filter (\<lambda>g. g \<noteq> []) (map TrimSpace (split_on (CHR '','') s))"

section \<open>The process\<close>

record mock_flags =
  mf_listen :: string
  mf_outcome :: string
  mf_pending :: int
  mf_interval :: int
  mf_username :: string
  mf_groups :: string
  mf_sub :: string
  mf_keysOutcome :: string
  mf_sshKeys :: sshKeysFlag

definition default_flags :: mock_flags where
  "default_flags = \<lparr>mf_listen = ''127.0.0.1:8089'', mf_outcome = ''approved'', mf_pending = 1, mf_interval = 1,
     mf_username = ''alice@example.com'', mf_groups = ''ssh:admin'', mf_sub = ''user-1'', mf_keysOutcome = ''ok'', mf_sshKeys = no_keys\<rparr>"

definition mock_claims :: "mock_flags \<Rightarrow> claims" where
  "mock_claims f = [(''email'', JString (mf_username f)), (''groups'', JArray (map JString (splitGroups (mf_groups f)))),
     (''sub'', JString (mf_sub f))]"

definition mock_options :: "mock_flags \<Rightarrow> Outcome \<Rightarrow> (provider \<Rightarrow> provider) list" where
  "mock_options f oc = [WithOutcome oc, WithPendingPolls (mf_pending f), WithInterval (mf_interval f), WithClaims (mock_claims f)]"

definition set_keys :: "(string \<times> string list) list \<Rightarrow> string list \<Rightarrow> provider \<Rightarrow> provider" where
  "set_keys lines accounts p =
     fold (\<lambda>a. SetAuthorizedKeys a (case map_of lines a of None \<Rightarrow> [] | Some ls \<Rightarrow> ls)) accounts p"

text \<open>\<open>listen\<close> is the base URL of the server at an address; the result is what the process prints
  when it serves and the provider it serves until it is stopped.\<close>

definition run :: "golib \<Rightarrow> (string \<Rightarrow> go_error + string) \<Rightarrow> mock_flags \<Rightarrow> os \<Rightarrow> (go_error + (string \<times> provider)) \<times> os" where
  "run G listen f w =
     (case parseOutcome G (mf_outcome f) of Inl e \<Rightarrow> (Inl e, w)
      | Inr oc \<Rightarrow>
          if mf_pending f < 0 then (Inl (errors_New (''--pending must not be negative, got '' @ deci (mf_pending f))), w)
          else if mf_interval f < 1 then (Inl (errors_New (''--interval must be at least 1, got '' @ deci (mf_interval f))), w)
          else (case parseKeysOutcome G (mf_keysOutcome f) of Inl e \<Rightarrow> (Inl e, w)
            | Inr ko \<Rightarrow> (case flag_read (mf_sshKeys f) w of
                (Inl e, w1) \<Rightarrow> (Inl e, w1)
              | (Inr lines, w1) \<Rightarrow> (case listen (mf_listen f) of
                  Inl e \<Rightarrow> (Inl (wrapf (''testprovider: listen on '' @ mf_listen f @ '': '') e []), w1)
                | Inr url \<Rightarrow>
                    (let p = SetKeysOutcome ko (set_keys lines (kf_accounts (mf_sshKeys f)) (TestProvider.New url (mock_options f oc)))
                     in (Inr (tp_url p @ [NL], p), w1))))))"

text \<open>The exit code and what is printed on the two streams.\<close>

definition main :: "golib \<Rightarrow> (string \<Rightarrow> go_error + string) \<Rightarrow> go_error + mock_flags \<Rightarrow> os \<Rightarrow> (nat \<times> string \<times> string) \<times> os" where
  "main G listen parsed w =
     (case (case parsed of Inl e \<Rightarrow> (Inl e, w) | Inr f \<Rightarrow> run G listen f w) of
        (Inl e, w1) \<Rightarrow> ((1, [], ''mock-provider: '' @ err_msg e @ [NL]), w1)
      | (Inr (out, p), w1) \<Rightarrow> ((0, out, []), w1))"

section \<open>What is served\<close>

lemma flag_Set_wf:
  assumes "flag_Set G v f = Inr f'" "distinct (kf_accounts f)" "set (kf_accounts f) = fst ` set (kf_files f)"
  shows "distinct (kf_accounts f') \<and> set (kf_accounts f') = fst ` set (kf_files f')"
proof -
  obtain a x where "map_of (kf_files f) a = None" "f' = \<lparr>kf_accounts = kf_accounts f @ [a], kf_files = (a, x) # kf_files f\<rparr>"
    using assms(1) by (auto simp: flag_Set_def Let_def split: option.splits if_splits)
  with assms(2,3) show ?thesis by (simp add: map_of_eq_None_iff)
qed

lemma set_keys_run: "prov_run L p acc evs \<Longrightarrow> prov_run L (set_keys lines accounts p) acc evs"
  unfolding set_keys_def
  by (induction accounts arbitrary: p) (auto intro: prov_run.program programs.keys)

lemma os_ReadFile_Inr: "os_ReadFile q w = (Inr data, w') \<Longrightarrow> read_file (dsk w) q = Some data \<and> dsk w' = dsk w"
  by (auto simp: os_ReadFile_def observe_def read_file_def split: option.splits if_splits)

lemma read_loop_spec:
  assumes "read_loop f accounts out w = (Inr lines, w')"
  shows "map_of lines a = (if a \<in> set accounts
    then map_option served_lines (read_file (dsk w) (case map_of (kf_files f) a of None \<Rightarrow> [] | Some x \<Rightarrow> x)) else map_of out a)"
    and "a \<in> set accounts \<Longrightarrow> read_file (dsk w) (case map_of (kf_files f) a of None \<Rightarrow> [] | Some x \<Rightarrow> x) \<noteq> None"
  using assms
proof (induction accounts arbitrary: out w)
  case (Cons b rest)
  case 1
  then obtain data w1 where "os_ReadFile (case map_of (kf_files f) b of None \<Rightarrow> [] | Some x \<Rightarrow> x) w = (Inr data, w1)"
    "read_loop f rest (put b (served_lines data) out) w1 = (Inr lines, w')" by (auto split: prod.splits sum.splits)
  with Cons.IH(1) [OF this(2)] os_ReadFile_Inr [OF this(1)] show ?case by auto
next
  case (Cons b rest)
  case 2
  then obtain data w1 where "os_ReadFile (case map_of (kf_files f) b of None \<Rightarrow> [] | Some x \<Rightarrow> x) w = (Inr data, w1)"
    "read_loop f rest (put b (served_lines data) out) w1 = (Inr lines, w')" by (auto split: prod.splits sum.splits)
  with Cons.IH(2) [OF _ this(2)] os_ReadFile_Inr [OF this(1)] 2 show ?case by auto
qed auto

lemma set_keys_served:
  "map_of (ss_keys (tp_ssh (set_keys lines accounts p))) a
    = (if a \<in> set accounts then Some (case map_of lines a of None \<Rightarrow> [] | Some ls \<Rightarrow> ls) else map_of (ss_keys (tp_ssh p)) a)"
  unfolding set_keys_def
  by (induction accounts arbitrary: p) (auto simp: SetAuthorizedKeys_def on_ssh_def)

text \<open>The provider of the process is a state of a run, so what theory TestProvider shows of runs holds of it.\<close>

lemma run_serves:
  assumes "run G listen f w = (Inr (out, p), w')"
  shows "prov_run L p [] [] \<and> out = tp_url p @ [NL] \<and> tp_claims p = mock_claims f \<and> tp_pending p = mf_pending f \<and> 0 \<le> tp_pending p
    \<and> tp_interval p = mf_interval f \<and> parseOutcome G (mf_outcome f) = Inr (tp_outcome p)
    \<and> parseKeysOutcome G (mf_keysOutcome f) = Inr (ss_keysOutcome (tp_ssh p))
    \<and> (\<forall>a \<in> set (kf_accounts (mf_sshKeys f)). \<exists>data.
        read_file (dsk w) (case map_of (kf_files (mf_sshKeys f)) a of None \<Rightarrow> [] | Some x \<Rightarrow> x) = Some data
        \<and> map_of (ss_keys (tp_ssh p)) a = Some (served_lines data))"
proof -
  obtain oc ko lines url w1 where r: "read_loop (mf_sshKeys f) (kf_accounts (mf_sshKeys f)) [] w = (Inr lines, w1)" and c: "parseOutcome G (mf_outcome f) = Inr oc" "0 \<le> mf_pending f"
    "parseKeysOutcome G (mf_keysOutcome f) = Inr ko" "listen (mf_listen f) = Inr url"
    "p = SetKeysOutcome ko (set_keys lines (kf_accounts (mf_sshKeys f)) (TestProvider.New url (mock_options f oc)))" "out = tp_url p @ [NL]"
    using assms by (auto simp: run_def flag_read_def Let_def split: sum.splits if_splits prod.splits)
  define q where "q = TestProvider.New url (mock_options f oc)"
  have "q = SetClaims (mock_claims f) (SetInterval (mf_interval f) (SetPendingPolls (mf_pending f) (SetOutcome oc (new_provider url))))"
    by (simp add: q_def TestProvider.New_def mock_options_def WithOutcome_def WithPendingPolls_def WithInterval_def WithClaims_def
        SetClaims_def SetInterval_def SetPendingPolls_def SetOutcome_def)
  then have "prov_run L q [] []"
    by (simp only:) (rule prov_run.program [OF prov_run.program [OF prov_run.program [OF prov_run.program
      [OF prov_run.start programs.outcome] programs.pending] programs.interval] programs.claims])
  then have "prov_run L p [] []" unfolding c(5) q_def [symmetric] by (intro prov_run.program [OF set_keys_run programs.keys_outcome])
  moreover have frame: "tp_claims (set_keys ls as r) = tp_claims r \<and> tp_pending (set_keys ls as r) = tp_pending r
      \<and> tp_interval (set_keys ls as r) = tp_interval r \<and> tp_outcome (set_keys ls as r) = tp_outcome r" for ls as r
    unfolding set_keys_def by (induction as arbitrary: r) (simp_all add: SetAuthorizedKeys_def on_ssh_def)
  moreover have "tp_claims q = mock_claims f" "tp_pending q = mf_pending f" "tp_interval q = mf_interval f" "tp_outcome q = oc"
    by (simp_all add: q_def TestProvider.New_def mock_options_def WithOutcome_def WithPendingPolls_def WithInterval_def WithClaims_def)
  moreover have "\<exists>data. read_file (dsk w) (case map_of (kf_files (mf_sshKeys f)) a of None \<Rightarrow> [] | Some x \<Rightarrow> x) = Some data
        \<and> map_of (ss_keys (tp_ssh p)) a = Some (served_lines data)" if "a \<in> set (kf_accounts (mf_sshKeys f))" for a
  proof -
    from read_loop_spec(2) [OF r that] obtain data where
      "read_file (dsk w) (case map_of (kf_files (mf_sshKeys f)) a of None \<Rightarrow> [] | Some x \<Rightarrow> x) = Some data" by blast
    with read_loop_spec(1) [OF r, of a] that set_keys_served show ?thesis by (simp add: c(5) SetKeysOutcome_def on_ssh_def)
  qed
  ultimately show ?thesis
    using c unfolding q_def [symmetric] by (simp add: SetKeysOutcome_def on_ssh_def)
qed

end
