(* ===== verification/CacheWalk.thy ===== *)
theory CacheWalk
  imports ConfigEdit
begin

text \<open>
  The walk over the key cache that counts its entries (cacheEntries in
  \<^verbatim>\<open>src/internal/sshcmd/status.go\<close>), with the walk of the standard library over a tree of
  directories. The lemmas show that the walk ends, visits every file below the root once and
  nothing else, and what the count and the time it yields are.
\<close>

section \<open>The walk\<close>

text \<open>filepath.WalkDir: the files it visits, in order. An entry is a path and whether it is a
  directory; a directory that cannot be read is skipped. Every step takes one entry, so fuel for
  every entry of the disk and the root is enough.\<close>

fun walk :: "nat \<Rightarrow> (string \<times> bool) list \<Rightarrow> os \<Rightarrow> string list \<times> os" where
  "walk 0 todo w = ([], w)"
| "walk (Suc n) [] w = ([], w)"
| "walk (Suc n) ((p, False) # todo) w = (case walk n todo w of (ps, w1) \<Rightarrow> (p # ps, w1))"
| "walk (Suc n) ((p, True) # todo) w =
     (case os_ReadDir p w of
        (Inl e, w1) \<Rightarrow> walk n todo w1
      | (Inr names, w1) \<Rightarrow> walk n (map (\<lambda>c. (filepath_Join [p, c], is_dir (dsk w) (filepath_Join [p, c]))) names @ todo) w1)"

definition walk_fuel :: "disk \<Rightarrow> nat" where
  "walk_fuel d = Suc (Suc (length (ents d)))"

definition WalkDir :: "string \<Rightarrow> os \<Rightarrow> string list \<times> os" where
  "WalkDir root w =
     (case os_Stat root w of
        (Inl e, w1) \<Rightarrow> ([], w1)
      | (Inr info, w1) \<Rightarrow> walk (walk_fuel (dsk w1)) [(root, info_dir info)] w1)"

definition base_name :: "string \<Rightarrow> string" where
  "base_name p = last (split_on (CHR ''/'') p)"

definition zero_time :: time where "zero_time = -62135596800 * Second"

definition counted :: "string \<Rightarrow> bool" where
  "counted p = (let name = base_name p in \<not> (name = recordName \<or> HasSuffix name ''.tmp'' \<or> HasPrefix name ''.''))"

fun count_loop :: "(string \<Rightarrow> go_error + time) \<Rightarrow> string list \<Rightarrow> nat \<times> time \<Rightarrow> nat \<times> time" where
  "count_loop mtime [] acc = acc"
| "count_loop mtime (p # ps) (n, newest) =
     (if \<not> counted p then count_loop mtime ps (n, newest)
      else case mtime p of
        Inl e \<Rightarrow> count_loop mtime ps (n, newest)
      | Inr t \<Rightarrow> count_loop mtime ps (Suc n, if newest < t then t else newest))"

definition cacheEntries :: "(string \<Rightarrow> go_error + time) \<Rightarrow> string \<Rightarrow> os \<Rightarrow> (nat \<times> time) \<times> os" where
  "cacheEntries mtime dir w = (case WalkDir dir w of (ps, w1) \<Rightarrow> (count_loop mtime ps (0, zero_time), w1))"

section \<open>What a walk visits\<close>

text \<open>A disk whose entries have clean names below \<open>/\<close> and their directories.\<close>

definition tree_ok :: "disk \<Rightarrow> bool" where
  "tree_ok d = (wf_disk d \<and> tree_closed d \<and> list_all (\<lambda>x. clean_abs (fst x) \<and> fst x \<noteq> ''/'') (ents d))"

definition below :: "disk \<Rightarrow> string \<Rightarrow> string set" where
  "below d p = {q \<in> fst ` set (ents d). under p q}"

definition path_of :: "string list \<Rightarrow> string" where
  "path_of cs = ''/'' @ Join ''/'' cs"

lemma clean_root: "clean_abs ''/''"
  by code_simp

lemma path_of_snoc:
  assumes "\<forall>c \<in> set cs. good_component c"
  shows "path_of (cs @ [c]) = dir_prefix (path_of cs) @ c"
proof (cases "cs = []")
  case False
  have "\<forall>c \<in> set cs. c \<noteq> []" using assms by (auto simp: good_component_def)
  with False have "Join ''/'' cs \<noteq> []" by (simp add: Join_eq_Nil)
  with False show ?thesis by (simp add: path_of_def dir_prefix_def Join_snoc)
qed (simp add: path_of_def dir_prefix_def)

lemma path_of_clean: "\<forall>c \<in> set cs. good_component c \<Longrightarrow> clean_abs (path_of cs)"
proof (induction cs rule: rev_induct)
  case Nil
  show ?case using clean_root by (simp add: path_of_def)
next
  case (snoc c cs)
  then show ?case using clean_child [of "path_of cs" c] by (simp add: path_of_snoc)
qed

lemma clean_steps_good:
  "\<forall>c \<in> set acc. good_component c \<Longrightarrow> \<forall>c \<in> set xs. CHR ''/'' \<notin> set c \<Longrightarrow> \<forall>c \<in> set (foldl (clean_step True) acc xs). good_component c"
proof (induction xs arbitrary: acc)
  case (Cons x xs)
  define y where "y = clean_step True acc x"
  have "y = acc \<or> y = butlast acc \<or> y = acc @ [x] \<and> good_component x"
    using Cons.prems(2) by (simp add: y_def clean_step_def good_component_def)
  then have "\<forall>c \<in> set y. good_component c"
    by (elim disjE conjE) (use Cons.prems(1) in \<open>simp_all, blast dest: in_set_butlastD\<close>)
  from Cons.IH [OF this] Cons.prems(2) show ?case unfolding y_def by simp
qed simp

lemma clean_parent:
  assumes "clean_abs q" "q \<noteq> ''/''"
  shows "\<exists>p c. clean_abs p \<and> good_component c \<and> q = dir_prefix p @ c \<and> filepath_Dir q = p"
proof -
  define cs where "cs = foldl (clean_step True) [] (split_on (CHR ''/'') q)"
  have good: "\<forall>c \<in> set cs. good_component c"
    unfolding cs_def by (rule clean_steps_good) (auto dest: split_on_elem)
  have "filepath_IsAbs q" "filepath_Clean q = q" using assms(1) by (simp_all add: clean_abs_def)
  then have "filepath_Clean q = path_of cs" by (simp add: filepath_Clean_def Let_def cs_def path_of_def)
  with \<open>filepath_Clean q = q\<close> have q: "q = path_of cs" by simp
  with assms(2) have "cs \<noteq> []" by (auto simp: path_of_def)
  then obtain ds c where dc: "cs = ds @ [c]" by (metis rev_exhaust)
  with good have "clean_abs (path_of ds)" "good_component c" "q = dir_prefix (path_of ds) @ c"
    using path_of_clean path_of_snoc q by auto
  then show ?thesis using Dir_child by blast
qed

text \<open>A prefix that ends at a slash ends within the directory part.\<close>

lemma slash_prefix:
  assumes "HasPrefix (y @ c) (x @ ''/'')" "CHR ''/'' \<notin> set c"
  shows "HasPrefix y (x @ ''/'')"
proof -
  obtain z where "y @ c = (x @ ''/'') @ z" using assms(1) by (auto simp: HasPrefix_iff)
  then obtain us where "y = (x @ ''/'') @ us \<and> us @ c = z \<or> x @ ''/'' = y @ us \<and> c = us @ z"
    by (metis append_eq_append_conv2)
  moreover have "us = []" if "x @ ''/'' = y @ us" "c = us @ z"
  proof (rule ccontr)
    assume "us \<noteq> []"
    then have "last us = CHR ''/''" using that(1) by (metis last_appendR last_snoc)
    with \<open>us \<noteq> []\<close> that(2) assms(2) show False by (metis Un_iff last_in_set set_append)
  qed
  ultimately show ?thesis by (auto simp: HasPrefix_iff)
qed

lemma dir_prefix_slash: "\<exists>x. dir_prefix p = x @ ''/''"
  by (cases "p = ''/''") (auto simp: dir_prefix_def)

lemma dir_prefix_inj: "dir_prefix p = dir_prefix q \<Longrightarrow> clean_abs p \<Longrightarrow> clean_abs q \<Longrightarrow> p = q"
  by (metis Clean_dir_prefix)

lemma under_trans: "under a p \<Longrightarrow> HasPrefix q (dir_prefix p) \<Longrightarrow> under a q"
  by (auto simp: under_def HasPrefix_iff dir_prefix_def Cons_eq_append_conv split: if_splits)

lemma below_parent:
  assumes "clean_abs p" "clean_abs q" "under p q" "q \<noteq> p" "q = dir_prefix r @ c" "good_component c" "clean_abs r"
  shows "r = p \<or> under p r \<and> r \<noteq> p"
proof -
  obtain x where x: "dir_prefix p = x @ ''/''" using dir_prefix_slash by blast
  have "HasPrefix (dir_prefix r @ c) (x @ ''/'')" using assms(3-5) x by (simp add: under_def)
  from slash_prefix [OF this] assms(6) have "HasPrefix (dir_prefix r) (dir_prefix p)" by (simp add: x good_component_def)
  then obtain z where z: "dir_prefix r = dir_prefix p @ z" by (auto simp: HasPrefix_iff)
  show ?thesis
  proof (cases "z = []")
    case True
    with z assms(1,7) dir_prefix_inj show ?thesis by auto
  next
    case False
    have "r \<noteq> ''/''"
    proof
      assume "r = ''/''"
      moreover have "length (dir_prefix r) = length (x @ ''/'' @ z)" using z x by simp
      ultimately have "length x + length z = 0" by (simp add: dir_prefix_def)
      with False show False by simp
    qed
    then have "r @ ''/'' = dir_prefix p @ z" using z by (simp add: dir_prefix_def)
    with False have "HasPrefix r (dir_prefix p)" by (metis HasPrefix_iff append_assoc butlast_append butlast_snoc)
    then show ?thesis by (auto simp: under_def)
  qed
qed

lemma tree_parent:
  assumes "tree_ok d" "q \<in> fst ` set (ents d)"
  obtains p c where "clean_abs p" "good_component c" "q = dir_prefix p @ c" "is_dir d p" "p = ''/'' \<or> p \<in> fst ` set (ents d)" "clean_abs q"
proof -
  have q: "clean_abs q" "q \<noteq> ''/''" "is_dir d (filepath_Dir q)"
    using assms by (auto simp: tree_ok_def tree_closed_def list_all_iff)
  then obtain p c where p: "clean_abs p" "good_component c" "q = dir_prefix p @ c" "filepath_Dir q = p" using clean_parent by blast
  have "p \<noteq> ''.''" using p(1) by (auto simp: clean_abs_def filepath_IsAbs_def HasPrefix_def)
  with is_dir_ent [of d p] q(3) p(4) have "p = ''/'' \<or> p \<in> fst ` set (ents d)" by force
  with p q that show thesis by metis
qed

lemma under_not_root:
  assumes "clean_abs p" "under p r" "r \<noteq> p"
  shows "r \<noteq> ''/''"
proof
  assume "r = ''/''"
  with assms(2,3) obtain z where z: "''/'' = dir_prefix p @ z" by (auto simp: under_def HasPrefix_iff)
  obtain x where x: "dir_prefix p = x @ ''/''" using dir_prefix_slash by blast
  from z x have "length ''/'' = length x + 1 + length z" by simp
  then have "x = []" by simp
  then have "dir_prefix p = ''/''" using x by simp
  moreover have "dir_prefix ''/'' = ''/''" by (simp add: dir_prefix_def)
  ultimately have "p = ''/''" using dir_prefix_inj [OF _ assms(1) clean_root] by metis
  with \<open>r = ''/''\<close> assms(3) show False by simp
qed

lemma child_ne_root: "good_component c \<Longrightarrow> dir_prefix p @ c \<noteq> ''/''"
proof
  assume "good_component c" "dir_prefix p @ c = ''/''"
  then have "length (dir_prefix p @ c) = 1" "c \<noteq> []" by (simp_all add: good_component_def)
  then show False using dir_prefix_slash [of p] by auto
qed

lemma under_childD:
  assumes "good_component c" "under (dir_prefix p @ c) q"
  shows "\<exists>z. q = dir_prefix p @ c @ z \<and> (z = [] \<or> hd z = CHR ''/'')"
proof (cases "q = dir_prefix p @ c")
  case False
  then have "HasPrefix q ((dir_prefix p @ c) @ ''/'')"
    using assms(2) child_ne_root [OF assms(1)] by (simp add: under_def dir_prefix_def [of "dir_prefix p @ c"])
  then obtain z where "q = dir_prefix p @ c @ ''/'' @ z" by (auto simp: HasPrefix_iff)
  then show ?thesis by (intro exI [of _ "''/'' @ z"]) simp
qed simp

lemma below_is_dir:
  assumes "tree_ok d" "clean_abs p"
  shows "q \<in> below d p \<Longrightarrow> q \<noteq> p \<Longrightarrow> is_dir d p"
proof (induction "length q" arbitrary: q rule: less_induct)
  case less
  then have "q \<in> fst ` set (ents d)" "under p q" by (simp_all add: below_def)
  from tree_parent [OF assms(1) this(1)] obtain r c where r: "clean_abs r" "good_component c" "q = dir_prefix r @ c" "is_dir d r"
    "r = ''/'' \<or> r \<in> fst ` set (ents d)" "clean_abs q" .
  from below_parent [OF assms(2) r(6) \<open>under p q\<close> less.prems(2) r(3,2,1)] show ?case
  proof
    assume "under p r \<and> r \<noteq> p"
    moreover have "length r < length q" using r(2,3) by (auto simp: dir_prefix_def good_component_def)
    moreover have "r \<noteq> ''/''" using under_not_root [OF assms(2)] \<open>under p r \<and> r \<noteq> p\<close> by blast
    ultimately show ?thesis using less.hyps r(5) by (simp add: below_def)
  qed (use r(4) in simp)
qed

text \<open>What is below a directory is below one of its children.\<close>

lemma below_children:
  assumes "tree_ok d" "clean_abs p"
  shows "below d p - {p} = (\<Union>c \<in> set (children d p). below d (dir_prefix p @ c))"
proof
  show "(\<Union>c \<in> set (children d p). below d (dir_prefix p @ c)) \<subseteq> below d p - {p}"
  proof
    fix q assume "q \<in> (\<Union>c \<in> set (children d p). below d (dir_prefix p @ c))"
    then obtain c where c: "c \<in> set (children d p)" "q \<in> below d (dir_prefix p @ c)" by blast
    then obtain z where "q = dir_prefix p @ c @ z" using under_childD [OF children_good [OF c(1)], of p q] unfolding below_def by blast
    moreover have "c \<noteq> []" using children_good [OF c(1)] by (simp add: good_component_def)
    moreover have "length p \<le> length (dir_prefix p)" by (simp add: dir_prefix_def)
    ultimately have "HasPrefix q (dir_prefix p)" "q \<noteq> p" by (auto simp: HasPrefix_iff dir_prefix_def split: if_splits)
    with c(2) show "q \<in> below d p - {p}" by (simp add: below_def under_def)
  qed
  have "q \<in> below d p \<Longrightarrow> q \<noteq> p \<Longrightarrow> \<exists>c \<in> set (children d p). q \<in> below d (dir_prefix p @ c)" for q
  proof (induction "length q" arbitrary: q rule: less_induct)
    case less
    then have q: "q \<in> fst ` set (ents d)" "under p q" by (simp_all add: below_def)
    from tree_parent [OF assms(1) q(1)] obtain r c where r: "clean_abs r" "good_component c" "q = dir_prefix r @ c"
      "r = ''/'' \<or> r \<in> fst ` set (ents d)" "clean_abs q" .
    from below_parent [OF assms(2) r(5) q(2) less.prems(2) r(3,2,1)] show ?case
    proof
      assume "r = p"
      with q(1) r(2,3) have "c \<in> set (children d p)" using children_mem by fastforce
      moreover have "q \<in> below d (dir_prefix p @ c)" using q(1) r(3) \<open>r = p\<close> by (simp add: below_def under_def)
      ultimately show ?thesis by blast
    next
      assume u: "under p r \<and> r \<noteq> p"
      have "r \<noteq> ''/''" using under_not_root [OF assms(2)] u by blast
      moreover have "length r < length q" using r(2,3) by (auto simp: dir_prefix_def good_component_def)
      ultimately obtain b where b: "b \<in> set (children d p)" "r \<in> below d (dir_prefix p @ b)"
        using less.hyps [of r] u r(4) by (auto simp: below_def)
      then have "q \<in> below d (dir_prefix p @ b)"
        using q(1) r(3) under_trans [of "dir_prefix p @ b" r q] by (simp add: below_def HasPrefix_iff)
      with b(1) show ?thesis by blast
    qed
  qed
  then show "below d p - {p} \<subseteq> (\<Union>c \<in> set (children d p). below d (dir_prefix p @ c))" by blast
qed

lemma below_disjoint:
  assumes "good_component b" "good_component c" "b \<noteq> c"
  shows "below d (dir_prefix p @ b) \<inter> below d (dir_prefix p @ c) = {}"
proof -
  have comp: "takeWhile (\<lambda>x. x \<noteq> CHR ''/'') (drop (length (dir_prefix p)) q) = e" if e: "under (dir_prefix p @ e) q" "good_component e" for q e
  proof -
    obtain z where z: "q = dir_prefix p @ e @ z" "z = [] \<or> hd z = CHR ''/''" using under_childD [OF e(2,1)] by blast
    have "CHR ''/'' \<notin> set e" using e(2) by (simp add: good_component_def)
    then have "takeWhile (\<lambda>x. x \<noteq> CHR ''/'') (e @ z) = e @ takeWhile (\<lambda>x. x \<noteq> CHR ''/'') z" by (intro takeWhile_append2) auto
    moreover have "takeWhile (\<lambda>x. x \<noteq> CHR ''/'') z = []" using z(2) by (cases z) auto
    ultimately show ?thesis by (simp add: z(1))
  qed
  show ?thesis using comp [of b] comp [of c] assms by (auto simp: below_def)
qed

lemma children_distinct: "wf_disk d \<Longrightarrow> distinct (children d p)"
proof -
  assume "wf_disk d"
  then have "distinct (map fst (ents d))" by (simp add: wf_disk_def)
  then have "distinct (map fst (filter (\<lambda>x. HasPrefix (fst x) (dir_prefix p)) (ents d)))" by (rule distinct_map_filter)
  moreover have "inj_on (\<lambda>s. TrimPrefix s (dir_prefix p)) (fst ` set (filter (\<lambda>x. HasPrefix (fst x) (dir_prefix p)) (ents d)))"
    by (auto simp: inj_on_def HasPrefix_iff TrimPrefix_append)
  ultimately have "distinct (map (\<lambda>s. TrimPrefix s (dir_prefix p)) (map fst (filter (\<lambda>x. HasPrefix (fst x) (dir_prefix p)) (ents d))))"
    unfolding distinct_map set_map by (metis list.set_map distinct_map)
  then show ?thesis by (simp add: children_def comp_def)
qed

text \<open>The steps an entry takes.\<close>

definition weight :: "disk \<Rightarrow> string \<times> bool \<Rightarrow> nat" where
  "weight d x = (if snd x then Suc (card (below d (fst x) - {fst x})) else 1)"

definition child_items :: "disk \<Rightarrow> string \<Rightarrow> (string \<times> bool) list" where
  "child_items d p = map (\<lambda>c. (dir_prefix p @ c, is_dir d (dir_prefix p @ c))) (children d p)"

lemma finite_below [simp]: "finite (below d p)"
  by (simp add: below_def)

lemma child_entry: "c \<in> set (children d p) \<Longrightarrow> dir_prefix p @ c \<in> fst ` set (ents d)"
  by (force simp: children_def HasPrefix_iff TrimPrefix_append)

lemma child_weight: "c \<in> set (children d p) \<Longrightarrow> weight d (dir_prefix p @ c, b) \<le> card (below d (dir_prefix p @ c))"
proof -
  assume "c \<in> set (children d p)"
  then have "dir_prefix p @ c \<in> below d (dir_prefix p @ c)" using child_entry by (auto simp: below_def under_def)
  moreover from this have "0 < card (below d (dir_prefix p @ c))" by (auto simp: card_gt_0_iff)
  ultimately show ?thesis by (auto simp: weight_def card_Diff_singleton)
qed

lemma children_weight:
  assumes "tree_ok d" "clean_abs p"
  shows "sum_list (map (weight d) (child_items d p)) \<le> card (below d p - {p})"
proof -
  have dist: "distinct (children d p)" using assms(1) children_distinct by (simp add: tree_ok_def)
  have "sum_list (map (weight d) (child_items d p)) \<le> sum_list (map (\<lambda>c. card (below d (dir_prefix p @ c))) (children d p))"
    unfolding child_items_def map_map comp_def by (rule sum_list_mono) (rule child_weight)
  also have "\<dots> = (\<Sum>c \<in> set (children d p). card (below d (dir_prefix p @ c)))" using dist by (simp add: sum_list_distinct_conv_sum_set)
  also have "\<dots> = card (\<Union>c \<in> set (children d p). below d (dir_prefix p @ c))"
    using children_good below_disjoint by (subst card_UN_disjoint) auto
  also have "\<dots> = card (below d p - {p})" using below_children [OF assms] by simp
  finally show ?thesis .
qed

lemma Join_child: "clean_abs p \<Longrightarrow> good_component c \<Longrightarrow> filepath_Join [p, c] = dir_prefix p @ c"
  using Clean_snoc [of p c] by (auto simp: filepath_Join_def clean_abs_def good_component_def filepath_IsAbs_def HasPrefix_def)

definition item_ok :: "disk \<Rightarrow> string \<times> bool \<Rightarrow> bool" where
  "item_ok d x = (clean_abs (fst x) \<and> (if snd x then is_dir d (fst x) else file_at d (fst x) \<noteq> None))"

lemma file_or_dir: "wf_disk d \<Longrightarrow> q \<in> fst ` set (ents d) \<Longrightarrow> is_dir d q \<or> file_at d q \<noteq> None"
proof -
  assume d: "wf_disk d" "q \<in> fst ` set (ents d)"
  then obtain e where e: "(q, e) \<in> set (ents d)" by auto
  then have "ent d q = Some e" using d(1) by (simp add: wf_disk_def ent_def)
  moreover have "i < length (inodes d)" if "e = FileEnt i" for i
    using d(1) e that by (fastforce simp: wf_disk_def file_inos_def list_all_iff)
  ultimately show ?thesis by (cases e) (auto simp: is_dir_def file_at_def)
qed

lemma file_not_dir: "file_at d q \<noteq> None \<Longrightarrow> q \<noteq> ''/'' \<Longrightarrow> q \<noteq> ''.'' \<Longrightarrow> \<not> is_dir d q"
  by (auto simp: is_dir_def file_at_def split: option.splits dirent.splits)

lemma file_entry: "file_at d q \<noteq> None \<Longrightarrow> q \<in> fst ` set (ents d)"
  by (force simp: file_at_def split: option.splits dest: ent_mem)

lemma child_items_ok:
  assumes "tree_ok d" "clean_abs p"
  shows "list_all (item_ok d) (child_items d p)"
proof -
  have "item_ok d (dir_prefix p @ c, is_dir d (dir_prefix p @ c))" if c: "c \<in> set (children d p)" for c
  proof -
    have "wf_disk d" using assms(1) by (simp add: tree_ok_def)
    from file_or_dir [OF this child_entry [OF c]] clean_child [OF assms(2) children_good [OF c]] show ?thesis
      by (auto simp: item_ok_def)
  qed
  then show ?thesis by (simp add: child_items_def list_all_iff)
qed

abbreviation files_below :: "disk \<Rightarrow> string \<Rightarrow> string set" where
  "files_below d p \<equiv> {q. file_at d q \<noteq> None \<and> under p q}"

lemma files_below_file:
  assumes "tree_ok d" "item_ok d (p, False)"
  shows "files_below d p = {p}"
proof -
  have f: "file_at d p \<noteq> None" "clean_abs p" using assms(2) by (simp_all add: item_ok_def)
  have "p \<noteq> ''/''" using file_entry [OF f(1)] assms(1) by (auto simp: tree_ok_def list_all_iff)
  moreover have "p \<noteq> ''.''" using f(2) by (auto simp: clean_abs_def filepath_IsAbs_def HasPrefix_def)
  ultimately have "\<not> is_dir d p" using file_not_dir f(1) by blast
  then have "q = p" if "q \<in> files_below d p" for q
    using below_is_dir [OF assms(1) f(2), of q] file_entry that by (auto simp: below_def)
  then show ?thesis using f(1) by (auto simp: under_def)
qed

lemma files_below_dir:
  assumes "tree_ok d" "item_ok d (p, True)"
  shows "files_below d p = (\<Union>x \<in> set (child_items d p). files_below d (fst x))"
proof -
  have p: "is_dir d p" "clean_abs p" using assms(2) by (simp_all add: item_ok_def)
  have "p \<notin> files_below d p"
  proof
    assume "p \<in> files_below d p"
    then have "file_at d p \<noteq> None" by simp
    moreover from file_entry [OF this] have "p \<noteq> ''/''" using assms(1) by (auto simp: tree_ok_def list_all_iff)
    moreover have "p \<noteq> ''.''" using p(2) by (auto simp: clean_abs_def filepath_IsAbs_def HasPrefix_def)
    ultimately show False using file_not_dir p(1) by blast
  qed
  moreover have "files_below d r = {q \<in> below d r. file_at d q \<noteq> None}" for r using file_entry by (auto simp: below_def)
  ultimately have "files_below d p = {q \<in> below d p - {p}. file_at d q \<noteq> None}" by auto
  also have "\<dots> = (\<Union>x \<in> set (child_items d p). files_below d (fst x))"
    unfolding below_children [OF assms(1) p(2)] using file_entry by (auto simp: child_items_def below_def)
  finally show ?thesis .
qed

definition apart_items :: "disk \<Rightarrow> (string \<times> bool) list \<Rightarrow> bool" where
  "apart_items d todo = sorted_wrt (\<lambda>x y. below d (fst x) \<inter> below d (fst y) = {}) todo"

lemma distinct_sorted_wrt: "distinct xs \<Longrightarrow> sorted_wrt (\<lambda>b c. b \<noteq> c) xs"
  by (induction xs) auto

lemma child_items_apart:
  assumes "tree_ok d"
  shows "apart_items d (child_items d p)"
proof -
  have "distinct (children d p)" using assms children_distinct by (simp add: tree_ok_def)
  then have "sorted_wrt (\<lambda>b c. b \<noteq> c) (children d p)" by (rule distinct_sorted_wrt)
  then show ?thesis unfolding apart_items_def child_items_def sorted_wrt_map
    by (rule sorted_wrt_mono_rel [rotated]) (use below_disjoint children_good in \<open>simp; blast\<close>)
qed

lemma apart_step:
  assumes "tree_ok d" "apart_items d ((p, True) # todo)" "clean_abs p"
  shows "apart_items d (child_items d p @ todo)"
proof -
  have "below d (fst x) \<inter> below d (fst y) = {}" if "x \<in> set (child_items d p)" "y \<in> set todo" for x y
  proof -
    have "\<exists>c \<in> set (children d p). fst x = dir_prefix p @ c"
      using \<open>x \<in> set (child_items d p)\<close> unfolding child_items_def by (simp add: image_iff) (metis fst_conv)
    then have "below d (fst x) \<subseteq> (\<Union>c \<in> set (children d p). below d (dir_prefix p @ c))" by auto
    then have "below d (fst x) \<subseteq> below d p - {p}" unfolding below_children [OF assms(1,3)] .
    then have "below d (fst x) \<subseteq> below d p" by blast
    moreover have "below d p \<inter> below d (fst y) = {}" using assms(2) that(2) by (auto simp: apart_items_def)
    ultimately show ?thesis by blast
  qed
  then have "\<forall>x \<in> set (child_items d p). \<forall>y \<in> set todo. below d (fst x) \<inter> below d (fst y) = {}" by blast
  with child_items_apart [OF assms(1), of p] assms(2) show ?thesis
    unfolding apart_items_def sorted_wrt_append by simp
qed

lemma walk_visits:
  assumes "tree_ok d"
  shows "sum_list (map (weight d) todo) \<le> n \<Longrightarrow> list_all (item_ok d) todo \<Longrightarrow> apart_items d todo \<Longrightarrow> dsk w = d
    \<Longrightarrow> (\<And>k. fst (sched w k) = None)
    \<Longrightarrow> set (fst (walk n todo w)) = (\<Union>x \<in> set todo. files_below d (fst x)) \<and> distinct (fst (walk n todo w))"
proof (induction n todo w rule: walk.induct)
  case (1 todo w)
  then show ?case by (cases todo) (auto simp: weight_def split: if_splits)
next
  case (3 n p todo w)
  obtain ps w1 where r: "walk n todo w = (ps, w1)" by fastforce
  have fp: "files_below d p = {p}" using files_below_file [OF assms] "3.prems"(2) by simp
  have IH: "set ps = (\<Union>x \<in> set todo. files_below d (fst x))" "distinct ps"
    using "3.IH" "3.prems" r by (auto simp: weight_def apart_items_def)
  have "p \<notin> set ps"
  proof
    assume "p \<in> set ps"
    then obtain y where y: "y \<in> set todo" "p \<in> files_below d (fst y)" using IH(1) by blast
    then have "p \<in> below d (fst y)" using file_entry [of d p] by (simp add: below_def)
    moreover have "p \<in> below d p" using y(2) file_entry [of d p] by (simp add: below_def under_def)
    moreover have "below d p \<inter> below d (fst y) = {}" using "3.prems"(3) y(1) by (simp add: apart_items_def)
    ultimately show False by blast
  qed
  with r IH fp show ?case by simp
next
  case (4 n p todo w)
  have p: "is_dir d p" "clean_abs p" using "4.prems"(2) by (simp_all add: item_ok_def)
  define w1 where "w1 = advance (dsk w) w"
  have r: "os_ReadDir p w = (Inr (children d p), w1)"
    using p(1) "4.prems"(4,5) by (simp add: os_ReadDir_def observe_def fault_def w1_def)
  have items: "map (\<lambda>c. (filepath_Join [p, c], is_dir (dsk w) (filepath_Join [p, c]))) (children d p) = child_items d p"
    using Join_child [OF p(2)] children_good "4.prems"(4) by (auto simp: child_items_def)
  have step: "walk (Suc n) ((p, True) # todo) w = walk n (child_items d p @ todo) w1"
    by (simp add: r items)
  have "sum_list (map (weight d) (child_items d p @ todo)) \<le> n"
    using "4.prems"(1) children_weight [OF assms p(2)] by (simp add: weight_def [of d "(p, True)"])
  moreover have "list_all (item_ok d) (child_items d p @ todo)" using "4.prems"(2) child_items_ok [OF assms p(2)] by simp
  moreover have "apart_items d (child_items d p @ todo)" using apart_step [OF assms "4.prems"(3) p(2)] .
  moreover have "dsk w1 = d" "\<And>k. fst (sched w1 k) = None" using "4.prems"(4,5) by (simp_all add: w1_def)
  ultimately have "set (fst (walk n (child_items d p @ todo) w1)) = (\<Union>x \<in> set (child_items d p @ todo). files_below d (fst x))
      \<and> distinct (fst (walk n (child_items d p @ todo) w1))"
    by (rule "4.IH"(2) [OF r [symmetric] refl, unfolded items])
  moreover have "files_below d p = (\<Union>x \<in> set (child_items d p). files_below d (fst x))"
    using files_below_dir [OF assms] "4.prems"(2) by simp
  ultimately show ?case unfolding step by simp
qed simp

lemma walk_more:
  assumes "tree_ok d"
  shows "sum_list (map (weight d) todo) \<le> n \<Longrightarrow> list_all (item_ok d) todo \<Longrightarrow> dsk w = d
    \<Longrightarrow> (\<And>j. fst (sched w j) = None) \<Longrightarrow> walk (n + k) todo w = walk n todo w"
proof (induction n todo w rule: walk.induct)
  case (1 todo w)
  then have "todo = []" by (cases todo) (auto simp: weight_def split: if_splits)
  then show ?case by (cases k) simp_all
next
  case (3 n p todo w)
  then show ?case by (simp add: weight_def)
next
  case (4 n p todo w)
  have p: "is_dir d p" "clean_abs p" using "4.prems"(2) by (simp_all add: item_ok_def)
  define w1 where "w1 = advance (dsk w) w"
  have r: "os_ReadDir p w = (Inr (children d p), w1)"
    using p(1) "4.prems"(3,4) by (simp add: os_ReadDir_def observe_def fault_def w1_def)
  have items: "map (\<lambda>c. (filepath_Join [p, c], is_dir (dsk w) (filepath_Join [p, c]))) (children d p) = child_items d p"
    using Join_child [OF p(2)] children_good "4.prems"(3) by (auto simp: child_items_def)
  have "sum_list (map (weight d) (child_items d p @ todo)) \<le> n"
    using "4.prems"(1) children_weight [OF assms p(2)] by (simp add: weight_def [of d "(p, True)"])
  moreover have "list_all (item_ok d) (child_items d p @ todo)" using "4.prems"(2) child_items_ok [OF assms p(2)] by simp
  moreover have "dsk w1 = d" "\<And>j. fst (sched w1 j) = None" using "4.prems"(3,4) by (simp_all add: w1_def)
  ultimately have "walk (n + k) (child_items d p @ todo) w1 = walk n (child_items d p @ todo) w1"
    by (rule "4.IH"(2) [OF r [symmetric] refl, unfolded items])
  then show ?case by (simp add: r items)
qed simp

lemma card_files_fuel: "weight d (p, b) \<le> walk_fuel d"
proof -
  have "card (below d p - {p}) \<le> card (fst ` set (ents d))" by (rule card_mono) (auto simp: below_def)
  also have "\<dots> \<le> length (ents d)" using card_image_le [of "set (ents d)" fst] card_length [of "ents d"] by simp
  finally show ?thesis by (simp add: weight_def walk_fuel_def)
qed

definition entry_times :: "(string \<Rightarrow> go_error + time) \<Rightarrow> string list \<Rightarrow> time list" where
  "entry_times mtime ps = concat (map (\<lambda>p. if counted p then (case mtime p of Inl e \<Rightarrow> [] | Inr t \<Rightarrow> [t]) else []) ps)"

lemma count_loop_spec:
  "count_loop mtime ps (n, newest) = (n + length (entry_times mtime ps), fold max (entry_times mtime ps) newest)"
  by (induction ps arbitrary: n newest) (auto simp: entry_times_def max_def split: sum.split)

lemma length_entry_times: "length (entry_times mtime ps) = length (filter (\<lambda>q. counted q \<and> (\<exists>t. mtime q = Inr t)) ps)"
  by (induction ps) (auto simp: entry_times_def split: sum.split)

lemma set_entry_times: "set (entry_times mtime ps) = {t. \<exists>q \<in> set ps. counted q \<and> mtime q = Inr t}"
  by (auto simp: entry_times_def split: sum.splits if_splits)

lemma WalkDir_files:
  assumes "tree_ok (dsk w)" "\<And>k. fst (sched w k) = None" "clean_abs dir"
  shows "set (fst (WalkDir dir w)) = files_below (dsk w) dir \<and> distinct (fst (WalkDir dir w))"
proof -
  define w1 where "w1 = advance (dsk w) w"
  have w1: "dsk w1 = dsk w" "\<And>k. fst (sched w1 k) = None" using assms(2) by (simp_all add: w1_def)
  have nodot: "dir \<noteq> ''.''" using assms(3) by (auto simp: clean_abs_def filepath_IsAbs_def HasPrefix_def)
  show ?thesis
  proof (cases "file_at (dsk w) dir \<noteq> None \<or> is_dir (dsk w) dir")
    case True
    have excl: "\<not> is_dir (dsk w) dir" if "file_at (dsk w) dir \<noteq> None"
    proof -
      have "dir \<noteq> ''/''" using file_entry [OF that] assms(1) by (auto simp: tree_ok_def list_all_iff)
      with file_not_dir that nodot show ?thesis by blast
    qed
    have "WalkDir dir w = walk (walk_fuel (dsk w)) [(dir, file_at (dsk w) dir = None)] w1"
      using assms(2) True by (auto simp: WalkDir_def os_Stat_def observe_def fault_def w1_def split: option.split)
    moreover have "item_ok (dsk w) (dir, file_at (dsk w) dir = None)" using True assms(3) by (auto simp: item_ok_def)
    ultimately show ?thesis
      using walk_visits [OF assms(1), of "[(dir, file_at (dsk w) dir = None)]" "walk_fuel (dsk w)" w1] card_files_fuel w1
      by (simp add: apart_items_def)
  next
    case False
    then have "WalkDir dir w = ([], w1)"
      using assms(2) by (simp add: WalkDir_def os_Stat_def observe_def fault_def w1_def)
    moreover have "files_below (dsk w) dir = {}"
    proof -
      have "\<not> (file_at (dsk w) q \<noteq> None \<and> under dir q)" for q
      proof
        assume q: "file_at (dsk w) q \<noteq> None \<and> under dir q"
        then have "q \<noteq> dir" "q \<in> below (dsk w) dir" using False file_entry [of "dsk w" q] by (auto simp: below_def)
        with below_is_dir [OF assms(1,3)] False show False by blast
      qed
      then show ?thesis by blast
    qed
    ultimately show ?thesis by simp
  qed
qed

text \<open>C39: the count of the cache is right and the walk ends. On a disk whose entries have clean names and
  directories, and when no system call fails, the fuel is enough: with more the walk from any file
  or directory gives the same; the walk visits every file below the directory once and nothing
  else; so the number of entries reported is the number of files below it that are answers, with a
  readable time, and the time is the newest of theirs.\<close>

theorem cache_walk_ends:
  assumes "tree_ok (dsk w)" "\<And>k. fst (sched w k) = None" "clean_abs dir"
  shows "(\<forall>k b. item_ok (dsk w) (dir, b) \<longrightarrow>
        walk (walk_fuel (dsk w) + k) [(dir, b)] w = walk (walk_fuel (dsk w)) [(dir, b)] w)
    \<and> set (fst (WalkDir dir w)) = files_below (dsk w) dir \<and> distinct (fst (WalkDir dir w))
    \<and> fst (cacheEntries mtime dir w) =
        (card {q \<in> files_below (dsk w) dir. counted q \<and> (\<exists>t. mtime q = Inr t)},
         Max (insert zero_time {t. \<exists>q \<in> files_below (dsk w) dir. counted q \<and> mtime q = Inr t}))"
proof -
  obtain ps w1 where r: "WalkDir dir w = (ps, w1)" by fastforce
  have ps: "set ps = files_below (dsk w) dir" "distinct ps" using WalkDir_files [OF assms] r by simp_all
  have "fst (cacheEntries mtime dir w) = (length (entry_times mtime ps), fold max (entry_times mtime ps) zero_time)"
    by (simp add: cacheEntries_def r count_loop_spec)
  moreover have "length (entry_times mtime ps) = card {q \<in> files_below (dsk w) dir. counted q \<and> (\<exists>t. mtime q = Inr t)}"
  proof -
    have "length (entry_times mtime ps) = card (set (filter (\<lambda>q. counted q \<and> (\<exists>t. mtime q = Inr t)) ps))"
      unfolding length_entry_times using ps(2) by (simp only: distinct_card distinct_filter)
    then show ?thesis by (simp add: ps(1))
  qed
  moreover have "fold max (entry_times mtime ps) zero_time = Max (insert zero_time (set (entry_times mtime ps)))"
    using Max.set_eq_fold [of zero_time "entry_times mtime ps"] by simp
  moreover have "walk (walk_fuel (dsk w) + k) [(dir, b)] w = walk (walk_fuel (dsk w)) [(dir, b)] w" if "item_ok (dsk w) (dir, b)" for k b
    using walk_more [OF assms(1), of "[(dir, b)]" "walk_fuel (dsk w)" w k] card_files_fuel that assms(2) by simp
  ultimately show ?thesis using r ps by (simp add: set_entry_times)
qed

text \<open>A cache with an answer, a temporary file and the record.\<close>

definition sample_cache :: disk where
  "sample_cache = \<lparr>ents = [(''/c'', DirEnt 448), (''/c/bob'', DirEnt 448), (''/c/bob/all'', FileEnt 0), (''/c/bob/x.tmp'', FileEnt 1),
     (''/c/host.json'', FileEnt 2)], inodes = replicate 3 \<lparr>i_mode = 384, i_owner = (0, 0), i_data = []\<rparr>\<rparr>"

theorem cache_walk_ends_witness:
  "set (fst (WalkDir ''/c'' (calm sample_cache))) = {''/c/bob/all'', ''/c/bob/x.tmp'', ''/c/host.json''}
   \<and> fst (fst (cacheEntries (\<lambda>p. Inr 5) ''/c'' (calm sample_cache))) = 1"
proof -
  have t: "tree_ok (dsk (calm sample_cache))" "clean_abs ''/c''" by code_simp+
  have c: "fst (sched (calm sample_cache) k) = None" for k by (simp add: calm_def)
  have f: "files_below sample_cache ''/c'' = {''/c/bob/all'', ''/c/bob/x.tmp'', ''/c/host.json''}"
    by (auto simp: file_at_def ent_def sample_cache_def under_def HasPrefix_def dir_prefix_def split: if_splits)
  have n: "counted ''/c/bob/all''" "\<not> counted ''/c/bob/x.tmp''" "\<not> counted ''/c/host.json''" by code_simp+
  let ?A = "{q \<in> files_below sample_cache ''/c''. counted q \<and> (\<exists>t. (Inr 5 :: go_error + time) = Inr t)}"
  have "?A = {''/c/bob/all''}" unfolding f using n by auto
  then have "card ?A = 1" by simp
  moreover note all = cache_walk_ends [OF t(1) c t(2), of "\<lambda>p. Inr 5", unfolded calm_simps]
  have "fst (fst (cacheEntries (\<lambda>p. Inr 5) ''/c'' (calm sample_cache))) = card ?A" using all by simp
  moreover have "set (fst (WalkDir ''/c'' (calm sample_cache))) = files_below sample_cache ''/c''" using all by simp
  ultimately show ?thesis unfolding f by simp
qed

end
