(* ===== verification/StatusCmd.thy ===== *)
theory StatusCmd
  imports EnrollCmd CacheWalk
begin

unbundle bit_operations_syntax

text \<open>
  The status command (\<^verbatim>\<open>src/internal/sshcmd/status.go\<close>): what this host knows about its enrolment, and
  whether it could act on it. The plain HTTP client of the probe, the clock around it and the JSON
  decoding are the functions of record \<open>status_libs\<close>, as are the modification times of the
  cache files, which the disk of theory Fs does not have, and the random tries tried for the
  probe file. The lemmas show that the command changes no file, and that it fails exactly when it
  printed a problem.
\<close>

section \<open>Libraries\<close>

record ('h, 'w) status_libs =
  su_ssh :: "('h, 'w) sshlibs"
  su_record :: record_lib
  su_get :: "duration \<Rightarrow> http_request \<Rightarrow> 'w \<Rightarrow> (go_error + http_response) \<times> 'w"
  su_now :: "'w \<Rightarrow> time"
  su_meta :: "string \<Rightarrow> (string \<times> string) option"
  su_mtime :: "string \<Rightarrow> go_error + time"
  su_suffixes :: "string list"

definition maxDiscoveryBody :: int where "maxDiscoveryBody = 2 ^ 20"

text \<open>The verb \<^verbatim>\<open>%04o\<close>.\<close>

fun oct :: "nat \<Rightarrow> string" where
  "oct n = (if n < 8 then [char_of (48 + n)] else oct (n div 8) @ [char_of (48 + n mod 8)])"

declare oct.simps [simp del]

definition octal4 :: "nat \<Rightarrow> string" where
  "octal4 n = replicate (4 - length (oct n)) (CHR ''0'') @ oct n"

definition round_millisecond :: "duration \<Rightarrow> duration" where
  "round_millisecond d = (if d < 0 then - ((- d + 500000) div 1000000 * 1000000) else (d + 500000) div 1000000 * 1000000)"

section \<open>Files\<close>

definition os_Open :: "string \<Rightarrow> os \<Rightarrow> (go_error + unit) \<times> os" where
  "os_Open p = observe (\<lambda>d. if file_at d p \<noteq> None \<or> is_dir d p then Inr () else Inl (enoent ''open'' p))"

definition readable :: "string \<Rightarrow> os \<Rightarrow> go_error option \<times> os" where
  "readable p w = (case os_Open p w of (Inl e, w1) \<Rightarrow> (Some e, w1) | (Inr u, w1) \<Rightarrow> unit_result (observe (\<lambda>d. Inr ()) w1))"

text \<open>The note and the problems it adds.\<close>

definition fileNote :: "string \<Rightarrow> nat \<Rightarrow> os \<Rightarrow> (string \<times> string list) \<times> os" where
  "fileNote p badBits w =
     (case os_Stat p w of
        (Inl e, w1) \<Rightarrow> (('' (missing)'', [p @ '': '' @ err_msg e]), w1)
      | (Inr info, w1) \<Rightarrow> (case readable p w1 of (r, w2) \<Rightarrow>
          (let mode = octal4 (Perm info); permissive = (Perm info AND badBits \<noteq> 0) in
           (('' (mode '' @ mode @ (case r of Some e \<Rightarrow> '', NOT readable'' | None \<Rightarrow> '', readable'')
               @ (if permissive then '', too permissive'' else []) @ '')'',
             (case r of Some e \<Rightarrow> [p @ '' is not readable by this user: '' @ err_msg e] | None \<Rightarrow> [])
             @ (if permissive then [p @ '' has mode '' @ mode @ '', which is too permissive''] else [])), w2))))"

definition keyNote :: "key_lib \<Rightarrow> string \<Rightarrow> os \<Rightarrow> (string \<times> string list) \<times> os" where
  "keyNote K p w =
     (case fileNote p 23 w of ((note, problems), w1) \<Rightarrow>
        (case Hostid.Load K p w1 of
           (Inl e, w2) \<Rightarrow> ((note, problems), w2)
         | (Inr i, w2) \<Rightarrow> ((note @ '' '' @ hi_Fingerprint i, problems), w2)))"

section \<open>The cache\<close>

text \<open>os.CreateTemp: a new file with a random suffix, the next one when it exists; the source gives up
  after ten thousand.\<close>

fun createTemp :: "string \<Rightarrow> string list \<Rightarrow> os \<Rightarrow> (go_error + (string \<times> ofile)) \<times> os" where
  "createTemp pre [] w = (Inl (path_error ''createtemp'' (pre @ ''*'') [OsErrExist] ''file exists''), w)"
| "createTemp pre (s # ss) w =
     (case os_OpenExcl (pre @ s) 384 w of
        (Inr f, w1) \<Rightarrow> (Inr (pre @ s, f), w1)
      | (Inl e, w1) \<Rightarrow> if Is e OsErrExist then createTemp pre ss w1 else (Inl e, w1))"

definition probe_prefix :: "string \<Rightarrow> string" where
  "probe_prefix dir = (if HasSuffix dir ''/'' then dir else dir @ ''/'') @ ''.oidc-ssh-probe-''"

definition writable :: "string list \<Rightarrow> string \<Rightarrow> os \<Rightarrow> go_error option \<times> os" where
  "writable tries dir w =
     (case createTemp (probe_prefix dir) tries w of
        (Inl e, w1) \<Rightarrow> (Some e, w1)
      | (Inr (name, f), w1) \<Rightarrow> os_Remove name (snd (f_Close f w1)))"

definition cacheNote :: "('h, 'w) status_libs \<Rightarrow> env \<Rightarrow> Config \<Rightarrow> os \<Rightarrow> string \<times> os" where
  "cacheNote L env cfg w =
     (let dir = c_CacheDir cfg; age = (\<lambda>t. Duration_String (round_second (time_Sub (fe_Now env) t))) in
      if c_CacheTTL cfg \<le> 0 then (dir @ '' (disabled: cache_ttl is 0)'', w)
      else case writable (su_suffixes L) dir w of (r, w1) \<Rightarrow>
        (case cacheEntries (su_mtime L) dir w1 of ((entries, newest), w2) \<Rightarrow>
          (dir @ '' (ttl '' @ Duration_String (c_CacheTTL cfg)
            @ (case r of Some e \<Rightarrow> '', NOT writable: '' @ err_msg e | None \<Rightarrow> '', writable'')
            @ (if entries = 0 then '', empty''
               else if entries = 1 then '', 1 entry, '' @ age newest @ '' old''
               else '', '' @ dec entries @ '' entries, newest '' @ age newest @ '' old'') @ '')'', w2)))"

section \<open>The enrolment and the provider\<close>

definition baseSource :: "Config \<Rightarrow> string \<Rightarrow> string" where
  "baseSource cfg discovered =
     (if TrimSpace (c_APIBase cfg) \<noteq> [] then ''from api_base''
      else if TrimSpace discovered \<noteq> [] then ''from ssh_access_endpoint''
      else ''derived from the issuer'')"

definition enrolmentNote :: "record_lib \<Rightarrow> env \<Rightarrow> Config \<Rightarrow> os \<Rightarrow> string \<times> os" where
  "enrolmentNote R env cfg w =
     (case readRecord R cfg w of
        (Inl e, w1) \<Rightarrow> (''(unreadable: '' @ err_msg e @ '')'', w1)
      | (Inr None, w1) \<Rightarrow> (''(no record in '' @ recordPath cfg @ '')'', w1)
      | (Inr (Some rec), w1) \<Rightarrow>
          (''name='' @ rc_Name rec @ '' groups='' @ listOrNone (rc_Groups rec) @ '' accounts='' @ listOrNone (rc_Accounts rec)
            @ '' ('' @ Duration_String (round_second (time_Sub (fe_Now env) (rc_EnrolledAt rec))) @ '' ago)'', w1))"

text \<open>What follows the answer of the provider: endpoint, verdict, error.\<close>

definition probe_answer :: "('h, 'w) status_libs \<Rightarrow> Config \<Rightarrow> string \<Rightarrow> string \<Rightarrow> http_response \<Rightarrow> string \<times> string \<times> go_error option" where
  "probe_answer L cfg url elapsed resp =
     (if rs_status resp \<noteq> 200 then
        ([], url @ '': HTTP '' @ deci (rs_status resp) @ '' in '' @ elapsed,
         Some (errors_New (''discovery answered HTTP '' @ deci (rs_status resp))))
      else case (readAll resp maxDiscoveryBody, su_meta L (fst (readAll resp maxDiscoveryBody))) of
        ((body, None), Some (issuer, endpoint)) \<Rightarrow>
          (let verdict = ''reachable (HTTP 200 in '' @ elapsed @ '')''; q = quoted (sl_go (su_ssh L)) in
           if issuer \<noteq> [] \<and> issuer \<noteq> c_Issuer cfg then
             (endpoint, verdict @ '', but it calls itself '' @ q issuer,
              Some (errors_New (''the discovery document names issuer '' @ q issuer @ '', not '' @ q (c_Issuer cfg))))
           else (endpoint, verdict, None))
      | _ \<Rightarrow> ([], url @ '': HTTP 200 in '' @ elapsed @ '', but the document is not JSON'',
              Some (errors_New ''discovery document is not valid JSON'')))"

definition probeProvider :: "('h, 'w) status_libs \<Rightarrow> Config \<Rightarrow> 'w \<Rightarrow> (string \<times> string \<times> go_error option) \<times> 'w" where
  "probeProvider L cfg n =
     (let url = TrimSuffix (c_Issuer cfg) ''/'' @ ''/.well-known/openid-configuration'';
          unreachable = (\<lambda>e. ([], ''unreachable: '' @ err_msg e, Some e)) in
      case url_Parse (sl_go (su_ssh L)) url of
        Inl e \<Rightarrow> (unreachable e, n)
      | Inr u \<Rightarrow> (case su_get L (c_HTTPTimeout cfg)
            \<lparr>rq_method = ''GET'', rq_url = url, rq_header = [(''Accept'', ''application/json'')], rq_body = []\<rparr> n of
          (Inl e, n1) \<Rightarrow> (unreachable e, n1)
        | (Inr resp, n1) \<Rightarrow>
            (probe_answer L cfg url (Duration_String (round_millisecond (su_now L n1 - su_now L n))) resp, n1)))"

section \<open>The command\<close>

text \<open>The report on a configuration that loads: the lines, and the problems in the order of the source.\<close>

definition host_line :: "Config \<Rightarrow> string \<times> string list" where
  "host_line cfg =
     (if c_HostID cfg = [] then (''host id:       (not enrolled; run '' @ [DQ] @ ''oidc-ssh enroll'' @ [DQ] @ '')'' @ [NL],
        [''the host is not enrolled: the configuration has no host_id''])
      else (''host id:       '' @ c_HostID cfg @ [NL], []))"

definition probe_problem :: "go_error option \<Rightarrow> string list" where
  "probe_problem e = (case e of None \<Rightarrow> [] | Some x \<Rightarrow> [''the provider is not reachable: '' @ err_msg x])"

definition status_report :: "('h, 'w) status_libs \<Rightarrow> env \<Rightarrow> string \<Rightarrow> Config \<Rightarrow> 'w proc \<Rightarrow> string list \<times> 'w proc" where
  "status_report L env file cfg p =
     (case on_net (probeProvider L cfg) p of ((discovered, probe, e), p1) \<Rightarrow>
       (let base = ResolveBase (c_APIBase cfg) (c_Issuer cfg) discovered;
            p2 = printf env (''version:       '' @ Version @ [NL]) p1 in
        case on_os (fileNote file 2) p2 of ((note, ps1), p3) \<Rightarrow>
       (let p4 = printf env (''client id:     '' @ c_ClientID cfg @ [NL] @ ''api base:      '' @ base @ '' ('' @ baseSource cfg discovered @ '')'' @ [NL])
              (printf env (''configuration: '' @ file @ note @ [NL] @ ''issuer:        '' @ c_Issuer cfg @ [NL]) p3) in
        case on_os (keyNote (sl_keys (su_ssh L)) (c_IdentityKey cfg)) p4 of ((knote, ps2), p5) \<Rightarrow>
       (let p6 = printf env (fst (host_line cfg)) (printf env (''identity key:  '' @ c_IdentityKey cfg @ knote @ [NL]) p5) in
        case on_os (enrolmentNote (su_record L) env cfg) p6 of (enote, p7) \<Rightarrow>
        (case on_os (cacheNote L env cfg) (printf env (''enrolment:     '' @ enote @ [NL]) p7) of (cnote, p8) \<Rightarrow>
          (probe_problem e @ ps1 @ ps2 @ snd (host_line cfg),
           printf env (''provider:      '' @ probe @ [NL]) (printf env (''key cache:     '' @ cnote @ [NL]) p8)))))))"

definition print_problems :: "env \<Rightarrow> string list \<Rightarrow> 'w proc \<Rightarrow> 'w proc" where
  "print_problems env problems p = fold (\<lambda>x. printf env (''! '' @ x @ [NL])) problems p"

definition Status :: "('h, 'w) status_libs \<Rightarrow> defaults \<Rightarrow> Env \<Rightarrow> 'w proc \<Rightarrow> go_error option \<times> 'w proc" where
  "Status L d e p =
     (let env = fill d e; S = su_ssh L in
      case configPath env p of
        (Inl er, p1) \<Rightarrow> (Some er, printf env (''configuration: '' @ err_msg er @ [NL]) p1)
      | (Inr file, p1) \<Rightarrow> (case on_os (Config.Load (sl_go S) (sl_yaml S) (sl_hostname S) file) p1 of
          (Inl er, p2) \<Rightarrow> (Some er, printf env (''configuration: '' @ file @ [NL] @ ''               ! '' @ err_msg er @ [NL]) p2)
        | (Inr cfg, p2) \<Rightarrow> (case status_report L env file cfg p2 of (problems, p3) \<Rightarrow>
            (if problems = [] then None else Some (errors_New (''oidc-ssh: '' @ dec (length problems) @ '' check(s) failed'')),
             print_problems env problems p3))))"

section \<open>Looking\<close>

text \<open>A call that only looks: the disk and the schedule stay, and the history gains copies of the disk.\<close>

definition looks :: "(os \<Rightarrow> 'a \<times> os) \<Rightarrow> bool" where
  "looks f = (\<forall>w. dsk (snd (f w)) = dsk w \<and> sched (snd (f w)) = sched w
     \<and> (\<forall>h P. stable h P w \<longrightarrow> stable h P (snd (f w))))"

lemma looksD: "looks f \<Longrightarrow> f w = (r, w') \<Longrightarrow> dsk w' = dsk w \<and> sched w' = sched w \<and> (stable h P w \<longrightarrow> stable h P w')"
  unfolding looks_def by (metis snd_conv)

lemma looks_observe [intro]: "looks (observe f)"
  by (simp add: looks_def)

lemma looks_named [intro]: "looks (os_Stat p)" "looks (os_ReadFile p)" "looks (os_Open p)" "looks (os_ReadDir p)"
  unfolding os_Stat_def os_ReadFile_def os_Open_def os_ReadDir_def by blast+

lemma looks_return [intro]: "looks (\<lambda>w. (g w, w))"
  by (simp add: looks_def)

lemma looks_bind [intro]:
  assumes "looks f" "\<And>r. looks (g r)"
  shows "looks (\<lambda>w. case f w of (r, w1) \<Rightarrow> g r w1)"
  using assms unfolding looks_def by (auto simp: case_prod_beta)

lemma looks_map: "looks f \<Longrightarrow> (\<And>w. snd (g w) = snd (f w)) \<Longrightarrow> looks g"
  by (simp add: looks_def)

lemma looks_state: "(\<And>d. looks (F d)) \<Longrightarrow> (\<And>w. snd (g w) = snd (F (dsk w) w)) \<Longrightarrow> looks g"
  by (simp add: looks_def)

lemma looks_reads: "looks (Config.Load G yaml hn p)" "looks (Hostid.Load K p)" "looks (readRecord R cfg)" "looks (readable p)"
proof -
  show "looks (Config.Load G yaml hn p)"
    by (rule looks_map [OF looks_named(2) [of p]]) (simp add: Config.Load_def split: prod.split sum.split)
  show "looks (Hostid.Load K p)"
    by (rule looks_map [OF looks_named(2) [of p]]) (simp add: Hostid.Load_def split: prod.split sum.split)
  show "looks (readRecord R cfg)"
    by (rule looks_map [OF looks_named(2) [of "recordPath cfg"]]) (simp add: readRecord_def split: prod.split sum.split)
  have "looks (\<lambda>w. unit_result (observe (\<lambda>d. Inr ()) w))" by (rule looks_map [OF looks_observe]) simp
  then have "looks (\<lambda>w. case os_Open p w of (r, w1) \<Rightarrow>
      (case r of Inl e \<Rightarrow> (\<lambda>w. (Some e, w)) | Inr u \<Rightarrow> (\<lambda>w. unit_result (observe (\<lambda>d. Inr ()) w))) w1)"
    by (intro looks_bind) (auto split: sum.split)
  then show "looks (readable p)"
    by (rule looks_map) (simp add: readable_def split: prod.split sum.split)
qed

lemma looks_fileNote: "looks (fileNote p bits)"
proof -
  have "looks (\<lambda>w. case os_Stat p w of (r, w1) \<Rightarrow> (case r of Inl e \<Rightarrow> (\<lambda>w. (None, w)) | Inr i \<Rightarrow> readable p) w1)"
    using looks_reads(4) by (intro looks_bind) (auto split: sum.split)
  then show ?thesis
    by (rule looks_map) (simp add: fileNote_def Let_def split: prod.split sum.split)
qed

lemma looks_keyNote: "looks (keyNote K p)"
proof -
  have "looks (\<lambda>w. case fileNote p 23 w of (r, w1) \<Rightarrow> Hostid.Load K p w1)"
    by (intro looks_bind looks_fileNote looks_reads)
  then show ?thesis by (rule looks_map) (simp add: keyNote_def split: prod.split sum.split)
qed

lemma looks_enrolmentNote: "looks (enrolmentNote R env cfg)"
  by (rule looks_map [OF looks_reads(3) [of R cfg]]) (simp add: enrolmentNote_def split: prod.split sum.split option.split)

lemma looks_FindDefault: "looks FindDefault"
proof -
  have "looks (find_loop ps)" for ps
  proof (induction ps)
    case (Cons p ps)
    have "looks (\<lambda>w. case os_Stat p w of (r, w1) \<Rightarrow> (case r of Inr i \<Rightarrow> (\<lambda>w. (Some (Inr p), w))
        | Inl e \<Rightarrow> if Is e OsErrNotExist then find_loop ps
            else (\<lambda>w. (Some (Inl (wrapf (''config: stat '' @ p @ '': '') e [])), w))) w1)"
      using Cons.IH by (intro looks_bind) (auto split: sum.split)
    then show ?case by (rule looks_map) (simp split: prod.split sum.split)
  next
    case Nil
    then show ?case by (rule looks_map [OF looks_return]) simp
  qed
  from this [of defaultPaths] show ?thesis
    by (rule looks_map) (simp add: FindDefault_def findFirst_def split: prod.split option.split)
qed

lemma looks_walk: "looks (walk n todo)"
proof (induction n arbitrary: todo)
  case 0
  show ?case by (rule looks_map [OF looks_return]) simp
next
  case (Suc n)
  show ?case
  proof (cases todo)
    case Nil
    show ?thesis by (rule looks_map [OF looks_return]) (simp add: Nil)
  next
    case (Cons x rest)
    obtain p b where x: "x = (p, b)" by fastforce
    show ?thesis
    proof (cases b)
      case False
      show ?thesis by (rule looks_map [OF Suc.IH [of rest]]) (simp add: Cons x False split: prod.split)
    next
      case True
      define F where "F d = (\<lambda>w. case os_ReadDir p w of (r, w1) \<Rightarrow> (case r of Inl e \<Rightarrow> walk n rest
          | Inr names \<Rightarrow> walk n (map (\<lambda>c. (filepath_Join [p, c], is_dir d (filepath_Join [p, c]))) names @ rest)) w1)" for d
      have "looks (F d)" for d
        using Suc.IH unfolding F_def by (intro looks_bind) (auto split: sum.split)
      then show ?thesis by (rule looks_state [of F]) (simp add: F_def Cons x True split: prod.split sum.split)
    qed
  qed
qed

lemma looks_cacheEntries: "looks (cacheEntries mtime dir)"
proof -
  have "looks (\<lambda>w. case os_Stat dir w of (r, w1) \<Rightarrow> (case r of Inl e \<Rightarrow> (\<lambda>w. ([], w))
      | Inr i \<Rightarrow> walk (walk_fuel d) [(dir, info_dir i)]) w1)" for d
    using looks_walk by (intro looks_bind) (auto split: sum.split)
  then have "looks (WalkDir dir)"
  proof (rule looks_state)
    fix w
    obtain r w1 where 1: "os_Stat dir w = (r, w1)" by fastforce
    then have "dsk w1 = dsk w" using looksD [OF looks_named(1) 1] by blast
    with 1 show "snd (WalkDir dir w) = snd (case os_Stat dir w of (r, w1) \<Rightarrow> (case r of Inl e \<Rightarrow> (\<lambda>w. ([], w))
      | Inr i \<Rightarrow> walk (walk_fuel (dsk w)) [(dir, info_dir i)]) w1)"
      by (simp add: WalkDir_def split: sum.split)
  qed
  then show ?thesis by (rule looks_map) (simp add: cacheEntries_def split: prod.split)
qed

section \<open>The probe file\<close>

lemma probe_infix: "Contains (probe_prefix dir @ s) ''.oidc-ssh-probe-''"
  unfolding Contains_iff probe_prefix_def by (metis append.assoc)

lemma createTemp_stable:
  assumes "stable h (holds_at q x) w" "\<not> Contains q ''.oidc-ssh-probe-''" "createTemp (probe_prefix dir) tries w = (r, w')"
  shows "stable h (holds_at q x) w' \<and> (\<forall>p f. r = Inr (p, f) \<longrightarrow> p \<noteq> q)"
  using assms(1,3)
proof (induction tries arbitrary: w)
  case (Cons s ss)
  have ne: "probe_prefix dir @ s \<noteq> q" using assms(2) probe_infix by metis
  obtain y w1 where 1: "os_OpenExcl (probe_prefix dir @ s) 384 w = (y, w1)" by fastforce
  note s1 = OpenExcl_spec(1) [OF Cons.prems(1) ne 1]
  from Cons.prems(2) 1 Cons.IH [OF s1] s1 ne show ?case by (auto split: sum.splits if_splits)
qed auto

lemma writable_stable:
  assumes "stable h (holds_at q x) w" "\<not> Contains q ''.oidc-ssh-probe-''"
  shows "stable h (holds_at q x) (snd (writable tries dir w))"
proof -
  obtain r w1 where 1: "createTemp (probe_prefix dir) tries w = (r, w1)" by fastforce
  note s1 = createTemp_stable [OF assms 1]
  then show ?thesis using 1 stable_Remove [OF stable_sync_close(2)] by (auto simp: writable_def split: sum.split)
qed

lemma cacheNote_stable:
  assumes "stable h (holds_at q x) w" "\<not> Contains q ''.oidc-ssh-probe-''"
  shows "stable h (holds_at q x) (snd (cacheNote L env cfg w))"
proof -
  obtain r w1 where 1: "writable (su_suffixes L) (c_CacheDir cfg) w = (r, w1)" by fastforce
  then have s1: "stable h (holds_at q x) w1" using writable_stable [OF assms] by (metis snd_conv)
  obtain y w2 where 2: "cacheEntries (su_mtime L) (c_CacheDir cfg) w1 = (y, w2)" by fastforce
  then have "stable h (holds_at q x) w2" using looksD [OF looks_cacheEntries 2] s1 by blast
  with 1 2 assms(1) show ?thesis by (simp add: cacheNote_def Let_def split: prod.split)
qed

section \<open>The report\<close>

text \<open>The permission bits of what is at a path, file or directory.\<close>

definition mode_at :: "disk \<Rightarrow> string \<Rightarrow> nat option" where
  "mode_at d p = (case file_at d p of Some n \<Rightarrow> Some (i_mode n mod 512)
     | None \<Rightarrow> if is_dir d p then Some ((case ent d p of Some (DirEnt m) \<Rightarrow> m | _ \<Rightarrow> 493) mod 512) else None)"

definition not_permissive :: "nat \<Rightarrow> disk \<Rightarrow> string \<Rightarrow> bool" where
  "not_permissive bits d p = (\<exists>m. mode_at d p = Some m \<and> m AND bits = 0)"

lemma fileNote_problems:
  assumes "\<And>n. fst (sched w n) = None"
  shows "snd (fst (fileNote p bits w)) = [] \<longleftrightarrow> not_permissive bits (dsk w) p"
proof -
  have calm: "fault w' = None" if "sched w' = sched w" for w' :: os using assms that by (simp add: fault_def)
  have "fault (advance (dsk w) w) = None" "fault (advance (dsk w) (advance (dsk w) w)) = None" "fault w = None"
    by (rule calm; simp)+
  then show ?thesis
    by (auto simp: fileNote_def os_Stat_def observe_def readable_def os_Open_def unit_result_def Let_def not_permissive_def
        mode_at_def Perm_def split: option.splits)
qed

lemma keyNote_problems: "snd (fst (keyNote K p w)) = snd (fst (fileNote p 23 w))"
  by (simp add: keyNote_def split: prod.split sum.split)

lemma status_report_run:
  assumes "status_report L env file cfg p = (problems, q)"
  shows "\<exists>e. snd (snd (fst (probeProvider L cfg (ps_net p)))) = e
    \<and> problems = probe_problem e @ snd (fst (fileNote file 2 (ps_os p)))
        @ snd (fst (keyNote (sl_keys (su_ssh L)) (c_IdentityKey cfg) (snd (fileNote file 2 (ps_os p))))) @ snd (host_line cfg)
    \<and> (\<exists>w. ps_os q = snd (cacheNote L env cfg w) \<and> dsk w = dsk (ps_os p)
        \<and> (\<forall>h P. stable h P (ps_os p) \<longrightarrow> stable h P w))"
proof -
  obtain disc probe e p1 where 1: "on_net (probeProvider L cfg) p = ((disc, probe, e), p1)" by (metis prod_cases4 prod.collapse)
  obtain fnote ps1 p3 where 3: "on_os (fileNote file 2) (printf env (''version:       '' @ Version @ [NL]) p1) = ((fnote, ps1), p3)"
    by (metis prod.collapse)
  define p4 where "p4 = printf env (''client id:     '' @ c_ClientID cfg @ [NL] @ ''api base:      ''
      @ ResolveBase (c_APIBase cfg) (c_Issuer cfg) disc @ '' ('' @ baseSource cfg disc @ '')'' @ [NL])
      (printf env (''configuration: '' @ file @ fnote @ [NL] @ ''issuer:        '' @ c_Issuer cfg @ [NL]) p3)"
  obtain knote ps2 p5 where 5: "on_os (keyNote (sl_keys (su_ssh L)) (c_IdentityKey cfg)) p4 = ((knote, ps2), p5)" by (metis prod.collapse)
  define p6 where "p6 = printf env (fst (host_line cfg)) (printf env (''identity key:  '' @ c_IdentityKey cfg @ knote @ [NL]) p5)"
  obtain enote p7 where 7: "on_os (enrolmentNote (su_record L) env cfg) p6 = (enote, p7)" by fastforce
  define p7' where "p7' = printf env (''enrolment:     '' @ enote @ [NL]) p7"
  obtain cnote p8 where 8: "on_os (cacheNote L env cfg) p7' = (cnote, p8)" by fastforce
  have run: "problems = probe_problem e @ ps1 @ ps2 @ snd (host_line cfg)" "ps_os q = ps_os p8"
    using assms unfolding status_report_def 1 prod.case Let_def 3 p4_def [symmetric] 5 p6_def [symmetric] 7 p7'_def [symmetric] 8
    by (auto simp: printf_def split: writer.split)
  have os: "ps_os p1 = ps_os p" "fileNote file 2 (ps_os p1) = ((fnote, ps1), ps_os p3)" "ps_os p4 = ps_os p3"
    "keyNote (sl_keys (su_ssh L)) (c_IdentityKey cfg) (ps_os p4) = ((knote, ps2), ps_os p5)" "ps_os p6 = ps_os p5"
    "enrolmentNote (su_record L) env cfg (ps_os p6) = (enote, ps_os p7)" "ps_os p7' = ps_os p7"
    "cacheNote L env cfg (ps_os p7') = (cnote, ps_os p8)"
    using 1 3 5 7 8
    by (auto simp: on_net_def on_os_def p4_def p6_def p7'_def printf_def split: prod.splits writer.splits)
  note l = looksD [OF looks_fileNote os(2)] looksD [OF looks_keyNote os(4)] looksD [OF looks_enrolmentNote os(6)]
  have "dsk (ps_os p7') = dsk (ps_os p)" "\<forall>h P. stable h P (ps_os p) \<longrightarrow> stable h P (ps_os p7')"
    using l os by metis+
  moreover have "snd (snd (fst (probeProvider L cfg (ps_net p)))) = e" using 1 by (auto simp: on_net_def split: prod.splits)
  ultimately show ?thesis using run os by (metis fst_conv snd_conv)
qed

lemma configPath_looks:
  "configPath env p = (r, q) \<Longrightarrow> dsk (ps_os q) = dsk (ps_os p) \<and> sched (ps_os q) = sched (ps_os p)
    \<and> (stable h P (ps_os p) \<longrightarrow> stable h P (ps_os q)) \<and> ps_net q = ps_net p"
  using looksD [OF looks_FindDefault] by (fastforce simp: configPath_def on_os_def split: if_splits prod.splits)

lemma print_problems_simps [simp]:
  "ps_os (print_problems env xs p) = ps_os p"
  "fe_Stdout env = Stream \<Longrightarrow> ps_out (print_problems env xs p) = ps_out p @ concat (map (\<lambda>x. ''! '' @ x @ [NL]) xs)"
  by (induction xs arbitrary: p) (simp_all add: print_problems_def printf_def split: writer.split)

text \<open>C38: asking for the status is harmless. Whatever fails and whatever the provider answers, at every
  moment of the command every path but that of the probe file holds the file it held before, or
  none when there was none.\<close>

theorem Status_changes_no_file:
  assumes "wf_disk (dsk (ps_os p))" "\<not> Contains q ''.oidc-ssh-probe-''" "Status L d e p = (r, p')"
  shows "stable (hist (ps_os p)) (\<lambda>D. file_at D q = file_at (dsk (ps_os p)) q) (ps_os p')"
proof -
  define x where "x = file_at (dsk (ps_os p)) q"
  have start: "stable (hist (ps_os p)) (holds_at q x) (ps_os p)" using assms(1) by (intro stable_start) (simp add: holds_at_def x_def)
  obtain f p1 where 1: "configPath (fill d e) p = (f, p1)" by fastforce
  then have s1: "stable (hist (ps_os p)) (holds_at q x) (ps_os p1)" using configPath_looks [OF 1] start by blast
  have "stable (hist (ps_os p)) (holds_at q x) (ps_os p')"
  proof (cases f)
    case (Inl er)
    with assms(3) 1 s1 show ?thesis by (auto simp: Status_def Let_def)
  next
    case (Inr cf)
    obtain c p2 where 2: "on_os (Config.Load (sl_go (su_ssh L)) (sl_yaml (su_ssh L)) (sl_hostname (su_ssh L)) cf) p1 = (c, p2)" by fastforce
    then have "Config.Load (sl_go (su_ssh L)) (sl_yaml (su_ssh L)) (sl_hostname (su_ssh L)) cf (ps_os p1) = (c, ps_os p2)"
      by (auto simp: on_os_def split: prod.splits)
    from looksD [OF looks_reads(1) this] s1 have s2: "stable (hist (ps_os p)) (holds_at q x) (ps_os p2)" by blast
    show ?thesis
    proof (cases c)
      case (Inl er)
      with assms(3) 1 2 Inr s2 show ?thesis by (auto simp: Status_def Let_def)
    next
      case (Inr cfg)
      obtain problems p3 where 3: "status_report L (fill d e) cf cfg p2 = (problems, p3)" by fastforce
      from status_report_run [OF 3] s2 obtain w where "ps_os p3 = snd (cacheNote L (fill d e) cfg w)"
        "stable (hist (ps_os p)) (holds_at q x) w" by blast
      with cacheNote_stable [OF _ assms(2)] have "stable (hist (ps_os p)) (holds_at q x) (ps_os p3)" by simp
      with assms(3) 1 2 3 Inr \<open>f = Inr cf\<close> show ?thesis by (auto simp: Status_def Let_def)
    qed
  qed
  then show ?thesis by (rule stable_mono) (simp add: holds_at_def x_def)
qed

lemma Load_same:
  assumes "dsk w = dsk w'" "\<And>n. fst (sched w n) = None" "\<And>n. fst (sched w' n) = None"
  shows "fst (Config.Load G yaml hn f w) = fst (Config.Load G yaml hn f w')"
proof -
  have "fst (os_ReadFile f w) = fst (os_ReadFile f w')" using assms by (simp add: os_ReadFile_def observe_def fault_def)
  then show ?thesis by (auto simp: Config.Load_def split: prod.splits sum.splits)
qed

lemma calm_problems:
  assumes "status_report L env cf cfg p = (problems, q)" "\<And>n. fst (sched (ps_os p) n) = None"
  shows "problems = [] \<longleftrightarrow> snd (snd (fst (probeProvider L cfg (ps_net p)))) = None
    \<and> not_permissive 2 (dsk (ps_os p)) cf \<and> not_permissive 23 (dsk (ps_os p)) (c_IdentityKey cfg) \<and> c_HostID cfg \<noteq> []"
proof -
  let ?w = "snd (fileNote cf 2 (ps_os p))"
  have w: "dsk ?w = dsk (ps_os p)" "sched ?w = sched (ps_os p)" using looks_fileNote [of cf 2] by (simp_all add: looks_def)
  have "snd (fst (keyNote (sl_keys (su_ssh L)) (c_IdentityKey cfg) ?w)) = [] \<longleftrightarrow> not_permissive 23 (dsk (ps_os p)) (c_IdentityKey cfg)"
    using fileNote_problems [of ?w "c_IdentityKey cfg" 23] assms(2) by (simp add: keyNote_problems w)
  with status_report_run [OF assms(1)] fileNote_problems [OF assms(2), of cf 2] show ?thesis
    by (auto simp: probe_problem_def host_line_def split: option.splits)
qed

text \<open>What the probe asks of the provider.\<close>

definition provider_answers :: "('h, 'w) status_libs \<Rightarrow> Config \<Rightarrow> 'w \<Rightarrow> bool" where
  "provider_answers L cfg n =
     (let url = TrimSuffix (c_Issuer cfg) ''/'' @ ''/.well-known/openid-configuration'' in
      \<exists>u resp n1 body issuer endpoint. url_Parse (sl_go (su_ssh L)) url = Inr u
        \<and> su_get L (c_HTTPTimeout cfg)
            \<lparr>rq_method = ''GET'', rq_url = url, rq_header = [(''Accept'', ''application/json'')], rq_body = []\<rparr> n = (Inr resp, n1)
        \<and> rs_status resp = 200 \<and> readAll resp maxDiscoveryBody = (body, None) \<and> su_meta L body = Some (issuer, endpoint)
        \<and> (issuer = [] \<or> issuer = c_Issuer cfg))"

lemma probe_None: "snd (snd (fst (probeProvider L cfg n))) = None \<longleftrightarrow> provider_answers L cfg n"
proof -
  have a: "snd (snd (probe_answer L cfg url elapsed resp)) = None \<longleftrightarrow> (\<exists>body issuer endpoint. rs_status resp = 200
      \<and> readAll resp maxDiscoveryBody = (body, None) \<and> su_meta L body = Some (issuer, endpoint) \<and> (issuer = [] \<or> issuer = c_Issuer cfg))"
    for url elapsed resp
    by (cases "readAll resp maxDiscoveryBody") (auto simp: probe_answer_def Let_def split: option.split)
  show ?thesis
    by (auto simp: probeProvider_def provider_answers_def Let_def a split: sum.split prod.split)
qed

text \<open>What the report shows without counting it: the key file holds a key, the record of the enrolment is
  there and can be read, and the cache, when it is enabled, can be written.\<close>

definition notes_fine :: "('h, 'w) status_libs \<Rightarrow> Config \<Rightarrow> os \<Rightarrow> bool" where
  "notes_fine L cfg w \<longleftrightarrow> \<not> isl (fst (Hostid.Load (sl_keys (su_ssh L)) (c_IdentityKey cfg) w))
     \<and> (\<exists>rec. fst (readRecord (su_record L) cfg w) = Inr (Some rec))
     \<and> (c_CacheTTL cfg \<le> 0 \<or> fst (writable (su_suffixes L) (c_CacheDir cfg) w) = None)"

text \<open>C37: what the exit of status means. Take a configuration that is found and loads, and a run in which
  no system call fails. The last lines printed are the problems found, one line each with the
  marker, and the command fails exactly when there is one, with their number. A command that
  succeeds has seen the provider answer the probe with HTTP 200 and a JSON document that names no
  other issuer than the configured one, a configuration file that can be read and is not
  world-writable, a key file that can be read and has no bit beyond 0750, and a host id. Conversely,
  when all of this holds and nothing else that is shown is amiss (the key file holds a key, the
  enrolment record can be read, an enabled cache can be written), the command succeeds.\<close>

theorem Status_ok_iff:
  assumes "\<And>n. fst (sched (ps_os p) n) = None" "Status L d e p = (r, p')" "fe_Stdout (fill d e) = Stream"
    "fst (configPath (fill d e) p) = Inr cf"
    "fst (Config.Load (sl_go (su_ssh L)) (sl_yaml (su_ssh L)) (sl_hostname (su_ssh L)) cf (ps_os p)) = Inr cfg"
  shows "let checks = provider_answers L cfg (ps_net p) \<and> not_permissive 2 (dsk (ps_os p)) cf
           \<and> not_permissive 23 (dsk (ps_os p)) (c_IdentityKey cfg) \<and> c_HostID cfg \<noteq> []
    in (r = None \<longrightarrow> checks) \<and> (checks \<and> notes_fine L cfg (ps_os p) \<longrightarrow> r = None)
      \<and> (\<exists>problems out. ps_out p' = out @ concat (map (\<lambda>x. ''! '' @ x @ [NL]) problems)
          \<and> r = (if problems = [] then None else Some (errors_New (''oidc-ssh: '' @ dec (length problems) @ '' check(s) failed''))))"
proof -
  let ?load = "Config.Load (sl_go (su_ssh L)) (sl_yaml (su_ssh L)) (sl_hostname (su_ssh L))"
  obtain f p1 where 1: "configPath (fill d e) p = (f, p1)" by fastforce
  note q1 = configPath_looks [OF 1]
  from 1 assms(4) have f: "f = Inr cf" by simp
  obtain c p2 where 2: "on_os (?load cf) p1 = (c, p2)" by fastforce
  then have l: "?load cf (ps_os p1) = (c, ps_os p2)" "ps_net p2 = ps_net p1" by (auto simp: on_os_def split: prod.splits)
  have c: "c = Inr cfg"
    using Load_same [of "ps_os p1" "ps_os p"] q1 assms(1,5) l by (metis fst_conv)
  note q2 = looksD [OF looks_reads(1) l(1)]
  obtain problems p3 where 3: "status_report L (fill d e) cf cfg p2 = (problems, p3)" by fastforce
  have run: "r = (if problems = [] then None else Some (errors_New (''oidc-ssh: '' @ dec (length problems) @ '' check(s) failed'')))"
    "p' = print_problems (fill d e) problems p3"
    using assms(2) 1 2 3 f c by (auto simp: Status_def Let_def)
  have "problems = [] \<longleftrightarrow> provider_answers L cfg (ps_net p)
    \<and> not_permissive 2 (dsk (ps_os p)) cf \<and> not_permissive 23 (dsk (ps_os p)) (c_IdentityKey cfg) \<and> c_HostID cfg \<noteq> []"
    using calm_problems [OF 3] assms(1) q1 q2 l(2) by (simp add: probe_None)
  with run assms(3) show ?thesis unfolding Let_def by auto
qed

section \<open>Witnesses\<close>

definition sample_rec :: Record where
  "sample_rec = \<lparr>rc_HostID = ''h1'', rc_Name = ''n'', rc_Hostname = ''n'', rc_Groups = [], rc_Accounts = [''bob''],
     rc_Issuer = ''https://i'', rc_APIBase = ''https://i/a'', rc_Fingerprint = [], rc_AgentVersion = [], rc_EnrolledAt = 0\<rparr>"

definition sample_status :: "(unit, nat) status_libs" where
  "sample_status = \<lparr>su_ssh = sample_libs 200 [] 0, su_record = \<lparr>rl_marshal = (\<lambda>r. Inr ''r''), rl_unmarshal = (\<lambda>s. Inr sample_rec)\<rparr>,
     su_get = (\<lambda>t r n. (Inr \<lparr>rs_status = 200, rs_ctype = [], rs_body = ''d'', rs_body_err = None\<rparr>, Suc n)), su_now = (\<lambda>n. int n),
     su_meta = (\<lambda>s. Some (''https://i'', [])), su_mtime = (\<lambda>p. Inr 0), su_suffixes = [''1'']\<rparr>"

theorem Status_changes_no_file_witness:
  "stable (hist (ps_os sample_host)) (\<lambda>D. file_at D ''/e/k'' = file_at (dsk (ps_os sample_host)) ''/e/k'')
     (ps_os (snd (Status sample_status sample_defaults sample_Env sample_host)))"
proof -
  have "wf_disk (dsk (ps_os sample_host))" by (simp add: sample_host_def wf_disk_def file_inos_def)
  moreover have "\<not> Contains ''/e/k'' ''.oidc-ssh-probe-''" by code_simp
  ultimately show ?thesis by (rule Status_changes_no_file [OF _ _ prod.collapse [symmetric]])
qed

text \<open>The host of the samples with the record of its enrolment.\<close>

definition status_disk :: disk where
  "status_disk = \<lparr>ents = [(''/e/c'', FileEnt 0), (''/e/k'', FileEnt 1), (''/c'', DirEnt 448), (''/e'', DirEnt 493), (''/c/host.json'', FileEnt 2)],
     inodes = [\<lparr>i_mode = 416, i_owner = (0, 0), i_data = ''y''\<rparr>, \<lparr>i_mode = 416, i_owner = (0, 0), i_data = replicate 79 (CHR ''k'')\<rparr>,
       \<lparr>i_mode = 420, i_owner = (0, 0), i_data = ''r''\<rparr>]\<rparr>"

definition status_host :: "nat proc" where
  "status_host = sample_host\<lparr>ps_os := calm status_disk\<rparr>"

lemma status_notes: "notes_fine sample_status sample_cfg (calm status_disk)"
proof -
  have "\<not> isl (fst (Hostid.Load plain_keys ''/e/k'' (calm status_disk)))"
    by (simp add: Hostid.Load_def status_disk_def calm_def os_ReadFile_def observe_def fault_def file_at_def ent_def advance_def
        plain_keys_simps load_ed25519_def PrivateKeySize_def newIdentity_def keyComment_def HasPrefix_def key_magic_def Let_def)
  moreover have "recordPath sample_cfg = ''/c/host.json''" unfolding recordPath_def sample_cfg_def by code_simp
  then have "fst (readRecord (su_record sample_status) sample_cfg (calm status_disk)) = Inr (Some sample_rec)"
    by (simp add: readRecord_def sample_status_def status_disk_def calm_def os_ReadFile_def observe_def fault_def file_at_def ent_def)
  moreover have "fst (writable [''1''] ''/c'' (calm status_disk)) = None" unfolding calm_def status_disk_def by code_simp
  ultimately show ?thesis by (simp add: notes_fine_def sample_status_def sample_libs_def sample_cfg_def)
qed

theorem Status_ok_iff_witness: "fst (Status sample_status sample_defaults sample_Env status_host) = None"
proof -
  let ?env = "fill sample_defaults sample_Env" and ?w = "ps_os status_host"
  have w: "?w = calm status_disk" by (simp add: status_host_def)
  have s: "fst (sched ?w n) = None" for n by (simp add: w calm_def)
  have out: "fe_Stdout ?env = Stream" by (simp add: fill_def sample_Env_def or_default_def)
  have cp: "fst (configPath ?env status_host) = Inr ''/e/c''" by (simp add: configPath_def fill_def sample_Env_def)
  have load: "fst (Config.Load (sl_go (su_ssh sample_status)) (sl_yaml (su_ssh sample_status)) (sl_hostname (su_ssh sample_status)) ''/e/c'' ?w)
      = Inr sample_cfg"
    by (simp add: w Config.Load_def Parse_def sample_status_def sample_libs_def sample_parse status_disk_def calm_def os_ReadFile_def
        observe_def fault_def file_at_def ent_def)
  have probe: "provider_answers sample_status sample_cfg (ps_net status_host)"
    by (simp add: provider_answers_def sample_status_def sample_libs_def sample_cfg_def url_simps TrimSuffix_def
        HasSuffix_def readAll_def maxDiscoveryBody_def Let_def)
  have "dsk ?w = status_disk" by (simp add: w calm_def)
  then have "not_permissive 2 (dsk ?w) ''/e/c''" "not_permissive 23 (dsk ?w) ''/e/k''" "c_IdentityKey sample_cfg = ''/e/k''" "c_HostID sample_cfg \<noteq> []"
    by (simp_all add: status_disk_def not_permissive_def mode_at_def file_at_def ent_def sample_cfg_def)
  then have checks: "provider_answers sample_status sample_cfg (ps_net status_host) \<and> not_permissive 2 (dsk ?w) ''/e/c''
      \<and> not_permissive 23 (dsk ?w) (c_IdentityKey sample_cfg) \<and> c_HostID sample_cfg \<noteq> []" using probe by metis
  have quiet: "notes_fine sample_status sample_cfg ?w" unfolding w by (rule status_notes)
  from Status_ok_iff [OF s prod.collapse [symmetric] out cp load] checks quiet show ?thesis unfolding Let_def by blast
qed

end
