(* ===== verification/OidcSsh.thy ===== *)
theory OidcSsh
  imports StatusCmd
begin

text \<open>
  The binary \<^verbatim>\<open>oidc-ssh\<close> (\<^verbatim>\<open>src/cmd/oidc-ssh\<close>): the choice of the subcommand, the flags of each, and the
  exit code. The flag package of the standard library is modelled for flags that take a string,
  the only ones the binary has; the help text it derives from the flags is a parameter. The lemmas
  show what an exit code says, and that \<^verbatim>\<open>authorized-keys\<close> fails only on a usage error.
\<close>

section \<open>The flag package\<close>

datatype flag_arg = NotFlag | Terminator | BadFlag | Flag string "string option"

definition flag_token :: "string \<Rightarrow> flag_arg" where
  "flag_token s =
     (if length s < 2 \<or> hd s \<noteq> CHR ''-'' then NotFlag
      else if s = ''--'' then Terminator
      else (let name = (if s ! 1 = CHR ''-'' then drop 2 s else drop 1 s) in
        if hd name = CHR ''-'' \<or> hd name = CHR ''='' then BadFlag
        else (case IndexByte name (CHR ''='') of
            None \<Rightarrow> Flag name None | Some j \<Rightarrow> Flag (take j name) (Some (drop (Suc j) name)))))"

datatype flag_error = ErrHelp | FlagError string

text \<open>FlagSet.Parse: the values set, in order, and the arguments that are left.\<close>

fun parse_flags :: "string list \<Rightarrow> string list \<Rightarrow> strmap \<Rightarrow> flag_error + (strmap \<times> string list)" where
  "parse_flags names [] acc = Inr (acc, [])"
| "parse_flags names (s # args) acc =
     (case flag_token s of
        NotFlag \<Rightarrow> Inr (acc, s # args)
      | Terminator \<Rightarrow> Inr (acc, args)
      | BadFlag \<Rightarrow> Inl (FlagError (''bad flag syntax: '' @ s))
      | Flag name value \<Rightarrow>
          if name \<notin> set names then
            Inl (if name = ''help'' \<or> name = ''h'' then ErrHelp else FlagError (''flag provided but not defined: -'' @ name))
          else (case value of
              Some v \<Rightarrow> parse_flags names args (acc @ [(name, v)])
            | None \<Rightarrow> (case args of
                [] \<Rightarrow> Inl (FlagError (''flag needs an argument: -'' @ name))
              | v # rest \<Rightarrow> parse_flags names rest (acc @ [(name, v)]))))"

definition flag_value :: "strmap \<Rightarrow> string \<Rightarrow> string" where
  "flag_value a name = (case map_of (rev a) name of None \<Rightarrow> [] | Some v \<Rightarrow> v)"

definition flag_values :: "strmap \<Rightarrow> string \<Rightarrow> string list" where
  "flag_values a name = map snd (filter (\<lambda>x. fst x = name) a)"

section \<open>The subcommands\<close>

definition exitOK :: nat where "exitOK = 0"
definition exitFailure :: nat where "exitFailure = 1"
definition exitUsage :: nat where "exitUsage = 2"

text \<open>\<open>mn_syslog\<close> says whether syslog can be opened, \<open>mn_usage\<close> is the help text of a subcommand.\<close>

record ('h, 'p, 'w) main_libs =
  mn_enroll :: "('h, 'p, 'w) enroll_libs"
  mn_status :: "('h, 'w) status_libs"
  mn_syslog :: bool
  mn_usage :: "string \<Rightarrow> string"

definition to_err :: "string \<Rightarrow> 'w proc \<Rightarrow> 'w proc" where
  "to_err t p = p\<lparr>ps_err := ps_err p @ t\<rparr>"

definition to_out :: "string \<Rightarrow> 'w proc \<Rightarrow> 'w proc" where
  "to_out t p = p\<lparr>ps_out := ps_out p @ t\<rparr>"

definition usage :: string where
  "usage = unlines [''usage: oidc-ssh <command> [flags]'', [], ''commands:'',
     ''  enroll            register this host with the provider (must run as root)'',
     ''  authorized-keys   print the keys allowed for an account (run by sshd)'',
     ''  status            report the enrolment, the file permissions and the provider'',
     ''  version           print the version'', [],
     ''Run '' @ [DQ] @ ''oidc-ssh <command> --help'' @ [DQ] @ '' for the flags of a command.'']"

definition fail :: "go_error \<Rightarrow> 'w proc \<Rightarrow> nat \<times> 'w proc" where
  "fail e p = (exitFailure, to_err (err_msg e @ [NL]) p)"

text \<open>What the flag package prints when it refuses the arguments.\<close>

definition flag_output :: "string \<Rightarrow> flag_error \<Rightarrow> string" where
  "flag_output help e = (case e of ErrHelp \<Rightarrow> help | FlagError m \<Rightarrow> m @ [NL] @ help)"

definition main_env :: "bool \<Rightarrow> string \<Rightarrow> logger option \<Rightarrow> Env" where
  "main_env stderr cf lg = \<lparr>ev_Stdout = Some Stream, ev_Stderr = (if stderr then Some Stream else None), ev_Stdin = None,
     ev_ConfigPath = cf, ev_Log = lg, ev_Now = None, ev_Geteuid = None, ev_Hostname = None, ev_Executable = None\<rparr>"

definition newSyslogLogger :: "bool \<Rightarrow> logger" where
  "newSyslogLogger ok = (if ok then Syslog else NopLogger)"

definition enroll_flags :: "string list" where
  "enroll_flags = [''config'', ''issuer'', ''client-id'', ''name'', ''hostname'', ''api-base'', ''group'', ''account'']"

definition enroll_opts :: "strmap \<Rightarrow> EnrollOptions" where
  "enroll_opts a = \<lparr>eo_Issuer = flag_value a ''issuer'', eo_ClientID = flag_value a ''client-id'', eo_Name = flag_value a ''name'',
     eo_Hostname = flag_value a ''hostname'', eo_Groups = flag_values a ''group'', eo_Accounts = flag_values a ''account'',
     eo_APIBase = flag_value a ''api-base''\<rparr>"

definition runEnroll :: "('h, 'p, 'w) main_libs \<Rightarrow> defaults \<Rightarrow> string list \<Rightarrow> 'w proc \<Rightarrow> nat \<times> 'w proc" where
  "runEnroll M d args p =
     (case parse_flags enroll_flags args [] of
        Inl e \<Rightarrow> (exitUsage, to_err (flag_output (mn_usage M ''enroll'') e) p)
      | Inr (a, rest) \<Rightarrow> (case rest of
          x # xs \<Rightarrow> (exitUsage, to_err (''oidc-ssh enroll: unexpected argument '' @ quoted (sl_go (el_ssh (mn_enroll M))) x @ [NL]) p)
        | [] \<Rightarrow> (case Enroll (mn_enroll M) d (main_env True (flag_value a ''config'') None) None (enroll_opts a) p of
            (Some e, p1) \<Rightarrow> fail e p1 | (None, p1) \<Rightarrow> (exitOK, p1))))"

definition runAuthorizedKeys :: "('h, 'p, 'w) main_libs \<Rightarrow> defaults \<Rightarrow> string list \<Rightarrow> 'w proc \<Rightarrow> nat \<times> 'w proc" where
  "runAuthorizedKeys M d args p =
     (case parse_flags [''config''] args [] of
        Inl e \<Rightarrow> (exitUsage, to_err (flag_output (mn_usage M ''authorized-keys'') e) p)
      | Inr (a, rest) \<Rightarrow>
          if length rest < 1 \<or> 2 < length rest then (exitUsage, to_err (mn_usage M ''authorized-keys'') p)
          else (exitOK, AuthorizedKeys (el_ssh (mn_enroll M)) d
            (main_env False (flag_value a ''config'') (Some (newSyslogLogger (mn_syslog M))))
            (rest ! 0) (if length rest = 2 then rest ! 1 else []) p))"

definition runStatus :: "('h, 'p, 'w) main_libs \<Rightarrow> defaults \<Rightarrow> string list \<Rightarrow> 'w proc \<Rightarrow> nat \<times> 'w proc" where
  "runStatus M d args p =
     (case parse_flags [''config''] args [] of
        Inl e \<Rightarrow> (exitUsage, to_err (flag_output (mn_usage M ''status'') e) p)
      | Inr (a, rest) \<Rightarrow> (case rest of
          x # xs \<Rightarrow> (exitUsage, to_err (''oidc-ssh status: unexpected argument '' @ quoted (sl_go (el_ssh (mn_enroll M))) x @ [NL]) p)
        | [] \<Rightarrow> (case Status (mn_status M) d (main_env True (flag_value a ''config'') None) p of
            (Some e, p1) \<Rightarrow> (exitFailure, p1) | (None, p1) \<Rightarrow> (exitOK, p1))))"

definition run :: "('h, 'p, 'w) main_libs \<Rightarrow> defaults \<Rightarrow> string list \<Rightarrow> 'w proc \<Rightarrow> nat \<times> 'w proc" where
  "run M d args p =
     (case args of
        [] \<Rightarrow> (exitUsage, to_err usage p)
      | cmd # rest \<Rightarrow>
          if cmd = ''enroll'' then runEnroll M d rest p
          else if cmd = ''authorized-keys'' then runAuthorizedKeys M d rest p
          else if cmd = ''status'' then runStatus M d rest p
          else if cmd \<in> {''help'', ''-h'', ''--help''} then (exitOK, to_out usage p)
          else if cmd \<in> {''version'', ''--version''} then (exitOK, to_out (''oidc-ssh '' @ Version @ [NL]) p)
          else (exitUsage, to_err (''oidc-ssh: unknown command '' @ quoted (sl_go (el_ssh (mn_enroll M))) cmd @ [NL] @ usage) p))"

section \<open>The flags\<close>

lemma flag_value_snoc [simp]:
  "flag_value (a @ [(n, v)]) m = (if m = n then v else flag_value a m)" "flag_value [] m = []"
  "flag_values (a @ [(n, v)]) m = flag_values a m @ (if m = n then [v] else [])" "flag_values [] m = []"
  by (simp_all add: flag_value_def flag_values_def)

text \<open>Arguments that do not begin with a dash are left as they are.\<close>

lemma parse_flags_plain:
  assumes "args = [] \<or> (\<exists>s rest. args = s # rest \<and> (s = [] \<or> hd s \<noteq> CHR ''-''))"
  shows "parse_flags names args acc = Inr (acc, args)"
  using assms by (auto simp: flag_token_def)

lemma parse_flags_pair:
  "flag_token s = Flag name None \<Longrightarrow> name \<in> set names \<Longrightarrow> parse_flags names (s # v # args) acc = parse_flags names args (acc @ [(name, v)])"
  by simp

section \<open>Exit codes\<close>

lemmas exit_defs = exitOK_def exitFailure_def exitUsage_def

text \<open>An exit code is one of three; a usage error does nothing but complain on standard error, and a
  subcommand fails exactly when the command behind it returns an error.\<close>

lemma exit_codes:
  assumes "run M d args p = (n, p')"
  shows "n \<in> {0, 1, 2}" "n = 2 \<Longrightarrow> \<exists>t. p' = to_err t p"
    and "args = ''enroll'' # rest \<Longrightarrow> parse_flags enroll_flags rest [] = Inr (a, []) \<Longrightarrow>
      (n = 0) = (fst (Enroll (mn_enroll M) d (main_env True (flag_value a ''config'') None) None (enroll_opts a) p) = None)"
    and "args = ''status'' # rest \<Longrightarrow> parse_flags [''config''] rest [] = Inr (a, []) \<Longrightarrow>
      (n = 0) = (fst (Status (mn_status M) d (main_env True (flag_value a ''config'') None) p) = None)"
  using assms
  by (auto simp: run_def runEnroll_def runAuthorizedKeys_def runStatus_def fail_def exit_defs
      split: list.splits if_splits sum.splits prod.splits option.splits)

lemma AuthorizedKeys_streams:
  assumes "fe_Stderr (fill d e) = Discard" "fe_Stdout (fill d e) = Stream"
  shows "ps_err (AuthorizedKeys L d e account fp p) = ps_err p \<and> (\<exists>ls. ps_out (AuthorizedKeys L d e account fp p) = ps_out p @ unlines ls)
    \<and> (\<exists>line. ps_log (AuthorizedKeys L d e account fp p) = ps_log p @ (if fe_Log (fill d e) = Syslog then [line] else []))"
proof -
  obtain ls a p1 where 1: "fetchKeys L (fill d e) (new_audit account fp) p = ((ls, a), p1)" by (metis prod.exhaust)
  then have "same_streams p p1"
    by (cases rule: fetchKeys_run) (auto simp: quiet_def)
  then show ?thesis
    using 1 AuthorizedKeys_out [OF 1 assms(2)] assms
    by (auto simp: same_streams_def AuthorizedKeys_def Let_def Log_def writeLines_def printf_def split: logger.split writer.split)
qed

text \<open>What sshd runs exits with 2 and does nothing but complain when its arguments are not one flag and one
  or two other arguments; otherwise it exits with 0.\<close>

lemma authorized_keys_cases:
  assumes "run M d (''authorized-keys'' # args) p = (n, p')"
  shows "case parse_flags [''config''] args [] of
      Inl e \<Rightarrow> n = 2 \<and> (\<exists>t. p' = to_err t p)
    | Inr (a, rest) \<Rightarrow> if length rest \<in> {1, 2}
        then n = 0 \<and> p' = AuthorizedKeys (el_ssh (mn_enroll M)) d (main_env False (flag_value a ''config'') (Some (newSyslogLogger (mn_syslog M))))
          (hd rest) (if length rest = 2 then last rest else []) p
        else n = 2 \<and> (\<exists>t. p' = to_err t p)"
proof (cases "parse_flags [''config''] args []")
  case (Inl e)
  with assms show ?thesis by (auto simp: run_def runAuthorizedKeys_def exit_defs)
next
  case (Inr x)
  obtain a rest where x: "x = (a, rest)" by fastforce
  show ?thesis
  proof (cases "length rest \<in> {1, 2}")
    case False
    then have "length rest < 1 \<or> 2 < length rest" by (metis One_nat_def insertCI less_Suc0 linorder_neqE_nat less_2_cases_iff)
    with assms Inr x False show ?thesis by (auto simp: run_def runAuthorizedKeys_def exit_defs)
  next
    case True
    have args: "rest ! 0 = hd rest" "length rest = 2 \<Longrightarrow> rest ! 1 = last rest"
      using True by (cases rest; auto simp: hd_conv_nth last_conv_nth)+
    have "rest \<noteq> []" "\<not> 2 < length rest" using True by auto
    then show ?thesis using assms Inr x True args by (auto simp: run_def runAuthorizedKeys_def exit_defs)
  qed
qed

text \<open>C40: a failing query does not fail what sshd runs. For a command line with flags that parse, an
  account name that is plausible and perhaps a fingerprint, the exit code is 0 whatever goes
  wrong: the command runs once for the account and the fingerprint given and the configuration
  the flag names, writes nothing to standard error and nothing but lines to standard output, and
  logs exactly one line when syslog could be opened.\<close>

theorem authorized_keys_exit:
  assumes "run M d (''authorized-keys'' # args) p = (n, p')" "parse_flags [''config''] args [] = Inr (a, account # others)"
    "others = [] \<or> others = [fingerprint]" "validAccount account"
  shows "n = 0 \<and> ps_err p' = ps_err p \<and> (\<exists>ls. ps_out p' = ps_out p @ unlines ls)
    \<and> (\<exists>line. ps_log p' = ps_log p @ (if mn_syslog M then [line] else []))
    \<and> (\<exists>e. ev_ConfigPath e = flag_value a ''config'' \<and>
        p' = AuthorizedKeys (el_ssh (mn_enroll M)) d e account (if others = [] then [] else fingerprint) p)"
proof -
  let ?e = "main_env False (flag_value a ''config'') (Some (newSyslogLogger (mn_syslog M)))"
  have run: "n = 0" "p' = AuthorizedKeys (el_ssh (mn_enroll M)) d ?e account (if others = [] then [] else fingerprint) p"
    using authorized_keys_cases [OF assms(1)] assms(2,3) by auto
  have env: "fe_Stderr (fill d ?e) = Discard" "fe_Stdout (fill d ?e) = Stream" "(fe_Log (fill d ?e) = Syslog) = mn_syslog M"
    "ev_ConfigPath ?e = flag_value a ''config''"
    by (simp_all add: fill_def main_env_def or_default_def newSyslogLogger_def)
  from AuthorizedKeys_streams [OF env(1,2)] run env(3,4) show ?thesis by auto
qed

definition sample_main :: "(unit, unit, nat) main_libs" where
  "sample_main = \<lparr>mn_enroll = sample_enroll, mn_status = sample_status, mn_syslog = True, mn_usage = (\<lambda>c. ''help'')\<rparr>"

theorem authorized_keys_exit_witness:
  "fst (run sample_main sample_defaults [''authorized-keys'', ''-config=/e/c'', ''bob'', ''x''] sample_host) = 0"
proof -
  have a: "parse_flags [''config''] [''-config=/e/c'', ''bob'', ''x''] [] = Inr ([(''config'', ''/e/c'')], [''bob'', ''x''])"
    by code_simp
  have v: "validAccount ''bob''" by code_simp
  from authorized_keys_exit [OF prod.collapse [symmetric] a _ v, of "''x''" sample_main sample_defaults sample_host] show ?thesis by simp
qed

end
