(* ===== verification/Spec2Isabelle.thy ===== *)
theory Spec2Isabelle
  imports Pamlog Keycache Provider Config OidcClient Auth Hostid AuthorizedKeysCmd Helper ConfigEdit EnrollCmd TestProvider MockProvider OidcSsh
begin

text \<open>
  Verification of oidc-ssh: SSH logins decided by an OpenID Connect provider.

  \<^bold>\<open>The program.\<close> Three binaries share the packages under \<^verbatim>\<open>src/internal\<close>. The helper behind the PAM module
  (\<^verbatim>\<open>src/cmd/oidc-ssh-helper\<close>) reads the configuration (package config), talks to the provider with the
  device flow (oidc), and decides one login (auth), after which it exports session variables and writes
  one audit line (pamlog). The command line tool (\<^verbatim>\<open>src/cmd/oidc-ssh\<close>) enrols the host, answers the
  AuthorizedKeysCommand of sshd and reports the status (package sshcmd); it uses the key pair of the host
  (hostid), the SSH access API of the provider (provider) and the last-known-good answers (keycache). The
  stand-in provider (\<^verbatim>\<open>src/cmd/mock-provider\<close>, package testprovider) is the other side of all of these.

  \<^bold>\<open>Theories and sources.\<close> The ground, with no file of its own in the repository, is Go's standard library as far
  as the program calls it:
  \<^item> Prelude: strings as lists of bytes, the \<^verbatim>\<open>strings\<close> package, decimal numbers, errors with their sentinels.
  \<^item> Utf8: decoding rune by rune, with the replacement of bytes that start no rune; the rune classes.
  \<^item> GoTime: instants and durations in nanoseconds, RFC 3339 and the printed form of a duration.
  \<^item> Fs: directories, inodes and open files. Each system call is one step that a schedule may make fail, and the
    disk after each step is recorded in \<open>hist\<close>, so that a claim about all of them is a claim about
    a crash, or a reader, between any two calls.
  \<^item> GoUrl: parsing of URLs and query strings, and query escaping.

  The theories that model a source, in the order they build on each other:
  \<^item> Pamlog: \<^verbatim>\<open>internal/pamlog/pamlog.go\<close>. The loop of Sanitize refines its description by words; audit lines
    cannot be forged and stay within their bounds.
  \<^item> Keycache: \<^verbatim>\<open>internal/keycache/cache.go\<close>. Paths are confined, writing is safe against crashes, and the
    cache refines a map from keys to answers with the time they were stored.
  \<^item> Provider: \<^verbatim>\<open>internal/provider/client.go\<close>. Accepted base URLs, requests that say what was meant, the filter on
    served lines, and which failures count as an outage.
  \<^item> Config: \<^verbatim>\<open>internal/config/config.go\<close>. What holds of every configuration that parses.
  \<^item> OidcClient: \<^verbatim>\<open>internal/oidc/client.go\<close>. Checks at discovery, the two requests of the device flow, the
    classification of their errors, and the checks of an ID token.
  \<^item> Auth: \<^verbatim>\<open>internal/auth/authenticator.go\<close>. The shape of every outcome, when a login succeeds, and what it rests on
    when the flow is the one of OidcClient.
  \<^item> Hostid: \<^verbatim>\<open>internal/hostid/hostid.go\<close>. A key is never overwritten and loads again; what an assertion says.
  \<^item> SshEnv, AuthorizedKeysCmd: \<^verbatim>\<open>internal/sshcmd/sshcmd.go\<close> and \<^verbatim>\<open>authorized_keys.go\<close>. The relation \<open>host_run\<close> has
    every history of key queries of a host; no line reaches sshd that the provider did not give for this
    account, and an old one only during an outage.
  \<^item> Helper: \<^verbatim>\<open>cmd/oidc-ssh-helper/main.go\<close>. The line protocol with the module and one attempt from end to end.
  \<^item> ConfigEdit: \<^verbatim>\<open>internal/sshcmd/config_edit.go\<close>, \<^verbatim>\<open>record.go\<close> and \<^verbatim>\<open>owner_unix.go\<close>. The rewrite touches the lines of the
    given keys and replaces the file in one step.
  \<^item> EnrollCmd: \<^verbatim>\<open>internal/sshcmd/enroll.go\<close>. The configuration is the last file to change; the groups approved are the
    groups enrolled.
  \<^item> CacheWalk, StatusCmd: \<^verbatim>\<open>internal/sshcmd/status.go\<close>. The walk ends and sees every cache file once; what the exit
    of the command says, and that it changes nothing.
  \<^item> OidcSsh: \<^verbatim>\<open>cmd/oidc-ssh/main.go\<close>, \<^verbatim>\<open>enroll.go\<close>, \<^verbatim>\<open>authorized_keys.go\<close> and \<^verbatim>\<open>status.go\<close>. Subcommands, flags and exit codes.
  \<^item> TestProvider: \<^verbatim>\<open>internal/testprovider/provider.go\<close> and \<^verbatim>\<open>ssh.go\<close>. The relation \<open>prov_run\<close> has every sequence of
    requests and of the calls that program the provider, at any times; it records the accepted assertions, the times of
    the verifications and the calls of AddHost. No assertion is accepted twice while the times of the verifications do
    not decrease, hosts stay apart while AddHost (which checks neither name nor key) is not called, and
    polling reaches the programmed outcome. What Hostid signs is what this side accepts.
  \<^item> MockProvider: \<^verbatim>\<open>cmd/mock-provider/main.go\<close>. From the flags to a provider of theory TestProvider.

  \<^bold>\<open>State and effects.\<close> A function of the source that changes something takes the state and returns it: \<open>os\<close> for
  files, a type variable \<open>'w\<close> for the world behind the network, and the records \<open>proc\<close> (a command),
  \<open>helper\<close> (the helper) and \<open>provider\<close> (the test provider) for a process. An error is the left of
  a sum and carries its text and the sentinels that errors.Is finds. A Go map is an association list
  in the order some range over it visits, and what must not depend on that order is proved not to.
  Instants and durations are \<open>int\<close>; where the code subtracts values from outside (the deadline of a device
  code, the lifetime of an assertion) the saturation or the wrap-around at 64 bits is written out.

  \<^bold>\<open>Interfaces.\<close> Three locales hold the contracts between components, and each is interpreted on the model of the
  provider of the contract:
  \<^item> \<open>identity_source\<close> (Auth): what a login may rely on when an identity is handed to it; interpreted by
    VerifyIDToken of OidcClient.
  \<^item> \<open>login_session\<close> (Helper): what every operation of a login keeps of the state of the process; interpreted once for
    the protocol on standard output, once for the files.
  \<^item> \<open>answer_store\<close> (Keycache): a store that forgets and expires but never invents, and whose answers are those of the last put that
    succeeded; interpreted by the cache on disk.

  \<^bold>\<open>Parameters.\<close> Code that is not in the repository is a function in a record that the definitions take:
  \<open>golib\<close> (the Unicode tables of Go, its lenient time parser, fractions of durations, IP literals, media types), \<open>yaml\<close> and \<open>yaml_lib\<close> (yaml.v3),
  \<open>provider_env\<close> (HTTP transport, JSON, OpenSSH keys), \<open>oidc_env\<close> (go-oidc, x/oauth2 and their transport),
  \<open>key_lib\<close> (Ed25519, PEM, JOSE), \<open>record_lib\<close> (JSON of the enrolment record), \<open>prov_lib\<close> (JOSE and JSON of the test
  provider), \<open>sshlibs\<close>, \<open>enroll_libs\<close>, \<open>status_libs\<close> and \<open>main_libs\<close> (bundles of these for a command). Where a
  theorem relies on documented behaviour of one of them, such as decoding what was encoded, it is a
  premise of the theorem, and a witness discharges it on concrete functions.

  \<^bold>\<open>Fuel.\<close> Every loop of the program is a structural recursion, or has a measure, except the walk over the
  cache. It takes one unit per entry visited, with \<open>walk_fuel\<close> units for all entries of the disk and the
  root; \<open>cache_walk_ends\<close> states that this is enough.

  \<^bold>\<open>Not modelled.\<close> The empty owner_other.go for systems without POSIX owners and the package comment doc.go. Flag
  parsing of oidc-ssh-helper and mock-provider, whose models start from the parsed flags. Routing,
  response headers, listeners and the request log of the test provider, and its methods that only read the state.
  Waiting for a signal. Recovery from panics, since the definitions are total. Symbolic and hard links,
  and permission checks beyond a call that fails. The cancellation of contexts inside the
  transports, which is part of what a transport answers. Two processes that write the same files at the same
  time: a history interleaves whole operations, and the states between two system calls are what a reader may see.
  The loss of power: a file system here keeps what was written, so that Sync changes nothing on the disk and only its
  failure is seen. Wrap-around at absurd values in two places: the conversion of an expiry near \<open>2 ^ 63\<close> seconds
  to an instant in the test provider, which Go rejects as expired, and three times an HTTP timeout of more than
  97 years in the helper.
\<close>

end
